(* ===== verification/Go_Prelude.thy ===== *)
theory Go_Prelude
  imports Main "HOL-Library.Word" "HOL-Library.Multiset"
begin

text \<open>
  What every component shares: Go's 64-bit signed integers as \<open>int\<close> with the wrap-around
  written out, truncating division, saturating durations, errors, buffered channels, and folds
  over Go maps, whose iteration order the language leaves open.
\<close>

section \<open>Collections of rules\<close>

named_theorems i64_arith \<open>64-bit signed arithmetic without overflow\<close>

section \<open>Signed 64-bit integers\<close>

text \<open>
  \<open>int64\<close> and, on the 64-bit targets the images are built for, \<open>int\<close>: two's complement, wrapping.
\<close>

definition max_i64 :: int where
  "max_i64 = 9223372036854775807"

definition min_i64 :: int where
  "min_i64 = - 9223372036854775808"

definition is_i64 :: "int \<Rightarrow> bool" where
  "is_i64 x \<longleftrightarrow> min_i64 \<le> x \<and> x \<le> max_i64"

definition wrap64 :: "int \<Rightarrow> int" where
  "wrap64 x = (x + 9223372036854775808) mod 18446744073709551616 - 9223372036854775808"

abbreviation add64 :: "int \<Rightarrow> int \<Rightarrow> int" where
  "add64 a b \<equiv> wrap64 (a + b)"

abbreviation sub64 :: "int \<Rightarrow> int \<Rightarrow> int" where
  "sub64 a b \<equiv> wrap64 (a - b)"

abbreviation mul64 :: "int \<Rightarrow> int \<Rightarrow> int" where
  "mul64 a b \<equiv> wrap64 (a * b)"

lemma is_i64_iff [i64_arith]:
  "is_i64 x \<longleftrightarrow> - 9223372036854775808 \<le> x \<and> x \<le> 9223372036854775807"
  by (simp add: is_i64_def min_i64_def max_i64_def)

lemma wrap64_id [i64_arith]:
  "- 9223372036854775808 \<le> x \<Longrightarrow> x \<le> 9223372036854775807 \<Longrightarrow> wrap64 x = x"
  by (simp add: wrap64_def)

lemma wrap64_0 [simp]: "wrap64 0 = 0"
  by (simp add: wrap64_def)

lemma wrap64_range: "is_i64 (wrap64 x)"
proof -
  have "0 \<le> (x + 9223372036854775808) mod 18446744073709551616"
    and "(x + 9223372036854775808) mod 18446744073709551616 < 18446744073709551616"
    by simp_all
  then show ?thesis
    unfolding is_i64_iff wrap64_def by linarith
qed

lemma wrap64_add_left: "wrap64 (wrap64 a + b) = wrap64 (a + b)"
proof -
  have "wrap64 a + b + 9223372036854775808
      = (a + 9223372036854775808) mod 18446744073709551616 + b"
    by (simp add: wrap64_def)
  then have "wrap64 (wrap64 a + b)
      = ((a + 9223372036854775808) mod 18446744073709551616 + b) mod 18446744073709551616
        - 9223372036854775808"
    by (simp add: wrap64_def)
  also have "\<dots> = wrap64 (a + b)"
    unfolding wrap64_def mod_add_left_eq by (simp add: ac_simps)
  finally show ?thesis .
qed

lemma wrap64_add_right: "wrap64 (a + wrap64 b) = wrap64 (a + b)"
  using wrap64_add_left [of b a] by (simp add: add.commute)

text \<open>Go's integer division truncates towards zero; a zero divisor panics, so the callers' guards
  exclude it.\<close>

definition go_div :: "int \<Rightarrow> int \<Rightarrow> int" where
  "go_div a b = sgn a * sgn b * (\<bar>a\<bar> div \<bar>b\<bar>)"

lemma go_div_nonneg [i64_arith]: "0 \<le> a \<Longrightarrow> 0 < b \<Longrightarrow> go_div a b = a div b"
  by (cases "a = 0") (simp_all add: go_div_def sgn_if)

text \<open>\<open>time.Time\<close> is nanoseconds on one time line; \<open>t.Sub(u)\<close> saturates at the ends of
  \<open>time.Duration\<close>, and \<open>Milliseconds\<close> truncates.\<close>

type_synonym time = int

definition sub_time :: "time \<Rightarrow> time \<Rightarrow> int" where
  "sub_time t u = max min_i64 (min max_i64 (t - u))"

definition milliseconds :: "int \<Rightarrow> int" where
  "milliseconds d = go_div d 1000000"

definition after :: "time \<Rightarrow> time \<Rightarrow> bool" where
  "after t u \<longleftrightarrow> u < t"

section \<open>Errors\<close>

text \<open>A Go \<open>error\<close> value: the sentinel errors the code tests with \<open>errors.Is\<close>, a plain message, and
  \<open>fmt.Errorf\<close> with a \<open>%w\<close> between a prefix and a suffix, which wraps.\<close>

datatype error =
    Canceled
  | Deadline
  | Insufficient_storage
  | Short_write
  | Unexpected_eof
  | Eof
  | Err string
  | Wrap string error string

fun errors_is :: "error \<Rightarrow> error \<Rightarrow> bool" where
  "errors_is (Wrap p e q) target = (Wrap p e q = target \<or> errors_is e target)"
| "errors_is e target = (e = target)"

fun error_text :: "error \<Rightarrow> string" where
  "error_text Canceled = ''context canceled''"
| "error_text Deadline = ''context deadline exceeded''"
| "error_text Insufficient_storage = ''insufficient storage''"
| "error_text Short_write = ''short write''"
| "error_text Unexpected_eof = ''unexpected EOF''"
| "error_text Eof = ''EOF''"
| "error_text (Err m) = m"
| "error_text (Wrap p e q) = p @ error_text e @ q"

lemma errors_is_refl [simp]: "errors_is e e"
  by (cases e) simp_all

type_synonym 'a result = "error + 'a"

section \<open>Folds over Go maps\<close>

text \<open>
  \<open>for _, v := range m\<close> visits the entries in an order Go leaves unspecified. Where the body is a
  left-commutative accumulation, the result does not depend on that order. The interface is a
  locale; the saturating sum of reservations and the wrapping sum of progress counters are its
  instances.
\<close>

locale range_fold =
  fixes acc :: "'s \<Rightarrow> 'v \<Rightarrow> 's"
  assumes acc_comm: "acc (acc s x) y = acc (acc s y) x"
begin

lemma foldl_move: "foldl acc (acc s x) xs = acc (foldl acc s xs) x"
  by (induction xs arbitrary: s) (simp_all add: acc_comm)

lemma foldl_remove1: "x \<in> set xs \<Longrightarrow> foldl acc s xs = acc (foldl acc s (remove1 x xs)) x"
proof (induction xs arbitrary: s)
  case Nil
  then show ?case by simp
next
  case (Cons a xs)
  show ?case
  proof (cases "x = a")
    case True
    then show ?thesis by (simp add: foldl_move)
  next
    case False
    with Cons show ?thesis by (simp add: foldl_move)
  qed
qed

lemma range_order_free:
  "mset xs = mset ys \<Longrightarrow> foldl acc s xs = foldl acc s ys"
proof (induction xs arbitrary: ys s)
  case Nil
  then show ?case by simp
next
  case (Cons x xs)
  from Cons.prems have x: "x \<in> set ys"
    by (metis list.set_intros(1) set_mset_mset)
  from Cons.prems have "mset xs = mset (remove1 x ys)"
    by (metis add_mset_remove_trivial mset.simps(2) mset_remove1)
  then have "foldl acc s xs = foldl acc s (remove1 x ys)"
    by (rule Cons.IH)
  with x show ?case
    by (simp add: foldl_move foldl_remove1 [of x ys])
qed

end

interpretation wrap_sum: range_fold "\<lambda>s v. wrap64 (s + v)"
proof unfold_locales
  fix s x y :: int
  have "s + x + y = s + y + x" by simp
  then show "wrap64 (wrap64 (s + x) + y) = wrap64 (wrap64 (s + y) + x)"
    by (simp only: wrap64_add_left)
qed

section \<open>Progress\<close>

text \<open>
  Two components show their progress by calling a function: \<open>shown\<close> are the values it was called
  with and \<open>high\<close> the highest so far. Where every step of the component adds at most one call,
  above \<open>high\<close>, the calls increase.
\<close>

locale progress_log =
  fixes shown :: "'s \<Rightarrow> int list" and high :: "'s \<Rightarrow> int" and step :: "'s \<Rightarrow> 's \<Rightarrow> bool"
  assumes step_log: "step s s' \<Longrightarrow> high s \<le> high s' \<and>
    (shown s' = shown s \<or> (\<exists>v. high s < v \<and> v \<le> high s' \<and> shown s' = shown s @ [v]))"
begin

definition rising :: "'s \<Rightarrow> bool" where
  "rising s \<longleftrightarrow> sorted_wrt (<) (shown s) \<and> (\<forall>v\<in>set (shown s). v \<le> high s)"

lemma rising_step: "rising s \<Longrightarrow> step s s' \<Longrightarrow> rising s'"
  using step_log [of s s'] by (fastforce simp: rising_def sorted_wrt_append)

lemma rising_steps: "step\<^sup>*\<^sup>* s s' \<Longrightarrow> rising s \<Longrightarrow> rising s'"
  by (induction rule: rtranclp_induct) (auto intro: rising_step)

end

section \<open>Lists\<close>

lemma take_add_drop: "take (n + m) xs = take n xs @ take m (drop n xs)"
  by (simp add: take_add)

lemma nth_append_drop: "length xs = n \<Longrightarrow> take n (xs @ ys) = xs \<and> drop n (xs @ ys) = ys"
  by simp

end
