(* ===== verification/Go_Strings.thy ===== *)
theory Go_Strings
  imports Go_Prelude
begin

text \<open>
  The functions of Go's \<open>strings\<close> and \<open>strconv\<close> packages the program calls, on Go strings, which
  are byte sequences (\<open>char list\<close>). \<open>TrimSpace\<close> strips every encoding of a Unicode white space
  character. \<open>ToLower\<close> maps the ASCII letters; the Unicode case tables are not modelled and bytes
  above 127 stay as they are.
\<close>

section \<open>Prefixes, suffixes, substrings\<close>

definition has_prefix :: "string \<Rightarrow> string \<Rightarrow> bool" where
  "has_prefix s p \<longleftrightarrow> take (length p) s = p"

definition has_suffix :: "string \<Rightarrow> string \<Rightarrow> bool" where
  "has_suffix s p \<longleftrightarrow> length p \<le> length s \<and> drop (length s - length p) s = p"

definition trim_prefix :: "string \<Rightarrow> string \<Rightarrow> string" where
  "trim_prefix s p = (if has_prefix s p then drop (length p) s else s)"

fun contains :: "string \<Rightarrow> string \<Rightarrow> bool" where
  "contains [] p = (p = [])"
| "contains (c # s) p = (has_prefix (c # s) p \<or> contains s p)"

fun cut_at :: "char \<Rightarrow> string \<Rightarrow> (string \<times> string) option" where
  "cut_at c [] = None"
| "cut_at c (x # s) =
     (if x = c then Some ([], s)
      else case cut_at c s of None \<Rightarrow> None | Some (b, a) \<Rightarrow> Some (x # b, a))"

fun split_at :: "char \<Rightarrow> string \<Rightarrow> string list" where
  "split_at c [] = [[]]"
| "split_at c (x # s) =
     (if x = c then [] # split_at c s
      else case split_at c s of [] \<Rightarrow> [[x]] | w # ws \<Rightarrow> (x # w) # ws)"

lemma has_prefix_iff: "has_prefix s p \<longleftrightarrow> (\<exists>t. s = p @ t)"
  unfolding has_prefix_def by (metis append_eq_conv_conj append_take_drop_id)

lemma has_prefix_append [simp]: "has_prefix (p @ s) p"
  by (simp add: has_prefix_def)

lemma has_suffix_iff: "has_suffix s p \<longleftrightarrow> (\<exists>t. s = t @ p)"
  unfolding has_suffix_def by (metis append_take_drop_id append_eq_conv_conj diff_diff_cancel
      length_append length_drop diff_add_inverse2 le_add2)

lemma contains_iff: "contains s p \<longleftrightarrow> (\<exists>a b. s = a @ p @ b)"
proof (induction s)
  case Nil
  then show ?case by simp
next
  case (Cons c s)
  show ?case
    unfolding contains.simps Cons.IH has_prefix_iff
    by (metis (no_types, opaque_lifting) append_Cons append_Nil list.exhaust list.inject)
qed

lemma split_at_nonempty: "split_at c s \<noteq> []"
  by (induction s) (auto split: list.splits)

lemma cut_at_Some: "cut_at c s = Some (b, a) \<Longrightarrow> s = b @ c # a \<and> c \<notin> set b"
  by (induction s arbitrary: b) (auto split: if_splits option.splits)

lemma cut_at_append: "c \<notin> set b \<Longrightarrow> cut_at c (b @ c # a) = Some (b, a)"
  by (induction b) auto

section \<open>Trimming\<close>

text \<open>Stripping any of the words \<open>ws\<close> from the front, as long as one is there.\<close>

function strip_words :: "string list \<Rightarrow> string \<Rightarrow> string" where
  "strip_words ws s =
     (case find (\<lambda>w. w \<noteq> [] \<and> has_prefix s w) ws of
        None \<Rightarrow> s
      | Some w \<Rightarrow> strip_words ws (drop (length w) s))"
  by pat_completeness auto
termination
proof (relation "measure (\<lambda>(ws, s). length s)", simp)
  fix ws s w
  assume "find (\<lambda>w. w \<noteq> [] \<and> has_prefix s w) ws = Some w"
  then have "w \<noteq> []" and "has_prefix s w"
    by (auto simp: find_Some_iff)
  then show "((ws, drop (length w) s), ws, s) \<in> measure (\<lambda>(ws, s). length s)"
    by (cases w) (auto simp: has_prefix_iff)
qed

declare strip_words.simps [simp del]

text \<open>The UTF-8 encodings of the characters \<open>unicode.IsSpace\<close> accepts.\<close>

definition space_words :: "string list" where
  "space_words =
     [[CHR 0x09], [CHR 0x0A], [CHR 0x0B], [CHR 0x0C], [CHR 0x0D], [CHR 0x20],
      [CHR 0xC2, CHR 0x85], [CHR 0xC2, CHR 0xA0], [CHR 0xE1, CHR 0x9A, CHR 0x80],
      [CHR 0xE2, CHR 0x80, CHR 0x80], [CHR 0xE2, CHR 0x80, CHR 0x81],
      [CHR 0xE2, CHR 0x80, CHR 0x82], [CHR 0xE2, CHR 0x80, CHR 0x83],
      [CHR 0xE2, CHR 0x80, CHR 0x84], [CHR 0xE2, CHR 0x80, CHR 0x85],
      [CHR 0xE2, CHR 0x80, CHR 0x86], [CHR 0xE2, CHR 0x80, CHR 0x87],
      [CHR 0xE2, CHR 0x80, CHR 0x88], [CHR 0xE2, CHR 0x80, CHR 0x89],
      [CHR 0xE2, CHR 0x80, CHR 0x8A], [CHR 0xE2, CHR 0x80, CHR 0xA8],
      [CHR 0xE2, CHR 0x80, CHR 0xA9], [CHR 0xE2, CHR 0x80, CHR 0xAF],
      [CHR 0xE2, CHR 0x81, CHR 0x9F], [CHR 0xE3, CHR 0x80, CHR 0x80]]"

definition trim_space :: "string \<Rightarrow> string" where
  "trim_space s = rev (strip_words (map rev space_words) (rev (strip_words space_words s)))"

definition trim_left :: "string \<Rightarrow> string \<Rightarrow> string" where
  "trim_left cutset s = dropWhile (\<lambda>c. c \<in> set cutset) s"

definition trim_right :: "string \<Rightarrow> string \<Rightarrow> string" where
  "trim_right cutset s = rev (dropWhile (\<lambda>c. c \<in> set cutset) (rev s))"

definition trim_chars :: "string \<Rightarrow> string \<Rightarrow> string" where
  "trim_chars cutset s = trim_right cutset (trim_left cutset s)"

lemma strip_words_suffix: "\<exists>p. s = p @ strip_words ws s"
proof (induction ws s rule: strip_words.induct)
  case (1 ws s)
  show ?case
  proof (cases "find (\<lambda>w. w \<noteq> [] \<and> has_prefix s w) ws")
    case None
    then show ?thesis by (subst strip_words.simps) simp
  next
    case (Some w)
    then have "has_prefix s w" by (auto simp: find_Some_iff)
    then obtain t where t: "s = w @ t" by (auto simp: has_prefix_iff)
    from 1 [OF Some] t obtain p where "t = p @ strip_words ws t" by auto
    with Some t show ?thesis
      by (subst strip_words.simps) (auto intro: exI [of _ "w @ p"])
  qed
qed

lemma strip_words_done: "find (\<lambda>w. w \<noteq> [] \<and> has_prefix (strip_words ws s) w) ws = None"
proof (induction ws s rule: strip_words.induct)
  case (1 ws s)
  show ?case
  proof (cases "find (\<lambda>w. w \<noteq> [] \<and> has_prefix s w) ws")
    case None
    then show ?thesis by (simp add: strip_words.simps [of ws s])
  next
    case (Some w)
    with 1 [OF Some] show ?thesis by (simp add: strip_words.simps [of ws s])
  qed
qed

lemma strip_words_idem [simp]: "strip_words ws (strip_words ws s) = strip_words ws s"
  using strip_words_done [of ws s] by (simp add: strip_words.simps [of ws "strip_words ws s"])

text \<open>A string whose first and last bytes are printable ASCII is already trimmed.\<close>

lemma strip_words_printable:
  assumes "\<And>w. w \<in> set ws \<Longrightarrow> w = [] \<or> hd w \<noteq> c"
  shows "strip_words ws (c # s) = c # s"
proof -
  have "\<not> (w \<noteq> [] \<and> has_prefix (c # s) w)" if "w \<in> set ws" for w
    using assms [OF that] by (cases w) (auto simp: has_prefix_iff)
  then have "find (\<lambda>w. w \<noteq> [] \<and> has_prefix (c # s) w) ws = None"
    by (auto simp: find_None_iff)
  then show ?thesis by (simp add: strip_words.simps)
qed

lemma strip_words_Nil [simp]: "strip_words ws [] = []"
  using strip_words_suffix [of "[]" ws] by simp

lemma trim_space_Nil [simp]: "trim_space [] = []"
  by (simp add: trim_space_def)

section \<open>Case folding\<close>

definition lower_char :: "char \<Rightarrow> char" where
  "lower_char c = (if 65 \<le> (of_char c :: nat) \<and> (of_char c :: nat) \<le> 90
                   then char_of ((of_char c :: nat) + 32) else c)"

definition to_lower :: "string \<Rightarrow> string" where
  "to_lower s = map lower_char s"

lemma lower_char_idem [simp]: "lower_char (lower_char c) = lower_char c"
  by (simp add: lower_char_def)

lemma to_lower_idem [simp]: "to_lower (to_lower s) = to_lower s"
  by (simp add: to_lower_def o_def)

lemma length_to_lower [simp]: "length (to_lower s) = length s"
  by (simp add: to_lower_def)

section \<open>Decimal numbers\<close>

fun digits :: "nat \<Rightarrow> string" where
  "digits n = (if n < 10 then [char_of (48 + n)] else digits (n div 10) @ [char_of (48 + n mod 10)])"

declare digits.simps [simp del]

definition itoa :: "int \<Rightarrow> string" where
  "itoa i = (if i < 0 then CHR ''-'' # digits (nat (- i)) else digits (nat i))"

definition is_digit :: "char \<Rightarrow> bool" where
  "is_digit c \<longleftrightarrow> 48 \<le> (of_char c :: nat) \<and> (of_char c :: nat) \<le> 57"

definition digits_value :: "string \<Rightarrow> nat" where
  "digits_value s = foldl (\<lambda>n c. 10 * n + ((of_char c :: nat) - 48)) 0 s"

text \<open>\<open>strconv.ParseInt(s, 10, 64)\<close> and \<open>strconv.Atoi(s)\<close>: an optional sign, at least one digit,
  nothing else, and a value in range; \<open>None\<close> is the error.\<close>

definition parse_int :: "string \<Rightarrow> int option" where
  "parse_int s =
     (let neg = (case s of c # _ \<Rightarrow> c = CHR ''-'' | [] \<Rightarrow> False);
          body = (case s of c # t \<Rightarrow> (if c = CHR ''-'' \<or> c = CHR ''+'' then t else s) | [] \<Rightarrow> []);
          v = (if neg then - int (digits_value body) else int (digits_value body))
      in if body = [] \<or> \<not> list_all is_digit body then None
         else if is_i64 v then Some v else None)"

lemma digits_nonempty: "digits n \<noteq> []"
  by (subst digits.simps) simp

lemma digits_all: "list_all is_digit (digits n)"
proof (induction n rule: digits.induct)
  case (1 n)
  have "n mod 10 < 10" by simp
  then have "is_digit (char_of (48 + n mod 10))" by (simp add: is_digit_def)
  moreover have "n < 10 \<Longrightarrow> is_digit (char_of (48 + n))" by (simp add: is_digit_def)
  ultimately show ?case
    using 1 by (cases "n < 10") (simp_all add: digits.simps [of n])
qed

lemma digits_value_snoc:
  "digits_value (s @ [c]) = 10 * digits_value s + ((of_char c :: nat) - 48)"
  by (simp add: digits_value_def)

lemma digits_value_digits: "digits_value (digits n) = n"
proof (induction n rule: digits.induct)
  case (1 n)
  show ?case
  proof (cases "n < 10")
    case True
    then show ?thesis
      by (subst digits.simps) (simp add: digits_value_def)
  next
    case False
    with 1 show ?thesis
      by (subst digits.simps) (simp add: digits_value_snoc)
  qed
qed

lemma is_digit_not_sign: "is_digit c \<Longrightarrow> c \<noteq> CHR ''-'' \<and> c \<noteq> CHR ''+''"
  by (auto simp: is_digit_def)

lemma digits_hd: "\<exists>c t. digits n = c # t \<and> is_digit c"
  using digits_nonempty [of n] digits_all [of n] by (cases "digits n") auto

lemma parse_int_digits:
  assumes "is_i64 (int n)"
  shows "parse_int (digits n) = Some (int n)"
proof -
  obtain c t where d: "digits n = c # t" and c: "is_digit c"
    using digits_hd by blast
  from is_digit_not_sign [OF c] show ?thesis
    using digits_all [of n] digits_value_digits [of n] assms
    by (simp add: parse_int_def d)
qed

lemma parse_int_itoa: "is_i64 i \<Longrightarrow> parse_int (itoa i) = Some i"
proof (cases "i < 0")
  case True
  assume "is_i64 i"
  with True show ?thesis
    using digits_all [of "nat (- i)"] digits_nonempty [of "nat (- i)"]
    by (simp add: itoa_def parse_int_def digits_value_digits)
next
  case False
  assume "is_i64 i"
  with False show ?thesis
    by (simp add: itoa_def parse_int_digits)
qed

lemma digits_inj: "digits m = digits n \<Longrightarrow> m = n"
  by (metis digits_value_digits)

lemma itoa_inj: "itoa i = itoa j \<Longrightarrow> i = j"
proof -
  assume eq: "itoa i = itoa j"
  have "\<And>n t. digits n \<noteq> CHR ''-'' # t"
    by (metis digits_hd is_digit_not_sign list.inject)
  with eq show "i = j"
    by (auto simp: itoa_def dest!: digits_inj split: if_splits) (metis eq_nat_nat_iff linorder_not_less)+
qed

end
