(* ===== verification/Job_Model.thy ===== *)
theory Job_Model
  imports Go_Strings
begin

text \<open>
  The data of package \<open>internal/job\<close> (\<open>models.go\<close>, \<open>clone.go\<close>, \<open>cache.go\<close>, \<open>response.go\<close>):
  options, records, responses, the normalisation behind the cache key and the mapping of a record
  to the response the API and the event stream send.
\<close>

section \<open>Data\<close>

datatype status = Queued | Running | Done | Failed

fun status_text :: "status \<Rightarrow> string" where
  "status_text Queued = ''queued''"
| "status_text Running = ''running''"
| "status_text Done = ''done''"
| "status_text Failed = ''failed''"

text \<open>The dynamic value \<open>Options.Subtitles\<close> decodes to.\<close>

datatype json =
    JNull
  | JBool bool
  | JNum string
  | JStr string
  | JArr "json list"
  | JObj "(string \<times> json) list"

record options =
  opt_mode :: string
  opt_quality :: string
  opt_format :: string
  opt_container :: string
  opt_audio_passthrough :: bool
  opt_video_itag :: string
  opt_audio_itag :: string
  opt_height :: "int option"
  opt_fps :: "int option"
  opt_video_codec :: string
  opt_audio_codec :: string
  opt_bitrate :: "int option"
  opt_allow_quality_fallback :: bool
  opt_sponsor_block :: bool
  opt_sponsor_block_categories :: "string list"
  opt_thumbnail_only :: bool
  opt_subtitles :: json

record resolved_output =
  res_video_itag :: string
  res_audio_itag :: string
  res_height :: int
  res_fps :: int
  res_video_codec :: string
  res_audio_codec :: string
  res_container :: string
  res_file_name :: string

record progress =
  pg_stage :: string
  pg_downloaded :: int
  pg_total :: int
  pg_speed :: int

text \<open>\<open>Cancel\<close> is the identity of the context the function cancels.\<close>

record job_record =
  job_id :: string
  cache_key :: string
  job_url :: string
  authorization :: string
  job_options :: options
  job_status :: status
  job_title :: string
  job_error :: "string option"
  error_code :: "string option"
  artifact :: string
  expires_at :: "time option"
  storage_backend :: string
  resolved :: "resolved_output option"
  job_progress :: progress
  queued_at :: time
  started_at :: "time option"
  finished_at :: "time option"
  download_ms :: "int option"
  mux_ms :: "int option"
  total_ms :: "int option"
  cancel_fn :: "nat option"

record response =
  rsp_id :: string
  rsp_url :: string
  rsp_status :: status
  rsp_duration_ms :: int
  rsp_title :: string
  rsp_error :: "string option"
  rsp_error_code :: "string option"
  rsp_artifact_url :: "string option"
  rsp_artifact_expires_at :: "string option"
  rsp_resolved :: "resolved_output option"
  rsp_progress_percent :: "int option"
  rsp_downloaded_bytes :: "int option"
  rsp_total_bytes :: "int option"
  rsp_eta_seconds :: "int option"
  rsp_speed :: "int option"
  rsp_stage :: "string option"
  rsp_queued_at :: "string option"
  rsp_started_at :: "string option"
  rsp_finished_at :: "string option"
  rsp_queue_wait_ms :: "int option"
  rsp_run_time_ms :: "int option"
  rsp_token_fetch_ms :: "int option"
  rsp_ytdlp_ms :: "int option"
  rsp_upload_ms :: "int option"
  rsp_download_ms :: "int option"
  rsp_mux_ms :: "int option"
  rsp_total_ms :: "int option"

text \<open>Go's zero values.\<close>

definition zero_progress :: progress where
  "zero_progress = \<lparr>pg_stage = [], pg_downloaded = 0, pg_total = 0, pg_speed = 0\<rparr>"

definition zero_response :: response where
  "zero_response =
     \<lparr>rsp_id = [], rsp_url = [], rsp_status = Failed, rsp_duration_ms = 0, rsp_title = [],
      rsp_error = None, rsp_error_code = None, rsp_artifact_url = None,
      rsp_artifact_expires_at = None, rsp_resolved = None, rsp_progress_percent = None,
      rsp_downloaded_bytes = None, rsp_total_bytes = None, rsp_eta_seconds = None,
      rsp_speed = None, rsp_stage = None, rsp_queued_at = None, rsp_started_at = None,
      rsp_finished_at = None, rsp_queue_wait_ms = None, rsp_run_time_ms = None,
      rsp_token_fetch_ms = None, rsp_ytdlp_ms = None, rsp_upload_ms = None,
      rsp_download_ms = None, rsp_mux_ms = None, rsp_total_ms = None\<rparr>"

section \<open>Copies\<close>

text \<open>A pointer is an \<open>option\<close>; copying what it points to gives a pointer to an equal value.\<close>

definition clone_ptr :: "'a option \<Rightarrow> 'a option" where
  "clone_ptr p = (case p of None \<Rightarrow> None | Some v \<Rightarrow> Some v)"

definition clone_record :: "job_record \<Rightarrow> job_record" where
  "clone_record r =
     r\<lparr>job_error := clone_ptr (job_error r), error_code := clone_ptr (error_code r),
       started_at := clone_ptr (started_at r), finished_at := clone_ptr (finished_at r),
       expires_at := clone_ptr (expires_at r), download_ms := clone_ptr (download_ms r),
       mux_ms := clone_ptr (mux_ms r), total_ms := clone_ptr (total_ms r),
       resolved := (if resolved r \<noteq> None then clone_ptr (resolved r) else resolved r)\<rparr>"

lemma clone_ptr_id [simp]: "clone_ptr p = p"
  by (simp add: clone_ptr_def split: option.split)

lemma clone_record_id [simp]: "clone_record r = r"
  by (simp add: clone_record_def)

section \<open>Cache key\<close>

text \<open>
  \<open>normalizeOptions\<close> receives a copy of the options, but the copy shares the categories' backing
  array: the trimmed categories are visible to the caller (\<open>trim_categories\<close>).
\<close>

definition trim_categories :: "options \<Rightarrow> options" where
  "trim_categories opts =
     opts\<lparr>opt_sponsor_block_categories := map trim_space (opt_sponsor_block_categories opts)\<rparr>"

definition normalize_options :: "options \<Rightarrow> options" where
  "normalize_options opts = trim_categories
     (opts\<lparr>opt_mode := trim_space (opt_mode opts),
           opt_quality := trim_space (opt_quality opts),
           opt_format := trim_space (opt_format opts),
           opt_container := trim_space (to_lower (opt_container opts)),
           opt_video_codec := trim_space (to_lower (opt_video_codec opts)),
           opt_audio_codec := trim_space (to_lower (opt_audio_codec opts)),
           opt_video_itag := trim_space (opt_video_itag opts),
           opt_audio_itag := trim_space (opt_audio_itag opts)\<rparr>)"

record cache_input =
  ci_url :: string
  ci_options :: options
  ci_authorization :: string

text \<open>
  \<open>digest\<close> is \<open>hex(sha256(json.Marshal(input)))\<close>, or the marshalling error. The second component
  of the result is the caller's options after the call.
\<close>

definition cache_key_of ::
  "(cache_input \<Rightarrow> string result) \<Rightarrow> string \<Rightarrow> options \<Rightarrow> string \<Rightarrow> string result \<times> options" where
  "cache_key_of digest raw_url opts auth =
     (digest \<lparr>ci_url = trim_space raw_url, ci_options = normalize_options opts,
              ci_authorization = trim_space auth\<rparr>,
      trim_categories opts)"

section \<open>Responses\<close>

definition apply_progress :: "response \<Rightarrow> progress \<Rightarrow> response" where
  "apply_progress resp p =
     (let r1 = (if pg_stage p \<noteq> [] then resp\<lparr>rsp_stage := Some (pg_stage p)\<rparr> else resp);
          r2 = (if pg_total p > 0
                then r1\<lparr>rsp_progress_percent :=
                          Some (go_div (mul64 (pg_downloaded p) 100) (pg_total p)),
                        rsp_total_bytes := Some (pg_total p),
                        rsp_downloaded_bytes := Some (pg_downloaded p)\<rparr>
                else r1)
      in if pg_speed p > 0 then r2\<lparr>rsp_speed := Some (pg_speed p)\<rparr> else r2)"

text \<open>\<open>fmt\<close> is \<open>value.UTC().Format(time.RFC3339Nano)\<close>; \<open>now\<close> is the clock at the call.\<close>

definition to_response :: "(time \<Rightarrow> string) \<Rightarrow> string \<Rightarrow> time \<Rightarrow> job_record \<Rightarrow> response" where
  "to_response fmt base now r =
     (let r0 = zero_response
            \<lparr>rsp_id := job_id r, rsp_url := job_url r, rsp_status := job_status r,
             rsp_title := job_title r, rsp_error := clone_ptr (job_error r),
             rsp_error_code := clone_ptr (error_code r), rsp_resolved := clone_ptr (resolved r),
             rsp_queued_at := Some (fmt (queued_at r)),
             rsp_started_at := map_option fmt (started_at r),
             rsp_finished_at := map_option fmt (finished_at r),
             rsp_download_ms := clone_ptr (download_ms r), rsp_mux_ms := clone_ptr (mux_ms r),
             rsp_total_ms := clone_ptr (total_ms r)\<rparr>;
          r1 = (if artifact r \<noteq> []
                then r0\<lparr>rsp_artifact_url := Some (base @ ''/jobs/'' @ job_id r @ ''/artifact'')\<rparr>
                else r0);
          r2 = r1\<lparr>rsp_artifact_expires_at := map_option fmt (expires_at r)\<rparr>;
          r3 = (case started_at r of
                  None \<Rightarrow> r2
                | Some st \<Rightarrow>
                    (let fin = (case finished_at r of None \<Rightarrow> now | Some f \<Rightarrow> f)
                     in r2\<lparr>rsp_queue_wait_ms := Some (milliseconds (sub_time st (queued_at r))),
                           rsp_run_time_ms := Some (milliseconds (sub_time fin st))\<rparr>))
      in apply_progress r3 (job_progress r))"

lemma apply_progress_frame [simp]:
  "rsp_id (apply_progress resp p) = rsp_id resp"
  "rsp_status (apply_progress resp p) = rsp_status resp"
  "rsp_error_code (apply_progress resp p) = rsp_error_code resp"
  "rsp_artifact_url (apply_progress resp p) = rsp_artifact_url resp"
  by (simp_all add: apply_progress_def Let_def)

lemma to_response_basic [simp]:
  "rsp_id (to_response fmt base now r) = job_id r"
  "rsp_status (to_response fmt base now r) = job_status r"
  "rsp_error_code (to_response fmt base now r) = error_code r"
  by (simp_all add: to_response_def Let_def split: option.split)

lemma to_response_percent:
  "rsp_progress_percent (to_response fmt base now r) =
     (if pg_total (job_progress r) > 0
      then Some (go_div (mul64 (pg_downloaded (job_progress r)) 100) (pg_total (job_progress r)))
      else None)"
  by (simp add: to_response_def apply_progress_def zero_response_def Let_def split: option.split)

lemma percent_bounds:
  assumes "0 \<le> d" and "d \<le> t" and "0 < t" and "100 * t \<le> max_i64"
  shows "0 \<le> go_div (mul64 d 100) t \<and> go_div (mul64 d 100) t \<le> 100
    \<and> (go_div (mul64 d 100) t = 100 \<longleftrightarrow> d = t)"
proof -
  have "100 * d \<le> 100 * t" using assms by simp
  with assms have m: "mul64 d 100 = 100 * d"
    by (simp add: i64_arith max_i64_def mult.commute)
  have g: "go_div (mul64 d 100) t = 100 * d div t"
    using assms by (simp add: m go_div_nonneg)
  have ub: "100 * d div t \<le> 100"
    using assms \<open>100 * d \<le> 100 * t\<close> by (metis zdiv_mono1 nonzero_mult_div_cancel_right less_irrefl)
  have "100 * d div t = 100 \<longleftrightarrow> d = t"
  proof
    assume "100 * d div t = 100"
    then have "100 * t \<le> 100 * d"
      using assms by (metis div_mult_mod_eq le_add_same_cancel1 pos_mod_sign mult.commute)
    with assms show "d = t" by simp
  next
    assume "d = t"
    with assms show "100 * d div t = 100" by simp
  qed
  with g ub assms show ?thesis
    by (simp add: pos_imp_zdiv_nonneg_iff)
qed

end
