(* ===== verification/Job_Store.thy ===== *)
theory Job_Store
  imports Job_Model
begin

text \<open>
  Package \<open>internal/job\<close>, the in-memory job store: \<open>store.go\<close>, \<open>store_events.go\<close>,
  \<open>store_expiry.go\<close> and \<open>response.go\<close>. An operation of the store is a sequence of critical
  sections under \<open>Store.mu\<close> (the \<open>_locked\<close> definitions, broadcast) and of calls of the sinks
  (\<open>notify\<close>), composed here in the order of the code; \<open>Job_Interleaving\<close> lets the sections of
  several goroutines interleave.
\<close>

section \<open>State\<close>

text \<open>
  A channel is a number; its buffer holds 16 responses. \<open>panicked\<close> records a send on, or a close
  of, a closed channel. \<open>saves\<close> logs the calls \<open>sink.SaveJob(record)\<close>, with the sink's index.
\<close>

record store =
  base_url :: string
  jobs :: "string \<Rightarrow> job_record option"
  cache :: "string \<Rightarrow> string option"
  listeners :: "string \<Rightarrow> nat list option"
  chan_buf :: "nat \<Rightarrow> response list"
  chan_open :: "nat \<Rightarrow> bool"
  next_chan :: nat
  panicked :: bool
  sink_count :: nat
  saves :: "(nat \<times> job_record) list"

definition new_store :: "string \<Rightarrow> nat \<Rightarrow> store" where
  "new_store base sinks =
     \<lparr>base_url = base, jobs = Map.empty, cache = Map.empty, listeners = Map.empty,
      chan_buf = (\<lambda>_. []), chan_open = (\<lambda>_. False), next_chan = 0, panicked = False,
      sink_count = sinks, saves = []\<rparr>"

section \<open>Responses, broadcast, notify, update\<close>

definition response_locked :: "(time \<Rightarrow> string) \<Rightarrow> time \<Rightarrow> string \<Rightarrow> store \<Rightarrow> response" where
  "response_locked fmt now i s =
     (case jobs s i of
        None \<Rightarrow> zero_response\<lparr>rsp_id := i, rsp_status := Failed\<rparr>
      | Some r \<Rightarrow> to_response fmt (base_url s) now r)"

definition chan_capacity :: nat where
  "chan_capacity = 16"

definition listeners_of :: "store \<Rightarrow> string \<Rightarrow> nat list" where
  "listeners_of s i = (case listeners s i of None \<Rightarrow> [] | Some cs \<Rightarrow> cs)"

text \<open>The non-blocking send of the \<open>select\<close> with a \<open>default\<close>: a full buffer drops the response.\<close>

definition try_send :: "nat \<Rightarrow> response \<Rightarrow> store \<Rightarrow> store" where
  "try_send c resp s =
     (if \<not> chan_open s c then s\<lparr>panicked := True\<rparr>
      else if length (chan_buf s c) < chan_capacity
        then s\<lparr>chan_buf := (chan_buf s)(c := chan_buf s c @ [resp])\<rparr>
        else s)"

definition broadcast :: "(time \<Rightarrow> string) \<Rightarrow> time \<Rightarrow> string \<Rightarrow> store \<Rightarrow> store" where
  "broadcast fmt now i s =
     (let resp = response_locked fmt now i s
      in foldl (\<lambda>s' c. try_send c resp s') s (listeners_of s i))"

definition notify :: "job_record \<Rightarrow> store \<Rightarrow> store" where
  "notify r s = s\<lparr>saves := saves s @ map (\<lambda>k. (k, clone_record r)) [0..<sink_count s]\<rparr>"

definition update_locked ::
  "string \<Rightarrow> (job_record \<Rightarrow> job_record) \<Rightarrow> store \<Rightarrow> store \<times> job_record option" where
  "update_locked i mutate s =
     (case jobs s i of
        None \<Rightarrow> (s, None)
      | Some r \<Rightarrow> (s\<lparr>jobs := (jobs s)(i \<mapsto> mutate r)\<rparr>, Some (clone_record (mutate r))))"

definition update ::
  "(time \<Rightarrow> string) \<Rightarrow> time \<Rightarrow> string \<Rightarrow> (job_record \<Rightarrow> job_record) \<Rightarrow> store \<Rightarrow> store \<times> bool" where
  "update fmt now i mutate s =
     (case update_locked i mutate s of
        (s1, None) \<Rightarrow> (s1, False)
      | (s1, Some snapshot) \<Rightarrow> (notify snapshot (broadcast fmt now i s1), True))"

section \<open>Restoring after a restart\<close>

definition restore_one :: "store \<Rightarrow> job_record option \<Rightarrow> store" where
  "restore_one s rec =
     (case rec of
        None \<Rightarrow> s
      | Some r \<Rightarrow>
          if job_id r = [] then s
          else let restored = (clone_record r)\<lparr>cancel_fn := None\<rparr>;
                   s1 = s\<lparr>jobs := (jobs s)(job_id restored \<mapsto> restored)\<rparr>
               in if cache_key restored \<noteq> [] \<and> job_status restored = Done
                  then s1\<lparr>cache := (cache s1)(cache_key restored \<mapsto> job_id restored)\<rparr>
                  else s1)"

definition restore :: "job_record option list \<Rightarrow> store \<Rightarrow> store" where
  "restore recs s = foldl restore_one s recs"

definition requeued :: "job_record \<Rightarrow> job_record" where
  "requeued r = (clone_record r)
     \<lparr>job_status := Queued, cancel_fn := None, started_at := None, finished_at := None,
      job_error := None, error_code := None,
      job_progress := zero_progress\<lparr>pg_stage := ''queued''\<rparr>\<rparr>"

fun restore_pending :: "job_record option list \<Rightarrow> store \<Rightarrow> store \<times> string list" where
  "restore_pending [] s = (s, [])"
| "restore_pending (None # recs) s = restore_pending recs s"
| "restore_pending (Some r # recs) s =
     (if job_id r = [] then restore_pending recs s
      else let restored = requeued r;
               (s', ids) = restore_pending recs
                 (s\<lparr>jobs := (jobs s)(job_id restored \<mapsto> restored)\<rparr>)
           in (s', job_id restored # ids))"

section \<open>Create\<close>

definition artifact_expired :: "job_record \<Rightarrow> time \<Rightarrow> bool" where
  "artifact_expired r now =
     (case expires_at r of None \<Rightarrow> False | Some t \<Rightarrow> \<not> after t now)"

definition remove_job :: "string \<Rightarrow> store \<Rightarrow> store" where
  "remove_job i s = s\<lparr>jobs := (jobs s)(i := None)\<rparr>"

definition remove_cache :: "string \<Rightarrow> store \<Rightarrow> store" where
  "remove_cache k s = s\<lparr>cache := (cache s)(k := None)\<rparr>"

definition new_record ::
  "string \<Rightarrow> string \<Rightarrow> string \<Rightarrow> string \<Rightarrow> options \<Rightarrow> time \<Rightarrow> job_record" where
  "new_record i key raw_url auth opts now =
     \<lparr>job_id = i, cache_key = key, job_url = raw_url, authorization = auth, job_options = opts,
      job_status = Queued, job_title = [], job_error = None, error_code = None, artifact = [],
      expires_at = None, storage_backend = [], resolved = None, job_progress = zero_progress,
      queued_at = now, started_at = None, finished_at = None, download_ms = None,
      mux_ms = None, total_ms = None, cancel_fn = None\<rparr>"

text \<open>What the critical section of \<open>Create\<close> decides: serve an existing job, or a new one, with
  the identity of the expired job it removed.\<close>

datatype create_outcome = Existing job_record | Created "string option"

definition create_locked :: "time \<Rightarrow> job_record \<Rightarrow> store \<Rightarrow> store \<times> create_outcome" where
  "create_locked now rec s =
     (let key = cache_key rec;
          insert = (\<lambda>s'. s'\<lparr>jobs := (jobs s')(job_id rec \<mapsto> rec),
                            cache := (cache s')(key \<mapsto> job_id rec)\<rparr>);
          fresh = (insert s, Created None)
      in case cache s key of
           None \<Rightarrow> fresh
         | Some existing_id \<Rightarrow>
             (case (if existing_id = [] then None else jobs s existing_id) of
                None \<Rightarrow> fresh
              | Some existing \<Rightarrow>
                  if job_status existing = Failed then fresh
                  else if \<not> artifact_expired existing now
                    then (s, Existing (clone_record existing))
                    else (insert (remove_cache key (remove_job existing_id s)),
                          Created (Some existing_id))))"

text \<open>
  \<open>new_id\<close> is what \<open>newID\<close> returns. The result is the error, or the record, the cached flag and the
  created flag. \<open>t_queued\<close>, \<open>t_check\<close> and \<open>t_bc\<close> are the readings of the clock.
\<close>

definition create ::
  "(cache_input \<Rightarrow> string result) \<Rightarrow> (time \<Rightarrow> string) \<Rightarrow> time \<Rightarrow> time \<Rightarrow> time \<Rightarrow> string result
   \<Rightarrow> string \<Rightarrow> options \<Rightarrow> string \<Rightarrow> store \<Rightarrow> store \<times> (job_record \<times> bool \<times> bool) result" where
  "create digest fmt t_queued t_check t_bc new_id raw_url opts auth s =
     (case cache_key_of digest raw_url opts auth of
        (Inl e, opts') \<Rightarrow> (s, Inl e)
      | (Inr key, opts') \<Rightarrow>
          (case new_id of
             Inl e \<Rightarrow> (s, Inl e)
           | Inr i \<Rightarrow>
               (let rec = new_record i key raw_url auth opts' t_queued
                in case create_locked t_check rec s of
                     (s1, Existing r) \<Rightarrow> (s1, Inr (r, job_status r = Done, False))
                   | (s1, Created expired) \<Rightarrow>
                       (let s2 = (case expired of None \<Rightarrow> s1 | Some x \<Rightarrow> broadcast fmt t_bc x s1)
                        in (notify rec (broadcast fmt t_bc i s2), Inr (clone_record rec, False, True))))))"

section \<open>Reading\<close>

definition get_job :: "string \<Rightarrow> store \<Rightarrow> job_record option" where
  "get_job i s = (case jobs s i of None \<Rightarrow> None | Some r \<Rightarrow> Some (clone_record r))"

definition response_of :: "(time \<Rightarrow> string) \<Rightarrow> time \<Rightarrow> string \<Rightarrow> store \<Rightarrow> response option" where
  "response_of fmt now i s =
     (case jobs s i of None \<Rightarrow> None | Some r \<Rightarrow> Some (to_response fmt (base_url s) now r))"

section \<open>The life of a job\<close>

definition start_job :: "time \<Rightarrow> nat \<Rightarrow> job_record \<Rightarrow> job_record" where
  "start_job now cancel r =
     r\<lparr>job_status := Running, started_at := Some now, cancel_fn := Some cancel,
       job_progress := (job_progress r)\<lparr>pg_stage := ''extract''\<rparr>\<rparr>"

definition resolve_job :: "string \<Rightarrow> resolved_output \<Rightarrow> job_record \<Rightarrow> job_record" where
  "resolve_job title res r = r\<lparr>job_title := title, resolved := Some res\<rparr>"

definition done_job ::
  "time \<Rightarrow> string \<Rightarrow> string \<Rightarrow> time option \<Rightarrow> int \<Rightarrow> int \<Rightarrow> job_record \<Rightarrow> job_record" where
  "done_job now art backend expires dl_ms mx_ms r =
     (let r1 = r\<lparr>job_status := Done, artifact := art, storage_backend := backend,
                 expires_at := expires, finished_at := Some now, download_ms := Some dl_ms,
                 mux_ms := Some mx_ms\<rparr>;
          total = (case started_at r1 of None \<Rightarrow> 0 | Some st \<Rightarrow> milliseconds (sub_time now st));
          r2 = (if started_at r1 \<noteq> None
                then r1\<lparr>job_progress := (job_progress r1)\<lparr>pg_stage := ''done''\<rparr>\<rparr> else r1)
      in r2\<lparr>cancel_fn := None,
            job_progress := (job_progress r2)\<lparr>pg_downloaded := pg_total (job_progress r2)\<rparr>,
            total_ms := Some total\<rparr>)"

definition fail_job :: "time \<Rightarrow> string \<Rightarrow> string \<Rightarrow> job_record \<Rightarrow> job_record" where
  "fail_job now code message r =
     r\<lparr>job_status := Failed, job_error := Some message, error_code := Some code,
       finished_at := Some now, cancel_fn := None\<rparr>"

definition cancel_job :: "time \<Rightarrow> job_record \<Rightarrow> job_record" where
  "cancel_job now r =
     (if job_status r = Queued
      then r\<lparr>job_status := Failed, job_error := Some ''job cancelled'',
             error_code := Some ''cancelled'', finished_at := Some now\<rparr>
      else r)"

definition start :: "(time \<Rightarrow> string) \<Rightarrow> time \<Rightarrow> time \<Rightarrow> string \<Rightarrow> nat \<Rightarrow> store \<Rightarrow> store \<times> bool" where
  "start fmt now t_bc i cancel s = update fmt t_bc i (start_job now cancel) s"

definition set_progress :: "(time \<Rightarrow> string) \<Rightarrow> time \<Rightarrow> string \<Rightarrow> progress \<Rightarrow> store \<Rightarrow> store" where
  "set_progress fmt t_bc i p s = fst (update fmt t_bc i (\<lambda>r. r\<lparr>job_progress := p\<rparr>) s)"

definition resolve ::
  "(time \<Rightarrow> string) \<Rightarrow> time \<Rightarrow> string \<Rightarrow> string \<Rightarrow> resolved_output \<Rightarrow> store \<Rightarrow> store" where
  "resolve fmt t_bc i title res s = fst (update fmt t_bc i (resolve_job title res) s)"

definition finish_done ::
  "(time \<Rightarrow> string) \<Rightarrow> time \<Rightarrow> time \<Rightarrow> string \<Rightarrow> string \<Rightarrow> string \<Rightarrow> time option \<Rightarrow> int \<Rightarrow> int
   \<Rightarrow> store \<Rightarrow> store" where
  "finish_done fmt now t_bc i art backend expires dl_ms mx_ms s =
     fst (update fmt t_bc i (done_job now art backend expires dl_ms mx_ms) s)"

definition fail ::
  "(time \<Rightarrow> string) \<Rightarrow> time \<Rightarrow> time \<Rightarrow> string \<Rightarrow> string \<Rightarrow> error \<Rightarrow> store \<Rightarrow> store" where
  "fail fmt now t_bc i code err s = fst (update fmt t_bc i (fail_job now code (error_text err)) s)"

text \<open>The second result is the context whose cancel function \<open>Cancel\<close> calls.\<close>

definition cancel ::
  "(time \<Rightarrow> string) \<Rightarrow> time \<Rightarrow> time \<Rightarrow> string \<Rightarrow> store \<Rightarrow> store \<times> bool \<times> nat option" where
  "cancel fmt now t_bc i s =
     (let accepted = (case jobs s i of None \<Rightarrow> False
                      | Some r \<Rightarrow> job_status r = Queued \<or> job_status r = Running);
          fn = (case jobs s i of None \<Rightarrow> None
                | Some r \<Rightarrow> if job_status r = Running then cancel_fn r else None);
          (s', updated) = update fmt t_bc i (cancel_job now) s
      in (s', updated \<and> accepted, if updated \<and> accepted then fn else None))"

section \<open>Delete and expiry\<close>

definition forget :: "string \<Rightarrow> job_record \<Rightarrow> store \<Rightarrow> store" where
  "forget i r s =
     (let s1 = remove_job i s
      in if cache_key r \<noteq> [] \<and> cache s1 (cache_key r) = Some i
         then remove_cache (cache_key r) s1 else s1)"

definition delete_locked :: "string \<Rightarrow> store \<Rightarrow> store" where
  "delete_locked i s =
     (case jobs s i of
        None \<Rightarrow> s
      | Some r \<Rightarrow> if job_status r \<noteq> Running then forget i r s else s)"

text \<open>
  What follows the critical section of \<open>Delete\<close>. \<open>object\<close> is the record the section found, read
  again through its pointer: the code tests its status a second time, without the lock.
\<close>

definition delete_finish ::
  "(time \<Rightarrow> string) \<Rightarrow> time \<Rightarrow> string \<Rightarrow> job_record option \<Rightarrow> store \<Rightarrow> store \<times> job_record option"
where
  "delete_finish fmt t_bc i object s =
     (case object of
        None \<Rightarrow> (s, None)
      | Some r \<Rightarrow> if job_status r = Running then (s, None)
                 else (broadcast fmt t_bc i s, Some (clone_record r)))"

definition delete ::
  "(time \<Rightarrow> string) \<Rightarrow> time \<Rightarrow> string \<Rightarrow> store \<Rightarrow> store \<times> job_record option" where
  "delete fmt t_bc i s = delete_finish fmt t_bc i (jobs s i) (delete_locked i s)"

definition remove_expired_locked :: "string \<Rightarrow> string \<Rightarrow> time \<Rightarrow> store \<Rightarrow> store \<times> bool" where
  "remove_expired_locked i location now s =
     (case jobs s i of
        None \<Rightarrow> (s, False)
      | Some r \<Rightarrow>
          if job_status r \<noteq> Done \<or> artifact r \<noteq> location \<or> \<not> artifact_expired r now
          then (s, False) else (forget i r s, True))"

definition remove_expired_artifact ::
  "(time \<Rightarrow> string) \<Rightarrow> time \<Rightarrow> string \<Rightarrow> string \<Rightarrow> time \<Rightarrow> store \<Rightarrow> store \<times> bool" where
  "remove_expired_artifact fmt t_bc i location now s =
     (case remove_expired_locked i location now s of
        (s1, False) \<Rightarrow> (s1, False)
      | (s1, True) \<Rightarrow> (broadcast fmt t_bc i s1, True))"

section \<open>Subscriptions\<close>

definition subscribe_locked ::
  "(time \<Rightarrow> string) \<Rightarrow> time \<Rightarrow> string \<Rightarrow> store \<Rightarrow> store \<times> (nat \<times> response) option" where
  "subscribe_locked fmt now i s =
     (case jobs s i of
        None \<Rightarrow> (s, None)
      | Some _ \<Rightarrow>
          (let c = next_chan s;
               s1 = s\<lparr>next_chan := Suc c, chan_open := (chan_open s)(c := True),
                      chan_buf := (chan_buf s)(c := []),
                      listeners := (listeners s)(i \<mapsto> c # listeners_of s i)\<rparr>
           in (s1, Some (c, response_locked fmt now i s1))))"

text \<open>\<open>ch <- initial\<close> after the lock is released: \<open>None\<close> while it blocks on a full buffer.\<close>

definition subscribe_send :: "nat \<Rightarrow> response \<Rightarrow> store \<Rightarrow> store option" where
  "subscribe_send c initial s =
     (if chan_open s c \<and> \<not> length (chan_buf s c) < chan_capacity then None
      else Some (try_send c initial s))"

definition subscribe ::
  "(time \<Rightarrow> string) \<Rightarrow> time \<Rightarrow> string \<Rightarrow> store \<Rightarrow> (store \<times> nat option) option" where
  "subscribe fmt now i s =
     (case subscribe_locked fmt now i s of
        (s1, None) \<Rightarrow> Some (s1, None)
      | (s1, Some (c, initial)) \<Rightarrow>
          (case subscribe_send c initial s1 of None \<Rightarrow> None | Some s2 \<Rightarrow> Some (s2, Some c)))"

definition unsubscribe :: "string \<Rightarrow> nat \<Rightarrow> store \<Rightarrow> store" where
  "unsubscribe i c s =
     (let s1 = (case listeners s i of
                  None \<Rightarrow> s
                | Some cs \<Rightarrow>
                    (let cs' = filter (\<lambda>x. x \<noteq> c) cs
                     in s\<lparr>listeners := (listeners s)(i := (if cs' = [] then None else Some cs'))\<rparr>))
      in if chan_open s1 c then s1\<lparr>chan_open := (chan_open s1)(c := False)\<rparr>
         else s1\<lparr>panicked := True\<rparr>)"

definition receive :: "nat \<Rightarrow> store \<Rightarrow> (store \<times> response) option" where
  "receive c s =
     (case chan_buf s c of
        [] \<Rightarrow> None
      | resp # rest \<Rightarrow> Some (s\<lparr>chan_buf := (chan_buf s)(c := rest)\<rparr>, resp))"

section \<open>Frames\<close>

text \<open>What broadcasting and notifying leave alone, and what an update does to the job table.\<close>

lemma try_send_frame [simp]:
  "jobs (try_send c r s) = jobs s" "cache (try_send c r s) = cache s"
  "listeners (try_send c r s) = listeners s" "chan_open (try_send c r s) = chan_open s"
  "next_chan (try_send c r s) = next_chan s" "saves (try_send c r s) = saves s"
  "base_url (try_send c r s) = base_url s" "sink_count (try_send c r s) = sink_count s"
  by (simp_all add: try_send_def)

lemma foldl_send_frame [simp]:
  "jobs (foldl (\<lambda>s' c. try_send c r s') s cs) = jobs s"
  "cache (foldl (\<lambda>s' c. try_send c r s') s cs) = cache s"
  "listeners (foldl (\<lambda>s' c. try_send c r s') s cs) = listeners s"
  "chan_open (foldl (\<lambda>s' c. try_send c r s') s cs) = chan_open s"
  "next_chan (foldl (\<lambda>s' c. try_send c r s') s cs) = next_chan s"
  "saves (foldl (\<lambda>s' c. try_send c r s') s cs) = saves s"
  "base_url (foldl (\<lambda>s' c. try_send c r s') s cs) = base_url s"
  "sink_count (foldl (\<lambda>s' c. try_send c r s') s cs) = sink_count s"
  by (induction cs arbitrary: s) simp_all

lemma broadcast_frame [simp]:
  "jobs (broadcast fmt now i s) = jobs s" "cache (broadcast fmt now i s) = cache s"
  "listeners (broadcast fmt now i s) = listeners s"
  "chan_open (broadcast fmt now i s) = chan_open s"
  "next_chan (broadcast fmt now i s) = next_chan s" "saves (broadcast fmt now i s) = saves s"
  "base_url (broadcast fmt now i s) = base_url s"
  "sink_count (broadcast fmt now i s) = sink_count s"
  by (simp_all add: broadcast_def Let_def)

lemma notify_frame [simp]:
  "jobs (notify r s) = jobs s" "cache (notify r s) = cache s"
  "listeners (notify r s) = listeners s" "chan_open (notify r s) = chan_open s"
  "chan_buf (notify r s) = chan_buf s" "next_chan (notify r s) = next_chan s"
  "panicked (notify r s) = panicked s" "base_url (notify r s) = base_url s"
  "sink_count (notify r s) = sink_count s"
  by (simp_all add: notify_def)

lemma jobs_update_locked:
  "jobs (fst (update_locked i f s)) j = (if j = i then map_option f (jobs s i) else jobs s j)"
  by (simp add: update_locked_def split: option.split)

lemma jobs_update:
  "jobs (fst (update fmt now i f s)) j = (if j = i then map_option f (jobs s i) else jobs s j)"
  by (simp add: update_def update_locked_def split: option.split)

lemma snd_update: "snd (update fmt now i f s) = (jobs s i \<noteq> None)"
  by (simp add: update_def update_locked_def split: option.split)

lemma cache_update [simp]: "cache (fst (update fmt now i f s)) = cache s"
  by (simp add: update_def update_locked_def split: option.split)

lemma remove_frame [simp]:
  "jobs (remove_job i s) = (jobs s)(i := None)" "cache (remove_job i s) = cache s"
  "jobs (remove_cache k s) = jobs s" "cache (remove_cache k s) = (cache s)(k := None)"
  by (simp_all add: remove_job_def remove_cache_def)

lemma jobs_forget [simp]: "jobs (forget i r s) = (jobs s)(i := None)"
  by (simp add: forget_def Let_def)

lemma cache_forget:
  "cache (forget i r s) =
     (if cache_key r \<noteq> [] \<and> cache s (cache_key r) = Some i
      then (cache s)(cache_key r := None) else cache s)"
  by (simp add: forget_def Let_def)

section \<open>The table of jobs as an interface\<close>

text \<open>
  What the runner and the HTTP handlers rely on: an update changes one job, by its function, and
  creates none. A job's life is proved from this contract alone.
\<close>

locale job_table =
  fixes lookup :: "'s \<Rightarrow> string \<Rightarrow> job_record option"
    and modify :: "string \<Rightarrow> (job_record \<Rightarrow> job_record) \<Rightarrow> 's \<Rightarrow> 's"
  assumes lookup_modify:
    "lookup (modify i f s) j = (if j = i then map_option f (lookup s i) else lookup s j)"
begin

fun modify_all :: "string \<Rightarrow> (job_record \<Rightarrow> job_record) list \<Rightarrow> 's \<Rightarrow> 's" where
  "modify_all i [] s = s"
| "modify_all i (f # fs) s = modify_all i fs (modify i f s)"

lemma lookup_modify_all:
  "lookup (modify_all i fs s) j =
     (if j = i then map_option (\<lambda>r. foldl (\<lambda>r f. f r) r fs) (lookup s i) else lookup s j)"
  by (induction fs arbitrary: s) (auto simp: lookup_modify option.map_comp o_def option.map_ident)

lemma modify_absent: "lookup s i = None \<Longrightarrow> lookup (modify i f s) = lookup s"
  by (auto simp: lookup_modify)

lemma modify_present: "(lookup (modify i f s) j = None) = (lookup s j = None)"
  by (simp add: lookup_modify)

end

interpretation table: job_table jobs "\<lambda>i f s. fst (update fmt now i f s)" for fmt now
  by unfold_locales (rule jobs_update)

end
