(* ===== verification/Job_Interleaving.thy ===== *)
theory Job_Interleaving
  imports Job_Store
begin

text \<open>
  The store under concurrency. Each critical section of \<open>internal/job\<close> is one step; goroutines
  interleave at the boundaries of the sections, so a reachable store is what any sequence of
  sections leaves, from the store a restart builds. The consistency of the store is an invariant
  of all of them.
\<close>

section \<open>Consistency\<close>

text \<open>Jobs are filed under their identity, and a cache entry leads to a job with its key, which is
  never empty.\<close>

definition index_inv :: "store \<Rightarrow> bool" where
  "index_inv s \<longleftrightarrow>
     (\<forall>i r. jobs s i = Some r \<longrightarrow> job_id r = i \<and> i \<noteq> [])
     \<and> (\<forall>k i. cache s k = Some i \<longrightarrow> k \<noteq> [] \<and> (\<exists>r. jobs s i = Some r \<and> cache_key r = k))"

text \<open>Listeners are open channels, each listening to one job; buffers stay within their capacity.\<close>

definition chan_inv :: "store \<Rightarrow> bool" where
  "chan_inv s \<longleftrightarrow>
     (\<forall>i cs. listeners s i = Some cs \<longrightarrow> cs \<noteq> [] \<and> distinct cs)
     \<and> (\<forall>i c. c \<in> set (listeners_of s i) \<longrightarrow> chan_open s c)
     \<and> (\<forall>i j c. c \<in> set (listeners_of s i) \<longrightarrow> c \<in> set (listeners_of s j) \<longrightarrow> i = j)
     \<and> (\<forall>c. chan_open s c \<longrightarrow> c < next_chan s)
     \<and> (\<forall>c. length (chan_buf s c) \<le> chan_capacity)
     \<and> \<not> panicked s"

definition store_inv :: "store \<Rightarrow> bool" where
  "store_inv s \<longleftrightarrow> index_inv s \<and> chan_inv s"

lemma index_invI:
  assumes "\<And>i r. jobs s i = Some r \<Longrightarrow> job_id r = i \<and> i \<noteq> []"
    and "\<And>k i. cache s k = Some i \<Longrightarrow> k \<noteq> [] \<and> (\<exists>r. jobs s i = Some r \<and> cache_key r = k)"
  shows "index_inv s"
  using assms by (simp add: index_inv_def)

lemma index_inv_id: "index_inv s \<Longrightarrow> jobs s i = Some r \<Longrightarrow> job_id r = i \<and> i \<noteq> []"
  by (simp add: index_inv_def)

lemma index_inv_cache:
  "index_inv s \<Longrightarrow> cache s k = Some i \<Longrightarrow> k \<noteq> [] \<and> (\<exists>r. jobs s i = Some r \<and> cache_key r = k)"
  by (simp add: index_inv_def)

lemma index_inv_cong: "jobs s' = jobs s \<Longrightarrow> cache s' = cache s \<Longrightarrow> index_inv s' = index_inv s"
  by (simp add: index_inv_def)

lemma listeners_of_cong: "listeners s' = listeners s \<Longrightarrow> listeners_of s' i = listeners_of s i"
  by (simp add: listeners_of_def)

section \<open>The sections\<close>

text \<open>The mutations the store applies under the lock.\<close>

inductive job_mutation :: "(job_record \<Rightarrow> job_record) \<Rightarrow> bool" where
  m_start: "job_mutation (start_job now c)"
| m_progress: "job_mutation (\<lambda>r. r\<lparr>job_progress := p\<rparr>)"
| m_resolve: "job_mutation (resolve_job title res)"
| m_done: "job_mutation (done_job now art backend expires dl mx)"
| m_fail: "job_mutation (fail_job now code message)"
| m_cancel: "job_mutation (cancel_job now)"

inductive section_step :: "(time \<Rightarrow> string) \<Rightarrow> store \<Rightarrow> store \<Rightarrow> bool" for fmt where
  create_section:
    "jobs s (job_id rec) = None \<Longrightarrow> job_id rec \<noteq> [] \<Longrightarrow> cache_key rec \<noteq> [] \<Longrightarrow>
     section_step fmt s (fst (create_locked now rec s))"
| update_section: "job_mutation f \<Longrightarrow> section_step fmt s (fst (update_locked i f s))"
| broadcast_section: "section_step fmt s (broadcast fmt now i s)"
| notify_section: "section_step fmt s (notify r s)"
| delete_section: "section_step fmt s (delete_locked i s)"
| expire_section: "section_step fmt s (fst (remove_expired_locked i location now s))"
| subscribe_section: "section_step fmt s (fst (subscribe_locked fmt now i s))"
| initial_send: "chan_open s c \<Longrightarrow> subscribe_send c resp s = Some s' \<Longrightarrow> section_step fmt s s'"
| unsubscribe_section: "c \<in> set (listeners_of s i) \<Longrightarrow> section_step fmt s (unsubscribe i c s)"
| receive_step: "receive c s = Some (s', resp) \<Longrightarrow> section_step fmt s s'"

inductive_cases section_stepE: "section_step fmt s s'"

fun ids_of :: "job_record option list \<Rightarrow> string list" where
  "ids_of [] = []"
| "ids_of (None # recs) = ids_of recs"
| "ids_of (Some r # recs) = (if job_id r = [] then ids_of recs else job_id r # ids_of recs)"

definition restarted ::
  "string \<Rightarrow> nat \<Rightarrow> job_record option list \<Rightarrow> job_record option list \<Rightarrow> store" where
  "restarted base sinks finished pending =
     fst (restore_pending pending (restore finished (new_store base sinks)))"

inductive reachable :: "(time \<Rightarrow> string) \<Rightarrow> store \<Rightarrow> bool" for fmt where
  restart: "distinct (ids_of finished @ ids_of pending) \<Longrightarrow>
     reachable fmt (restarted base sinks finished pending)"
| step: "reachable fmt s \<Longrightarrow> section_step fmt s s' \<Longrightarrow> reachable fmt s'"

section \<open>The index under the sections\<close>

lemma mutation_keeps: "job_mutation f \<Longrightarrow> job_id (f r) = job_id r \<and> cache_key (f r) = cache_key r"
  by (induction rule: job_mutation.induct)
     (simp_all add: start_job_def resolve_job_def done_job_def fail_job_def cancel_job_def Let_def)

lemma index_inv_map:
  assumes inv: "index_inv s"
    and f: "\<And>r. job_id (f r) = job_id r \<and> cache_key (f r) = cache_key r"
    and js: "\<And>j. jobs s' j = (if j = i then map_option f (jobs s i) else jobs s j)"
    and cs: "cache s' = cache s"
  shows "index_inv s'"
proof (rule index_invI)
  fix j r assume "jobs s' j = Some r"
  with inv f show "job_id r = j \<and> j \<noteq> []"
    by (auto simp: js dest: index_inv_id split: if_splits)
next
  fix k j assume "cache s' k = Some j"
  then obtain r where "k \<noteq> []" and "jobs s j = Some r" and "cache_key r = k"
    using index_inv_cache [OF inv] cs by auto
  with f show "k \<noteq> [] \<and> (\<exists>r. jobs s' j = Some r \<and> cache_key r = k)"
    by (auto simp: js)
qed

lemma index_inv_update:
  "index_inv s \<Longrightarrow> job_mutation f \<Longrightarrow> index_inv (fst (update_locked i f s))"
  by (rule index_inv_map [where i = i and f = f and s = s])
     (auto simp: mutation_keeps jobs_update_locked update_locked_def split: option.split)

definition insert_job :: "job_record \<Rightarrow> store \<Rightarrow> store" where
  "insert_job rec s = s\<lparr>jobs := (jobs s)(job_id rec \<mapsto> rec),
                        cache := (cache s)(cache_key rec \<mapsto> job_id rec)\<rparr>"

lemma index_inv_insert:
  assumes inv: "index_inv s" and new: "jobs s (job_id rec) = None"
    and ne: "job_id rec \<noteq> []" "cache_key rec \<noteq> []"
  shows "index_inv (insert_job rec s)"
proof (rule index_invI)
  fix i r assume "jobs (insert_job rec s) i = Some r"
  with inv ne show "job_id r = i \<and> i \<noteq> []"
    by (auto simp: insert_job_def dest: index_inv_id split: if_splits)
next
  fix k i assume c: "cache (insert_job rec s) k = Some i"
  show "k \<noteq> [] \<and> (\<exists>r. jobs (insert_job rec s) i = Some r \<and> cache_key r = k)"
  proof (cases "k = cache_key rec")
    case True
    with c ne show ?thesis by (auto simp: insert_job_def)
  next
    case False
    with c obtain r where "k \<noteq> []" "jobs s i = Some r" "cache_key r = k"
      using index_inv_cache [OF inv] by (auto simp: insert_job_def)
    with new show ?thesis by (auto simp: insert_job_def)
  qed
qed

lemma index_inv_forget:
  assumes inv: "index_inv s" and r: "jobs s i = Some r"
  shows "index_inv (forget i r s)"
proof (rule index_invI)
  fix j q assume "jobs (forget i r s) j = Some q"
  with inv show "job_id q = j \<and> j \<noteq> []"
    by (auto dest: index_inv_id split: if_splits)
next
  fix k j assume "cache (forget i r s) k = Some j"
  then have c: "cache s k = Some j"
    and other: "cache_key r = [] \<or> k \<noteq> cache_key r \<or> j \<noteq> i"
    by (auto simp: cache_forget split: if_splits)
  from index_inv_cache [OF inv c] obtain q
    where k: "k \<noteq> []" and q: "jobs s j = Some q" "cache_key q = k" by blast
  with other r have "j \<noteq> i" by auto
  with k q show "k \<noteq> [] \<and> (\<exists>q. jobs (forget i r s) j = Some q \<and> cache_key q = k)"
    by simp
qed

text \<open>The expired job's record and cache entry go together, so removing both keeps the index.\<close>

lemma index_inv_evict:
  assumes inv: "index_inv s" and c: "cache s k = Some i"
  shows "index_inv (remove_cache k (remove_job i s))"
proof -
  from index_inv_cache [OF inv c] obtain r where r: "k \<noteq> []" "jobs s i = Some r" "cache_key r = k"
    by blast
  with c have "forget i r s = remove_cache k (remove_job i s)"
    by (simp add: forget_def)
  with index_inv_forget [OF inv r(2)] show ?thesis by simp
qed

lemma create_locked_cases:
  obtains (fresh) "create_locked now rec s = (insert_job rec s, Created None)"
    | (existing) i r where "cache s (cache_key rec) = Some i" "jobs s i = Some r"
        "job_status r \<noteq> Failed" "\<not> artifact_expired r now"
        "create_locked now rec s = (s, Existing r)"
    | (expired) i r where "cache s (cache_key rec) = Some i" "jobs s i = Some r"
        "job_status r \<noteq> Failed" "artifact_expired r now"
        "create_locked now rec s =
           (insert_job rec (remove_cache (cache_key rec) (remove_job i s)), Created (Some i))"
proof (cases "cache s (cache_key rec)")
  case None
  then show ?thesis
    by (intro fresh) (simp add: create_locked_def insert_job_def Let_def)
next
  case (Some i)
  show ?thesis
  proof (cases "if i = [] then None else jobs s i")
    case None
    with Some show ?thesis
      by (intro fresh) (simp add: create_locked_def insert_job_def Let_def)
  next
    case r: (Some r)
    then have r': "jobs s i = Some r" by (simp split: if_splits)
    consider "job_status r = Failed" | "job_status r \<noteq> Failed" "\<not> artifact_expired r now"
      | "job_status r \<noteq> Failed" "artifact_expired r now" by blast
    then show ?thesis
    proof cases
      case 1
      with Some r show ?thesis
        by (intro fresh) (simp add: create_locked_def insert_job_def Let_def)
    next
      case 2
      with Some r r' show ?thesis
        by (intro existing [of i r]) (simp_all add: create_locked_def insert_job_def Let_def)
    next
      case 3
      with Some r r' show ?thesis
        by (intro expired [of i r]) (simp_all add: create_locked_def insert_job_def Let_def)
    qed
  qed
qed

lemma index_inv_create:
  assumes inv: "index_inv s" and new: "jobs s (job_id rec) = None"
    and ne: "job_id rec \<noteq> []" "cache_key rec \<noteq> []"
  shows "index_inv (fst (create_locked now rec s))"
proof (cases rule: create_locked_cases [of now rec s])
  case fresh
  with index_inv_insert [OF inv new ne] show ?thesis by simp
next
  case (existing i r)
  with inv show ?thesis by simp
next
  case (expired i r)
  from index_inv_evict [OF inv expired(1)]
  have "index_inv (insert_job rec (remove_cache (cache_key rec) (remove_job i s)))"
    by (rule index_inv_insert) (use new ne in auto)
  with expired show ?thesis by simp
qed

lemma index_inv_delete: "index_inv s \<Longrightarrow> index_inv (delete_locked i s)"
  by (simp add: delete_locked_def index_inv_forget split: option.split)

lemma index_inv_expire: "index_inv s \<Longrightarrow> index_inv (fst (remove_expired_locked i loc now s))"
  by (simp add: remove_expired_locked_def index_inv_forget split: option.split)

lemma subscribe_locked_index:
  "jobs (fst (subscribe_locked fmt now i s)) = jobs s"
  "cache (fst (subscribe_locked fmt now i s)) = cache s"
  by (simp_all add: subscribe_locked_def Let_def split: option.split)

lemma unsubscribe_index:
  "jobs (unsubscribe i c s) = jobs s" "cache (unsubscribe i c s) = cache s"
  by (simp_all add: unsubscribe_def Let_def split: option.split)

lemma subscribe_send_cases:
  "subscribe_send c resp s = Some s' \<Longrightarrow> s' = try_send c resp s"
  by (simp add: subscribe_send_def split: if_splits)

lemma receive_cases:
  "receive c s = Some (s', resp) \<Longrightarrow>
     \<exists>rest. chan_buf s c = resp # rest \<and> s' = s\<lparr>chan_buf := (chan_buf s)(c := rest)\<rparr>"
  by (auto simp: receive_def split: list.splits)

lemma index_inv_step: "section_step fmt s s' \<Longrightarrow> index_inv s \<Longrightarrow> index_inv s'"
proof (induction rule: section_step.induct)
  case (create_section s rec now)
  then show ?case by (intro index_inv_create)
next
  case (initial_send s c resp s')
  from subscribe_send_cases [OF initial_send(2)] initial_send show ?case
    by (simp add: index_inv_cong [of "try_send _ _ _" s])
next
  case (receive_step c s s' resp)
  from receive_cases [OF receive_step(1)] receive_step show ?case
    by (auto simp: index_inv_cong [of "s\<lparr>chan_buf := _\<rparr>" s])
qed (auto intro: index_inv_update index_inv_delete index_inv_expire
      simp: index_inv_cong [of "broadcast _ _ _ _"] index_inv_cong [of "notify _ _"]
        index_inv_cong [OF subscribe_locked_index] index_inv_cong [OF unsubscribe_index])

section \<open>The channels under the sections\<close>

lemma chan_inv_cong:
  "listeners s' = listeners s \<Longrightarrow> chan_open s' = chan_open s \<Longrightarrow> chan_buf s' = chan_buf s
   \<Longrightarrow> next_chan s' = next_chan s \<Longrightarrow> panicked s' = panicked s \<Longrightarrow> chan_inv s' = chan_inv s"
  by (simp add: chan_inv_def listeners_of_def)

lemma chan_inv_open: "chan_inv s \<Longrightarrow> c \<in> set (listeners_of s i) \<Longrightarrow> chan_open s c"
  by (simp add: chan_inv_def)

lemma chan_inv_try_send: "chan_inv s \<Longrightarrow> chan_open s c \<Longrightarrow> chan_inv (try_send c r s)"
  by (auto simp: chan_inv_def try_send_def listeners_of_def)

lemma chan_inv_send_all:
  "chan_inv s \<Longrightarrow> (\<And>c. c \<in> set cs \<Longrightarrow> chan_open s c) \<Longrightarrow>
   chan_inv (foldl (\<lambda>s' c. try_send c r s') s cs)"
  by (induction cs arbitrary: s) (simp_all add: chan_inv_try_send)

lemma chan_inv_broadcast: "chan_inv s \<Longrightarrow> chan_inv (broadcast fmt now i s)"
  by (simp add: broadcast_def Let_def chan_inv_send_all chan_inv_open)

lemma update_locked_channels:
  "listeners (fst (update_locked i f s)) = listeners s"
  "chan_open (fst (update_locked i f s)) = chan_open s"
  "chan_buf (fst (update_locked i f s)) = chan_buf s"
  "next_chan (fst (update_locked i f s)) = next_chan s"
  "panicked (fst (update_locked i f s)) = panicked s"
  by (simp_all add: update_locked_def split: option.split)

lemma forget_channels [simp]:
  "listeners (forget i r s) = listeners s" "chan_open (forget i r s) = chan_open s"
  "chan_buf (forget i r s) = chan_buf s" "next_chan (forget i r s) = next_chan s"
  "panicked (forget i r s) = panicked s"
  by (simp_all add: forget_def remove_job_def remove_cache_def Let_def)

lemma delete_locked_channels:
  "listeners (delete_locked i s) = listeners s" "chan_open (delete_locked i s) = chan_open s"
  "chan_buf (delete_locked i s) = chan_buf s" "next_chan (delete_locked i s) = next_chan s"
  "panicked (delete_locked i s) = panicked s"
  by (simp_all add: delete_locked_def split: option.split)

lemma expire_channels:
  "listeners (fst (remove_expired_locked i loc now s)) = listeners s"
  "chan_open (fst (remove_expired_locked i loc now s)) = chan_open s"
  "chan_buf (fst (remove_expired_locked i loc now s)) = chan_buf s"
  "next_chan (fst (remove_expired_locked i loc now s)) = next_chan s"
  "panicked (fst (remove_expired_locked i loc now s)) = panicked s"
  by (simp_all add: remove_expired_locked_def split: option.split)

lemma create_channels:
  "listeners (fst (create_locked now rec s)) = listeners s
   \<and> chan_open (fst (create_locked now rec s)) = chan_open s
   \<and> chan_buf (fst (create_locked now rec s)) = chan_buf s
   \<and> next_chan (fst (create_locked now rec s)) = next_chan s
   \<and> panicked (fst (create_locked now rec s)) = panicked s"
  by (cases rule: create_locked_cases [of now rec s])
     (simp_all add: insert_job_def remove_job_def remove_cache_def)

lemma chan_inv_subscribe:
  assumes inv: "chan_inv s"
  shows "chan_inv (fst (subscribe_locked fmt now i s))"
proof (cases "jobs s i")
  case None
  with inv show ?thesis by (simp add: subscribe_locked_def)
next
  case (Some r)
  have fresh: "next_chan s \<notin> set (listeners_of s j)" for j
    using inv unfolding chan_inv_def by (metis less_irrefl)
  have dist: "distinct (listeners_of s j)" for j
    using inv by (auto simp: chan_inv_def listeners_of_def split: option.split)
  let ?s' = "fst (subscribe_locked fmt now i s)"
  have ls: "listeners_of ?s' j = (if j = i then next_chan s # listeners_of s i else listeners_of s j)" for j
    using Some by (simp add: subscribe_locked_def listeners_of_def Let_def)
  have eqs: "listeners ?s' = (listeners s)(i \<mapsto> next_chan s # listeners_of s i)"
    "chan_open ?s' = (chan_open s)(next_chan s := True)"
    "chan_buf ?s' = (chan_buf s)(next_chan s := [])"
    "next_chan ?s' = Suc (next_chan s)" "panicked ?s' = panicked s"
    using Some by (simp_all add: subscribe_locked_def Let_def)
  from inv fresh dist show ?thesis
    unfolding chan_inv_def ls eqs
    by (auto simp: less_SucI)
qed

lemma chan_inv_unsubscribe:
  assumes inv: "chan_inv s" and c: "c \<in> set (listeners_of s i)"
  shows "chan_inv (unsubscribe i c s)"
proof -
  from c obtain cs where cs: "listeners s i = Some cs" "c \<in> set cs"
    by (cases "listeners s i") (auto simp: listeners_of_def)
  from chan_inv_open [OF inv c] have op: "chan_open s c" .
  let ?s' = "unsubscribe i c s"
  let ?cs' = "filter (\<lambda>x. x \<noteq> c) cs"
  have eqs: "listeners ?s' = (listeners s)(i := (if ?cs' = [] then None else Some ?cs'))"
    "chan_open ?s' = (chan_open s)(c := False)" "chan_buf ?s' = chan_buf s"
    "next_chan ?s' = next_chan s" "panicked ?s' = panicked s"
    using cs op by (simp_all add: unsubscribe_def Let_def)
  have ls: "listeners_of ?s' j = (if j = i then ?cs' else listeners_of s j)" for j
    by (simp add: listeners_of_def eqs(1))
  have cs_i: "listeners_of s i = cs" using cs by (simp add: listeners_of_def)
  have other: "c \<notin> set (listeners_of s j)" if "j \<noteq> i" for j
    using inv c that by (auto simp: chan_inv_def)
  show ?thesis
    unfolding chan_inv_def ls eqs
  proof (intro conjI allI impI)
    fix j cs'' assume "((listeners s)(i := if ?cs' = [] then None else Some ?cs')) j = Some cs''"
    with inv cs show "cs'' \<noteq> []" and "distinct cs''"
      by (auto simp: chan_inv_def split: if_splits)
  qed (use inv cs_i other in \<open>auto simp: chan_inv_def split: if_splits\<close>)
qed

lemma chan_inv_step: "section_step fmt s s' \<Longrightarrow> chan_inv s \<Longrightarrow> chan_inv s'"
proof (induction rule: section_step.induct)
  case (create_section s rec now)
  with create_channels [of now rec s] show ?case
    by (simp add: chan_inv_cong [of "fst (create_locked now rec s)" s])
next
  case (initial_send s c resp s')
  from subscribe_send_cases [OF initial_send(2)] initial_send show ?case
    by (simp add: chan_inv_try_send)
next
  case (receive_step c s s' resp)
  from receive_cases [OF receive_step(1)] obtain rest
    where buf: "chan_buf s c = resp # rest" and s': "s' = s\<lparr>chan_buf := (chan_buf s)(c := rest)\<rparr>"
    by blast
  from receive_step.prems have "length (chan_buf s c) \<le> chan_capacity"
    unfolding chan_inv_def by blast
  with receive_step.prems show ?case
    unfolding s' by (auto simp: chan_inv_def listeners_of_def buf)
qed (auto intro: chan_inv_broadcast chan_inv_subscribe chan_inv_unsubscribe
      simp: chan_inv_cong [OF update_locked_channels] chan_inv_cong [OF delete_locked_channels]
        chan_inv_cong [OF expire_channels] chan_inv_cong [of "notify _ _"])

section \<open>Restarting\<close>

lemma ids_of_nonempty: "[] \<notin> set (ids_of recs)"
  by (induction recs rule: ids_of.induct) auto

lemma restore_one_channels:
  "chan_inv (restore_one s rec) = chan_inv s"
  by (rule chan_inv_cong) (simp_all add: restore_one_def Let_def split: option.split)

lemma restore_channels: "chan_inv (restore recs s) = chan_inv s"
  unfolding restore_def by (induction recs arbitrary: s) (simp_all add: restore_one_channels)

lemma restore_pending_channels: "chan_inv (fst (restore_pending recs s)) = chan_inv s"
proof (induction recs s rule: restore_pending.induct)
  case (3 r recs s)
  show ?case
  proof (cases "job_id r = []")
    case False
    have "chan_inv (s\<lparr>jobs := (jobs s)(job_id (requeued r) \<mapsto> requeued r)\<rparr>) = chan_inv s"
      by (rule chan_inv_cong) simp_all
    with 3(2) [OF False] False show ?thesis by (simp add: Let_def case_prod_beta)
  qed (use 3(1) in simp)
qed simp_all

lemma new_store_inv: "store_inv (new_store base sinks)"
  by (simp add: store_inv_def index_inv_def chan_inv_def new_store_def listeners_of_def)

lemma index_inv_restore_one:
  assumes inv: "index_inv s" and new: "job_id r \<noteq> [] \<Longrightarrow> jobs s (job_id r) = None"
  shows "index_inv (restore_one s (Some r))
    \<and> (\<forall>j. jobs (restore_one s (Some r)) j = None \<longleftrightarrow> jobs s j = None \<and> (job_id r = [] \<or> j \<noteq> job_id r))"
proof (cases "job_id r = []")
  case True
  with inv show ?thesis by (simp add: restore_one_def)
next
  case False
  have "index_inv (s\<lparr>jobs := (jobs s)(job_id r \<mapsto> r\<lparr>cancel_fn := None\<rparr>)\<rparr>)"
  proof (rule index_invI)
    fix k i assume "cache (s\<lparr>jobs := (jobs s)(job_id r \<mapsto> r\<lparr>cancel_fn := None\<rparr>)\<rparr>) k = Some i"
    with index_inv_cache [OF inv, of k i] new [OF False]
    show "k \<noteq> [] \<and> (\<exists>q. jobs (s\<lparr>jobs := (jobs s)(job_id r \<mapsto> r\<lparr>cancel_fn := None\<rparr>)\<rparr>) i = Some q
        \<and> cache_key q = k)" by auto
  qed (use inv False in \<open>auto dest: index_inv_id split: if_splits\<close>)
  moreover have "index_inv (insert_job (r\<lparr>cancel_fn := None\<rparr>) s)" if "cache_key r \<noteq> []"
    by (rule index_inv_insert [OF inv]) (use new False that in auto)
  ultimately show ?thesis
    using False by (auto simp: restore_one_def insert_job_def Let_def)
qed

lemma index_inv_restore:
  "index_inv s \<Longrightarrow> distinct (ids_of recs) \<Longrightarrow> (\<And>i. i \<in> set (ids_of recs) \<Longrightarrow> jobs s i = None) \<Longrightarrow>
   index_inv (restore recs s)
   \<and> (\<forall>j. jobs (restore recs s) j = None \<longleftrightarrow> jobs s j = None \<and> j \<notin> set (ids_of recs))"
proof (induction recs arbitrary: s rule: ids_of.induct)
  case 1
  then show ?case by (simp add: restore_def)
next
  case (2 recs)
  then show ?case by (simp add: restore_def restore_one_def)
next
  case (3 r recs)
  have one: "index_inv (restore_one s (Some r))"
    and dom: "\<And>j. jobs (restore_one s (Some r)) j = None \<longleftrightarrow>
          jobs s j = None \<and> (job_id r = [] \<or> j \<noteq> job_id r)"
    using index_inv_restore_one [OF 3(3), of r] 3(5) by auto
  have step: "restore (Some r # recs) s = restore recs (restore_one s (Some r))"
    by (simp add: restore_def)
  show ?case
  proof (cases "job_id r = []")
    case True
    then have same: "restore_one s (Some r) = s" by (simp add: restore_one_def)
    from 3(1) [OF True 3(3)] 3(4,5) True show ?thesis
      unfolding step same by simp
  next
    case False
    with 3(4) have d: "distinct (ids_of recs)" "job_id r \<notin> set (ids_of recs)" by simp_all
    have "jobs (restore_one s (Some r)) i = None" if "i \<in> set (ids_of recs)" for i
      using that 3(5) [of i] d(2) False dom [of i] by auto
    from 3(2) [OF False one d(1) this] dom False show ?thesis
      unfolding step by auto
  qed
qed

lemma index_inv_requeue:
  assumes inv: "index_inv s" and new: "jobs s (job_id r) = None" and ne: "job_id r \<noteq> []"
  shows "index_inv (s\<lparr>jobs := (jobs s)(job_id (requeued r) \<mapsto> requeued r)\<rparr>)"
proof (rule index_invI)
  have [simp]: "job_id (requeued r) = job_id r" by (simp add: requeued_def)
  fix k i assume "cache (s\<lparr>jobs := (jobs s)(job_id (requeued r) \<mapsto> requeued r)\<rparr>) k = Some i"
  with index_inv_cache [OF inv, of k i] new
  show "k \<noteq> [] \<and> (\<exists>q. jobs (s\<lparr>jobs := (jobs s)(job_id (requeued r) \<mapsto> requeued r)\<rparr>) i = Some q
      \<and> cache_key q = k)" by auto
qed (use inv ne in \<open>auto simp: requeued_def dest: index_inv_id split: if_splits\<close>)

lemma index_inv_restore_pending:
  "index_inv s \<Longrightarrow> distinct (ids_of recs) \<Longrightarrow> (\<And>i. i \<in> set (ids_of recs) \<Longrightarrow> jobs s i = None) \<Longrightarrow>
   index_inv (fst (restore_pending recs s))"
proof (induction recs s rule: restore_pending.induct)
  case (3 r recs s)
  show ?case
  proof (cases "job_id r = []")
    case True
    with 3 show ?thesis by simp
  next
    case False
    let ?s = "s\<lparr>jobs := (jobs s)(job_id (requeued r) \<mapsto> requeued r)\<rparr>"
    from False 3(4,5) have inv: "index_inv ?s"
      by (intro index_inv_requeue [OF 3(3)]) auto
    have "jobs ?s i = None" if "i \<in> set (ids_of recs)" for i
      using that 3(4) 3(5) [of i] False by (auto simp: requeued_def)
    with 3(2) [OF False refl inv] 3(4) False show ?thesis
      by (simp add: Let_def case_prod_beta)
  qed
qed simp_all

lemma restarted_inv:
  assumes "distinct (ids_of finished @ ids_of pending)"
  shows "store_inv (restarted base sinks finished pending)"
proof -
  have new: "index_inv (new_store base sinks)" "chan_inv (new_store base sinks)"
    using new_store_inv by (simp_all add: store_inv_def)
  have none: "jobs (new_store base sinks) i = None" for i by (simp add: new_store_def)
  have d: "distinct (ids_of finished)" "distinct (ids_of pending)"
    "\<And>i. i \<in> set (ids_of pending) \<Longrightarrow> i \<notin> set (ids_of finished)"
    using assms by auto
  from index_inv_restore [OF new(1) d(1) none]
  have r: "index_inv (restore finished (new_store base sinks))"
    "\<And>j. j \<notin> set (ids_of finished) \<Longrightarrow> jobs (restore finished (new_store base sinks)) j = None"
    by (auto simp: none)
  from index_inv_restore_pending [OF r(1) d(2)] r(2) d(3)
  have "index_inv (restarted base sinks finished pending)"
    unfolding restarted_def by blast
  moreover have "chan_inv (restarted base sinks finished pending)"
    unfolding restarted_def by (simp add: restore_pending_channels restore_channels new)
  ultimately show ?thesis by (simp add: store_inv_def)
qed

lemma store_inv_step: "section_step fmt s s' \<Longrightarrow> store_inv s \<Longrightarrow> store_inv s'"
  by (simp add: store_inv_def index_inv_step chan_inv_step)

lemma reachable_inv: "reachable fmt s \<Longrightarrow> store_inv s"
  by (induction rule: reachable.induct) (auto intro: restarted_inv store_inv_step)

end
