(* ===== verification/Job_Store_Spec.thy ===== *)
theory Job_Store_Spec
  imports Job_Interleaving
begin

text \<open>
  What the job store promises, and where the interleaving of its sections breaks a promise:
  consistency of every reachable store, deduplication of requests, the life of a job, deletion and
  expiry, and four races.
\<close>

section \<open>Shared facts\<close>

lemma artifact_expired_None: "expires_at r = None \<Longrightarrow> \<not> artifact_expired r now"
  by (simp add: artifact_expired_def)

lemma new_record_simps [simp]:
  "job_id (new_record i k u a opts t) = i" "cache_key (new_record i k u a opts t) = k"
  "job_status (new_record i k u a opts t) = Queued" "expires_at (new_record i k u a opts t) = None"
  by (simp_all add: new_record_def)

lemma create_locked_hit:
  assumes "index_inv s" and "cache s (cache_key rec) = Some j" and "jobs s j = Some r"
    and "job_status r \<noteq> Failed" and "\<not> artifact_expired r now"
  shows "create_locked now rec s = (s, Existing r)"
  using assms index_inv_id [OF assms(1,3)] by (simp add: create_locked_def Let_def)

lemma create_locked_created:
  "create_locked now rec s = (s', Created x) \<Longrightarrow>
     jobs s' (job_id rec) = Some rec \<and> cache s' (cache_key rec) = Some (job_id rec)"
  by (cases rule: create_locked_cases [of now rec s]) (auto simp: insert_job_def)

lemma create_locked_existing:
  "create_locked now rec s = (s', Existing r) \<Longrightarrow>
     s' = s \<and> (\<exists>j. cache s (cache_key rec) = Some j \<and> jobs s j = Some r \<and> job_status r \<noteq> Failed)"
  by (cases rule: create_locked_cases [of now rec s]) auto

lemma chan_buf_try_send:
  "chan_open s c \<Longrightarrow> chan_buf (try_send c r s) =
     (if length (chan_buf s c) < chan_capacity
      then (chan_buf s)(c := chan_buf s c @ [r]) else chan_buf s)"
  by (simp add: try_send_def)

lemma chan_buf_send_other: "c \<notin> set cs \<Longrightarrow>
   chan_buf (foldl (\<lambda>s' c. try_send c r s') s cs) c = chan_buf s c"
  by (induction cs arbitrary: s) (auto simp: try_send_def)

lemma chan_buf_send_all:
  "distinct cs \<Longrightarrow> c \<in> set cs \<Longrightarrow> chan_open s c \<Longrightarrow>
   chan_buf (foldl (\<lambda>s' c. try_send c r s') s cs) c =
     (if length (chan_buf s c) < chan_capacity then chan_buf s c @ [r] else chan_buf s c)"
proof (induction cs arbitrary: s)
  case Nil
  then show ?case by simp
next
  case (Cons a cs)
  show ?case
  proof (cases "a = c")
    case True
    with Cons.prems have "c \<notin> set cs" by simp
    with True Cons.prems(3) show ?thesis
      by (simp add: chan_buf_send_other chan_buf_try_send)
  next
    case False
    then have "chan_buf (try_send a r s) c = chan_buf s c" by (simp add: try_send_def)
    with False Cons show ?thesis by simp
  qed
qed

text \<open>A broadcast reaches each listener of the job, unless its buffer is full.\<close>

lemma chan_buf_broadcast:
  assumes inv: "chan_inv s" and c: "c \<in> set (listeners_of s i)"
  shows "chan_buf (broadcast fmt now i s) c =
     (if length (chan_buf s c) < chan_capacity
      then chan_buf s c @ [response_locked fmt now i s] else chan_buf s c)"
proof -
  from inv have d: "distinct (listeners_of s i)"
    by (auto simp: chan_inv_def listeners_of_def split: option.split)
  from chan_buf_send_all [OF d c chan_inv_open [OF inv c]] show ?thesis
    by (simp add: broadcast_def Let_def)
qed

lemma update_locked_Some:
  "jobs s i = Some r \<Longrightarrow> update_locked i f s = (s\<lparr>jobs := (jobs s)(i \<mapsto> f r)\<rparr>, Some (f r))"
  by (simp add: update_locked_def)

section \<open>Sample values for the witnesses\<close>

definition sample_options :: options where
  "sample_options =
     \<lparr>opt_mode = [], opt_quality = [], opt_format = [], opt_container = ''mp4'',
      opt_audio_passthrough = False, opt_video_itag = [], opt_audio_itag = [],
      opt_height = None, opt_fps = None, opt_video_codec = [], opt_audio_codec = [],
      opt_bitrate = None, opt_allow_quality_fallback = False, opt_sponsor_block = False,
      opt_sponsor_block_categories = [], opt_thumbnail_only = False, opt_subtitles = JNull\<rparr>"

definition sample_job :: "string \<Rightarrow> status \<Rightarrow> job_record" where
  "sample_job i st = (new_record i ''k'' ''http://v'' [] sample_options 0)
     \<lparr>job_status := st, cancel_fn := (if st = Running then Some 7 else None)\<rparr>"

definition sample_store :: "status \<Rightarrow> store" where
  "sample_store st = (new_store ''http://h'' 1)
     \<lparr>jobs := [''a'' \<mapsto> sample_job ''a'' st], cache := [''k'' \<mapsto> ''a'']\<rparr>"

lemma sample_simps [simp]:
  "job_id (sample_job i st) = i" "cache_key (sample_job i st) = ''k''"
  "job_status (sample_job i st) = st" "expires_at (sample_job i st) = None"
  "cancel_fn (sample_job i st) = (if st = Running then Some 7 else None)"
  "jobs (sample_store st) = [''a'' \<mapsto> sample_job ''a'' st]"
  "cache (sample_store st) = [''k'' \<mapsto> ''a'']"
  "listeners (sample_store st) = Map.empty" "panicked (sample_store st) = False"
  "chan_open (sample_store st) = (\<lambda>_. False)" "chan_buf (sample_store st) = (\<lambda>_. [])"
  "next_chan (sample_store st) = 0" "sink_count (sample_store st) = 1"
  "saves (sample_store st) = []" "base_url (sample_store st) = ''http://h''"
  by (simp_all add: sample_job_def sample_store_def new_store_def)

lemma sample_store_inv: "store_inv (sample_store st)"
  by (auto simp: store_inv_def index_inv_def chan_inv_def listeners_of_def split: if_splits)

section \<open>Consistency of every reachable store\<close>

text \<open>C6: In every interleaving of the store's critical sections after a restart, a cache entry
  leads to a job filed under its own identity with exactly that key, no goroutine ever sends on or
  closes a closed channel, every listener is an open channel of one job only, and no subscriber's
  buffer exceeds 16 responses.\<close>

theorem store_consistent:
  assumes "reachable fmt s"
  shows "(cache s k = Some i \<longrightarrow> (\<exists>r. jobs s i = Some r \<and> job_id r = i \<and> cache_key r = k))
    \<and> \<not> panicked s
    \<and> (c \<in> set (listeners_of s i) \<longrightarrow> chan_open s c \<and> (\<forall>j. j \<noteq> i \<longrightarrow> c \<notin> set (listeners_of s j)))
    \<and> length (chan_buf s c) \<le> 16"
proof -
  from assms have "index_inv s" and "chan_inv s"
    using reachable_inv [of fmt s] by (auto simp: store_inv_def)
  then show ?thesis
    unfolding index_inv_def chan_inv_def chan_capacity_def
    by (intro conjI impI allI) (blast | metis)+
qed

lemma store_consistent_witness:
  "\<exists>s. reachable (\<lambda>_. []) s \<and> cache s ''k'' = Some ''a''
     \<and> (\<exists>r. jobs s ''a'' = Some r \<and> job_id r = ''a'' \<and> cache_key r = ''k'')"
proof -
  let ?s = "restarted ''http://h'' 1 [Some (sample_job ''a'' Done)] []"
  have r: "reachable (\<lambda>_. []) ?s"
    by (rule reachable.restart) simp
  have c: "cache ?s ''k'' = Some ''a''"
    by (simp add: restarted_def restore_def restore_one_def new_store_def)
  from r c store_consistent [OF r, of "''k''" "''a''" 0] show ?thesis by blast
qed

section \<open>Creating jobs\<close>

text \<open>C32: A request whose cache key leads to a job that has not failed and whose artifact has not
  expired gets that job, unchanged, with \<open>cached\<close> set exactly when the job is done, and creates
  nothing: no job, no event, no write to a sink.\<close>

theorem create_dedup:
  assumes "store_inv s"
    and "fst (cache_key_of digest u opts a) = Inr k"
    and "cache s k = Some j" and "jobs s j = Some r"
    and "job_status r \<noteq> Failed" and "\<not> artifact_expired r t_check"
  shows "create digest fmt t_queued t_check t_bc (Inr i) u opts a s
    = (s, Inr (r, job_status r = Done, False))"
proof -
  have "index_inv s" using assms(1) by (simp add: store_inv_def)
  from create_locked_hit [OF this, of "new_record i k u a (snd (cache_key_of digest u opts a)) t_queued"]
  show ?thesis
    using assms(2-)
    by (cases "cache_key_of digest u opts a") (simp add: create_def Let_def)
qed

lemma create_dedup_witness:
  "create (\<lambda>_. Inr ''k'') (\<lambda>_. []) 1 2 3 (Inr ''b'') ''http://v'' sample_options [] (sample_store Done)
    = (sample_store Done, Inr (sample_job ''a'' Done, True, False))"
  using create_dedup [OF sample_store_inv [of Done], of "\<lambda>_. Inr ''k''" "''http://v''" sample_options
      "[]" "''k''" "''a''" "sample_job ''a'' Done" 2 "\<lambda>_. []" 1 3 "''b''"]
  by (simp add: cache_key_of_def artifact_expired_def)

text \<open>Either nothing is created, or the new job is filed, and only the expired job is removed.\<close>

lemma create_fresh_facts:
  assumes "create digest fmt t_queued t_check t_bc (Inr i) u opts a s = (s', Inr (r, c, True))"
  shows "\<exists>k opts'. cache_key_of digest u opts a = (Inr k, opts')
    \<and> r = new_record i k u a opts' t_queued \<and> c = False
    \<and> jobs s' i = Some r \<and> cache s' k = Some i
    \<and> (\<exists>x. create_locked t_check r s = (fst (create_locked t_check r s), Created x)
         \<and> jobs s' = jobs (fst (create_locked t_check r s))
         \<and> cache s' = cache (fst (create_locked t_check r s)))"
proof (cases "cache_key_of digest u opts a")
  case (Pair kr opts')
  show ?thesis
  proof (cases kr)
    case (Inl e)
    with Pair assms show ?thesis by (simp add: create_def)
  next
    case (Inr k)
    let ?rec = "new_record i k u a opts' t_queued"
    show ?thesis
    proof (cases "create_locked t_check ?rec s")
      case cl: (Pair s1 out)
      show ?thesis
      proof (cases out)
        case (Existing q)
        with assms Pair Inr cl show ?thesis by (simp add: create_def Let_def)
      next
        case (Created x)
        from create_locked_created [OF cl [unfolded Created]]
        have "jobs s1 i = Some ?rec" "cache s1 k = Some i" by simp_all
        with assms Pair Inr cl Created show ?thesis
          by (auto simp: create_def Let_def split: option.splits)
      qed
    qed
  qed
qed

text \<open>Creating is idempotent. Whatever job the first request got, new or existing, a second
  request with the same input gets the same job and creates nothing, as long as that job has not
  failed and its artifact has not expired.\<close>

theorem create_idempotent:
  assumes inv: "store_inv s" and ne: "i \<noteq> []" "jobs s i = None"
    and digest: "\<And>x. digest x \<noteq> Inr []"
    and first: "create digest fmt t1 t2 t3 (Inr i) u opts a s = (s', Inr (r, c, n))"
    and alive: "\<not> artifact_expired r t5"
  shows "create digest fmt t4 t5 t6 (Inr i') u opts a s' = (s', Inr (r, job_status r = Done, False))"
proof -
  obtain k opts' where key: "cache_key_of digest u opts a = (Inr k, opts')"
    using first by (cases "cache_key_of digest u opts a"; cases "fst (cache_key_of digest u opts a)")
      (auto simp: create_def)
  have k: "k \<noteq> []" using digest key by (auto simp: cache_key_of_def)
  let ?rec = "new_record i k u a opts' t1"
  have idx: "index_inv s" using inv by (simp add: store_inv_def)
  obtain s1 out where cl: "create_locked t2 ?rec s = (s1, out)" by fastforce
  have idx1: "index_inv s1"
    using index_inv_create [OF idx, of ?rec t2] ne k cl by simp
  show ?thesis
  proof (cases out)
    case (Existing q)
    with cl have "s1 = s" and ex: "\<exists>j. cache s k = Some j \<and> jobs s j = Some q \<and> job_status q \<noteq> Failed"
      using create_locked_existing [of t2 ?rec s s1 q] by auto
    with first key cl Existing have "s' = s" "r = q" by (auto simp: create_def Let_def)
    with ex alive create_locked_hit [OF idx] key show ?thesis
      by (auto simp: create_def Let_def)
  next
    case (Created x)
    with cl first key have r: "r = ?rec" and s': "jobs s' = jobs s1" "cache s' = cache s1"
      by (auto simp: create_def Let_def split: option.splits)
    from create_locked_created [of t2 ?rec s s1 x] cl Created s'
    have "jobs s' i = Some r" "cache s' k = Some i" by (simp_all add: r)
    moreover have "index_inv s'" using idx1 by (simp add: index_inv_cong [OF s'])
    ultimately have "create_locked t5 (new_record i' k u a opts' t4) s' = (s', Existing r)"
      using alive by (intro create_locked_hit) (simp_all add: r)
    with key show ?thesis by (simp add: create_def Let_def)
  qed
qed

lemma create_idempotent_witness:
  "\<exists>s' r. create (\<lambda>_. Inr ''z'') (\<lambda>_. []) 1 2 3 (Inr ''b'') ''http://w'' sample_options [] (sample_store Done)
       = (s', Inr (r, False, True))
     \<and> create (\<lambda>_. Inr ''z'') (\<lambda>_. []) 4 5 6 (Inr ''d'') ''http://w'' sample_options [] s'
       = (s', Inr (r, False, False))"
proof -
  let ?r = "new_record ''b'' ''z'' ''http://w'' [] (trim_categories sample_options) 1"
  obtain s' where s': "create (\<lambda>_. Inr ''z'') (\<lambda>_. []) 1 2 3 (Inr ''b'') ''http://w'' sample_options []
      (sample_store Done) = (s', Inr (?r, False, True))"
    by (simp add: create_def cache_key_of_def create_locked_def Let_def)
  have "create (\<lambda>_. Inr ''z'') (\<lambda>_. []) 4 5 6 (Inr ''d'') ''http://w'' sample_options [] s'
      = (s', Inr (?r, job_status ?r = Done, False))"
    by (rule create_idempotent [OF sample_store_inv _ _ _ s'])
       (simp_all add: artifact_expired_def new_record_def)
  with s' show ?thesis by auto
qed

text \<open>Concurrent duplicates: the critical sections of \<open>Create\<close>, one after the other.\<close>

fun create_all :: "(time \<times> job_record) list \<Rightarrow> store \<Rightarrow> store \<times> create_outcome list" where
  "create_all [] s = (s, [])"
| "create_all ((now, rec) # reqs) s =
     (let (s1, out) = create_locked now rec s; (s2, outs) = create_all reqs s1
      in (s2, out # outs))"

lemma create_all_hits:
  assumes "index_inv s" and "cache s k = Some j" and "jobs s j = Some r"
    and "job_status r \<noteq> Failed" and "expires_at r = None"
    and "\<And>now rec. (now, rec) \<in> set reqs \<Longrightarrow> cache_key rec = k"
  shows "create_all reqs s = (s, replicate (length reqs) (Existing r))"
  using assms(6)
proof (induction reqs)
  case Nil
  then show ?case by simp
next
  case (Cons q reqs)
  obtain now rec where q: "q = (now, rec)" by fastforce
  with Cons.prems have "cache_key rec = k" by auto
  with create_locked_hit [OF assms(1)] assms(2-5) artifact_expired_None
  have hit: "create_locked now rec s = (s, Existing r)" by simp
  have "create_all reqs s = (s, replicate (length reqs) (Existing r))"
    using Cons by auto
  with hit q show ?case by simp
qed

text \<open>Of any number of concurrent requests with one cache key and no live job for it, in
  whatever order they enter the critical section, exactly the first creates a job and every other
  gets that job.\<close>

theorem create_single_flight:
  assumes inv: "store_inv s"
    and key: "\<And>t q. (t, q) \<in> set ((now, rec) # reqs) \<Longrightarrow> cache_key q = k \<and> job_status q = Queued
      \<and> expires_at q = None \<and> jobs s (job_id q) = None \<and> job_id q \<noteq> []"
    and k: "k \<noteq> []" "cache s k = None"
  shows "snd (create_all ((now, rec) # reqs) s)
    = Created None # replicate (length reqs) (Existing rec)"
proof -
  have idx: "index_inv s" using inv by (simp add: store_inv_def)
  have rec: "cache_key rec = k" "job_status rec = Queued" "expires_at rec = None"
    "jobs s (job_id rec) = None" "job_id rec \<noteq> []"
    using key [of now rec] by auto
  have cl: "create_locked now rec s = (insert_job rec s, Created None)"
    using rec k by (simp add: create_locked_def insert_job_def Let_def)
  have "index_inv (insert_job rec s)"
    using index_inv_insert [OF idx rec(4,5)] rec(1) k by simp
  moreover have "cache (insert_job rec s) k = Some (job_id rec)"
    "jobs (insert_job rec s) (job_id rec) = Some rec"
    using rec by (simp_all add: insert_job_def)
  ultimately have "create_all reqs (insert_job rec s)
      = (insert_job rec s, replicate (length reqs) (Existing rec))"
    using create_all_hits [of "insert_job rec s" k "job_id rec" rec reqs] rec key by auto
  with cl show ?thesis by simp
qed

lemma create_single_flight_witness:
  "snd (create_all [(1, sample_job ''a'' Queued), (2, sample_job ''b'' Queued), (3, sample_job ''d'' Queued)]
      (new_store [] 0)) = [Created None, Existing (sample_job ''a'' Queued), Existing (sample_job ''a'' Queued)]"
proof -
  have "snd (create_all ((1, sample_job ''a'' Queued) #
        [(2, sample_job ''b'' Queued), (3, sample_job ''d'' Queued)]) (new_store [] 0))
      = Created None # replicate (length [(2::time, sample_job ''b'' Queued), (3, sample_job ''d'' Queued)])
          (Existing (sample_job ''a'' Queued))"
    by (rule create_single_flight [OF new_store_inv, where k = "''k''"]) (auto simp: new_store_def)
  then show ?thesis by (simp del: create_all.simps)
qed

section \<open>The life of a job\<close>

text \<open>A job that is started, reports progress and finishes is reported as done, at 100 percent,
  with all bytes downloaded, the times of the run and the artifact's URL; and it is still found
  under its identity.\<close>

theorem lifecycle_done:
  assumes "jobs s i = Some r" and "job_id r = i"
    and "0 < pg_total p" and "100 * pg_total p \<le> max_i64"
    and "art \<noteq> []" and "t0 \<le> t1" and "t1 - t0 \<le> max_i64"
  shows "\<exists>resp. response_of fmt now i
      (finish_done fmt t1 b3 i art backend expires dl mx
        (set_progress fmt b2 i p (fst (start fmt t0 b1 i c s)))) = Some resp
    \<and> rsp_status resp = Done \<and> rsp_progress_percent resp = Some 100
    \<and> rsp_downloaded_bytes resp = Some (pg_total p)
    \<and> rsp_artifact_url resp = Some (base_url s @ ''/jobs/'' @ i @ ''/artifact'')
    \<and> rsp_total_ms resp = Some ((t1 - t0) div 1000000) \<and> rsp_stage resp = Some ''done''"
proof -
  let ?s = "finish_done fmt t1 b3 i art backend expires dl mx
        (set_progress fmt b2 i p (fst (start fmt t0 b1 i c s)))"
  let ?r = "done_job t1 art backend expires dl mx (start_job t0 c r\<lparr>job_progress := p\<rparr>)"
  have base: "base_url ?s = base_url s"
    by (simp add: finish_done_def set_progress_def start_def update_def update_locked_def
        split: option.split)
  have job: "jobs ?s i = Some ?r"
    using assms(1) by (simp add: finish_done_def set_progress_def start_def jobs_update)
  have ms: "milliseconds (sub_time t1 t0) = (t1 - t0) div 1000000"
    using assms(6,7) by (simp add: milliseconds_def sub_time_def go_div_nonneg min_i64_def max_i64_def)
  have pct: "go_div (mul64 (pg_total p) 100) (pg_total p) = 100"
    using percent_bounds [of "pg_total p" "pg_total p"] assms(3,4) by simp
  show ?thesis
    using job base assms(2,3,5) ms pct
    by (simp add: response_of_def to_response_def apply_progress_def done_job_def start_job_def
        zero_response_def Let_def)
qed

lemma lifecycle_done_witness:
  "\<exists>resp. response_of (\<lambda>_. []) 9 ''a''
      (finish_done (\<lambda>_. []) 5000000 8 ''a'' ''/out.mp4'' ''local'' None 1 2
        (set_progress (\<lambda>_. []) 7 ''a'' \<lparr>pg_stage = ''download'', pg_downloaded = 50, pg_total = 200, pg_speed = 3\<rparr>
          (fst (start (\<lambda>_. []) 0 6 ''a'' 4 (sample_store Queued))))) = Some resp
    \<and> rsp_status resp = Done \<and> rsp_progress_percent resp = Some 100"
  using lifecycle_done [of "sample_store Queued" "''a''" "sample_job ''a'' Queued"
      "\<lparr>pg_stage = ''download'', pg_downloaded = 50, pg_total = 200, pg_speed = 3\<rparr>" "''/out.mp4''" 0 5000000
      "\<lambda>_. []" 9 8 "''local''" None 1 2 7 6 4]
  by (auto simp: max_i64_def)

section \<open>Cancelling, deleting, expiring\<close>



text \<open>Delete refuses a running or absent job and changes nothing; otherwise it returns the job,
  removes it and leaves no cache entry that leads to it, so that the next request for its key
  creates a new job.\<close>

theorem delete_spec:
  assumes inv: "store_inv s" and del: "delete fmt t_bc i s = (s', out)"
  shows "case jobs s i of
         None \<Rightarrow> s' = s \<and> out = None
       | Some r \<Rightarrow> if job_status r = Running then s' = s \<and> out = None
                   else out = Some r \<and> jobs s' = (jobs s)(i := None) \<and> (\<forall>k. cache s' k \<noteq> Some i)
                     \<and> (\<forall>k j. j \<noteq> i \<longrightarrow> (cache s' k = Some j) = (cache s k = Some j))"
proof (cases "jobs s i")
  case None
  with del show ?thesis by (simp add: delete_def delete_locked_def delete_finish_def)
next
  case (Some r)
  have gone: "cache (forget i r s) k \<noteq> Some i" for k
    using index_inv_cache [of s k i] inv Some by (auto simp: store_inv_def cache_forget)
  have kept: "(cache (forget i r s) k = Some j) = (cache s k = Some j)" if "j \<noteq> i" for k j
    using that by (auto simp: cache_forget)
  from Some del gone kept show ?thesis
    by (auto simp: delete_def delete_locked_def delete_finish_def)
qed

lemma delete_spec_witness:
  "snd (delete (\<lambda>_. []) 1 ''a'' (sample_store Done)) = Some (sample_job ''a'' Done)
   \<and> cache (fst (delete (\<lambda>_. []) 1 ''a'' (sample_store Done))) ''k'' \<noteq> Some ''a''"
  using delete_spec [OF sample_store_inv surjective_pairing [of "delete (\<lambda>_. []) 1 ''a'' (sample_store Done)"]]
  by simp

text \<open>Removing an expired artifact succeeds exactly for a done job with exactly that artifact
  whose expiry is not in the future; it then removes the job and every cache entry that leads to
  it, and otherwise it changes nothing.\<close>

theorem remove_expired_spec:
  assumes inv: "store_inv s" and rem: "remove_expired_artifact fmt t_bc i loc now s = (s', ok)"
  shows "(ok = (\<exists>r t. jobs s i = Some r \<and> job_status r = Done \<and> artifact r = loc
              \<and> expires_at r = Some t \<and> t \<le> now))
    \<and> (if ok then jobs s' = (jobs s)(i := None) \<and> (\<forall>k. cache s' k \<noteq> Some i) else s' = s)"
proof (cases "jobs s i")
  case None
  with rem show ?thesis by (simp add: remove_expired_artifact_def remove_expired_locked_def)
next
  case (Some r)
  have gone: "cache (forget i r s) k \<noteq> Some i" for k
    using index_inv_cache [of s k i] inv Some by (auto simp: store_inv_def cache_forget)
  from Some rem gone show ?thesis
    by (auto simp: remove_expired_artifact_def remove_expired_locked_def artifact_expired_def after_def
        split: option.splits if_splits)
qed

lemma remove_expired_spec_witness:
  "snd (remove_expired_artifact (\<lambda>_. []) 1 ''a'' [] 5 (sample_store Done)) = False"
  using remove_expired_spec [OF sample_store_inv
      surjective_pairing [of "remove_expired_artifact (\<lambda>_. []) 1 ''a'' [] 5 (sample_store Done)"]]
  by simp

section \<open>Races\<close>

text \<open>C37: A cancelled job can run. The worker reads the job while it is queued; the cancellation is
  accepted before the worker starts it; starting is unconditional, so the job that was reported as
  cancelled is running, with the error of the cancellation on its record and a context nobody
  cancelled.\<close>

theorem cancel_lost_before_start:
  assumes "jobs s i = Some r" and "job_status r = Queued"
  shows "\<exists>seen s1 called s2 q. get_job i s = Some seen \<and> job_status seen = Queued
    \<and> cancel fmt t1 t2 i s = (s1, True, called) \<and> called = None
    \<and> start fmt t3 t4 i c s1 = (s2, True)
    \<and> jobs s2 i = Some q \<and> job_status q = Running \<and> error_code q = Some ''cancelled''
    \<and> cancel_fn q = Some c"
proof -
  let ?s1 = "fst (cancel fmt t1 t2 i s)"
  let ?f = "cancel_job t1 r"
  have c: "cancel fmt t1 t2 i s = (?s1, True, None)"
    using assms by (auto simp: cancel_def update_def update_locked_def Let_def)
  have j1: "jobs ?s1 i = Some ?f"
    using assms by (simp add: cancel_def case_prod_beta jobs_update Let_def)
  have st: "start fmt t3 t4 i c ?s1 = (fst (start fmt t3 t4 i c ?s1), True)"
    using j1 by (simp add: start_def prod_eq_iff snd_update)
  have j2: "jobs (fst (start fmt t3 t4 i c ?s1)) i = Some (start_job t3 c ?f)"
    using j1 by (simp add: start_def jobs_update)
  have "get_job i s = Some r" using assms by (simp add: get_job_def)
  moreover have "error_code (start_job t3 c ?f) = Some ''cancelled''"
    using assms by (simp add: start_job_def cancel_job_def)
  moreover have "job_status (start_job t3 c ?f) = Running" "cancel_fn (start_job t3 c ?f) = Some c"
    by (simp_all add: start_job_def)
  ultimately show ?thesis using assms(2) c st j2 by blast
qed

lemma cancel_lost_witness:
  "\<exists>s1 s2 q. cancel (\<lambda>_. []) 1 2 ''a'' (sample_store Queued) = (s1, True, None)
    \<and> start (\<lambda>_. []) 3 4 ''a'' 9 s1 = (s2, True) \<and> jobs s2 ''a'' = Some q \<and> job_status q = Running"
  using cancel_lost_before_start [of "sample_store Queued" "''a''" "sample_job ''a'' Queued"
      "\<lambda>_. []" 1 2 3 4 9] by auto

text \<open>C38: A deletion can be reported although the job stays. The critical section of \<open>Delete\<close> finds the
  job running and keeps it; the worker finishes the job; the second, unlocked test of the status
  then lets \<open>Delete\<close> return the record, whose artifact the caller removes, while the job is still
  in the store, done, and still serves requests from the cache.\<close>

theorem delete_reports_kept_job:
  assumes "jobs s i = Some r" and "job_status r = Running"
  shows "\<exists>s1 s2 q. delete_locked i s = s
    \<and> s1 = finish_done fmt t1 t2 i art backend expires dl mx (delete_locked i s)
    \<and> delete_finish fmt t3 i (jobs s1 i) s1 = (s2, Some q)
    \<and> jobs s2 i = Some q \<and> job_status q = Done \<and> artifact q = art \<and> cache s2 = cache s"
proof -
  let ?s1 = "finish_done fmt t1 t2 i art backend expires dl mx s"
  let ?q = "done_job t1 art backend expires dl mx r"
  have "delete_locked i s = s" using assms by (simp add: delete_locked_def)
  moreover have "jobs ?s1 i = Some ?q" using assms by (simp add: finish_done_def jobs_update)
  moreover have "job_status ?q = Done" "artifact ?q = art"
    by (simp_all add: done_job_def Let_def)
  ultimately show ?thesis
    by (auto simp: delete_finish_def finish_done_def)
qed

lemma delete_reports_kept_job_witness:
  "\<exists>s1 s2 q. delete_locked ''a'' (sample_store Running) = sample_store Running
    \<and> s1 = finish_done (\<lambda>_. []) 1 2 ''a'' ''/o'' ''local'' None 0 0 (delete_locked ''a'' (sample_store Running))
    \<and> delete_finish (\<lambda>_. []) 3 ''a'' (jobs s1 ''a'') s1 = (s2, Some q)
    \<and> jobs s2 ''a'' = Some q \<and> job_status q = Done \<and> cache s2 ''k'' = Some ''a''"
  using delete_reports_kept_job [of "sample_store Running" "''a''" "sample_job ''a'' Running"
      "\<lambda>_. []" 1 2 "''/o''" "''local''" None 0 0 3] by auto

text \<open>C39: A new subscriber can be left with an outdated snapshot. The initial response is taken under
  the lock but sent after it is released; if the job finishes in between, the subscriber reads
  the final response first and the snapshot of the running job after it, and nothing follows.\<close>

theorem subscriber_ends_stale:
  assumes inv: "chan_inv s" and job: "jobs s i = Some r" "job_status r = Running"
  shows "\<exists>s1 c initial s2 s3 final. subscribe_locked fmt t1 i s = (s1, Some (c, initial))
    \<and> s2 = finish_done fmt t2 t3 i art backend expires dl mx s1
    \<and> subscribe_send c initial s2 = Some s3
    \<and> chan_buf s3 c = [final, initial]
    \<and> rsp_status final = Done \<and> rsp_status initial = Running"
proof -
  let ?s1 = "fst (subscribe_locked fmt t1 i s)"
  let ?c = "next_chan s"
  let ?initial = "to_response fmt (base_url s) t1 r"
  have sub: "subscribe_locked fmt t1 i s = (?s1, Some (?c, ?initial))"
    using job by (simp add: subscribe_locked_def response_locked_def Let_def)
  have inv1: "chan_inv ?s1" by (rule chan_inv_subscribe [OF inv])
  have c1: "?c \<in> set (listeners_of ?s1 i)" "chan_buf ?s1 ?c = []" "jobs ?s1 = jobs s"
    using job by (simp_all add: subscribe_locked_def listeners_of_def Let_def)
  let ?f = "done_job t2 art backend expires dl mx"
  let ?u = "?s1\<lparr>jobs := (jobs ?s1)(i \<mapsto> ?f r)\<rparr>"
  have invu: "chan_inv ?u" using inv1 by (simp add: chan_inv_cong [of ?u ?s1])
  let ?s2 = "finish_done fmt t2 t3 i art backend expires dl mx ?s1"
  have s2: "?s2 = notify (?f r) (broadcast fmt t3 i ?u)"
    using job c1 by (simp add: finish_done_def update_def update_locked_Some)
  let ?final = "response_locked fmt t3 i ?u"
  have buf: "chan_buf ?s2 ?c = [?final]"
    using chan_buf_broadcast [OF invu, of ?c i] c1 by (simp add: s2 listeners_of_def chan_capacity_def)
  have op: "chan_open ?s2 ?c" using chan_inv_open [OF inv1 c1(1)] by (simp add: s2)
  have send: "subscribe_send ?c ?initial ?s2 = Some (try_send ?c ?initial ?s2)"
    using buf by (simp add: subscribe_send_def chan_capacity_def)
  have "chan_buf (try_send ?c ?initial ?s2) ?c = [?final, ?initial]"
    using buf op by (simp add: chan_buf_try_send chan_capacity_def)
  moreover have "rsp_status ?final = Done"
    by (simp add: response_locked_def done_job_def Let_def)
  moreover have "rsp_status ?initial = Running" using job by simp
  ultimately show ?thesis using sub send by blast
qed

lemma subscriber_ends_stale_witness:
  "\<exists>s1 c initial s3 final. subscribe_locked (\<lambda>_. []) 1 ''a'' (sample_store Running) = (s1, Some (c, initial))
    \<and> subscribe_send c initial (finish_done (\<lambda>_. []) 2 3 ''a'' ''/o'' ''local'' None 0 0 s1) = Some s3
    \<and> chan_buf s3 c = [final, initial] \<and> rsp_status final = Done"
  using subscriber_ends_stale [of "sample_store Running" "''a''" "sample_job ''a'' Running"
      "\<lambda>_. []" 1 2 3 "''/o''" "''local''" None 0 0] sample_store_inv [of Running]
  unfolding store_inv_def by auto

text \<open>C40: The sinks can end with an outdated record. Cancelling a running job changes nothing but still
  notifies the sinks, after releasing the lock; if the worker finishes the job in between, the last
  record every sink saves says the job is running, and a restart would run it again.\<close>

theorem sinks_end_stale:
  assumes job: "jobs s i = Some r" "job_status r = Running" and k: "k < sink_count s"
  shows "\<exists>s1 q1 s2 q2 s3. update_locked i (cancel_job t1) s = (s1, Some q1)
    \<and> update_locked i (done_job t2 art backend expires dl mx) s1 = (s2, Some q2)
    \<and> s3 = notify q1 (broadcast fmt t3 i (notify q2 (broadcast fmt t4 i s2)))
    \<and> jobs s3 i = Some q2 \<and> job_status q2 = Done
    \<and> last (filter (\<lambda>(j, q). j = k) (saves s3)) = (k, q1) \<and> job_status q1 = Running"
proof -
  have idle: "cancel_job t1 r = r" using job by (simp add: cancel_job_def)
  let ?s1 = "s\<lparr>jobs := (jobs s)(i \<mapsto> r)\<rparr>"
  let ?q2 = "done_job t2 art backend expires dl mx r"
  let ?s2 = "?s1\<lparr>jobs := (jobs ?s1)(i \<mapsto> ?q2)\<rparr>"
  let ?s3 = "notify r (broadcast fmt t3 i (notify ?q2 (broadcast fmt t4 i ?s2)))"
  have "update_locked i (cancel_job t1) s = (?s1, Some r)"
    using update_locked_Some [OF job(1), of "cancel_job t1"] by (simp add: idle)
  moreover have "update_locked i (done_job t2 art backend expires dl mx) ?s1 = (?s2, Some ?q2)"
    by (rule update_locked_Some) simp
  moreover have "jobs ?s3 i = Some ?q2" by simp
  moreover have "job_status ?q2 = Done" by (simp add: done_job_def Let_def)
  moreover have "last (filter (\<lambda>(j, q). j = k) (saves ?s3)) = (k, r)"
  proof -
    have "filter (\<lambda>(j, q). j = k) (map (\<lambda>j. (j, r)) [0..<n]) = (if k < n then [(k, r)] else [])" for n
      by (induction n) auto
    then show ?thesis using k by (simp add: notify_def)
  qed
  ultimately show ?thesis using job(2) by blast
qed

lemma sinks_end_stale_witness:
  "\<exists>s1 q1 s2 q2. update_locked ''a'' (cancel_job 1) (sample_store Running) = (s1, Some q1)
    \<and> update_locked ''a'' (done_job 2 ''/o'' ''local'' None 0 0) s1 = (s2, Some q2)
    \<and> job_status q2 = Done \<and> job_status q1 = Running"
  using sinks_end_stale [of "sample_store Running" "''a''" "sample_job ''a'' Running" 0 1 2
      "''/o''" "''local''" None 0 0 "\<lambda>_. []" 3 4] by auto

section \<open>Events\<close>

text \<open>When a job finishes, every subscriber with room in its buffer gets a last event that says
  done; a subscriber whose 16 places are taken gets nothing, so its last event is an older one.\<close>

theorem done_event_delivery:
  assumes inv: "chan_inv s" and job: "jobs s i = Some r" and c: "c \<in> set (listeners_of s i)"
  shows "\<exists>final. rsp_status final = Done
    \<and> chan_buf (finish_done fmt t1 t2 i art backend expires dl mx s) c =
        (if length (chan_buf s c) < 16 then chan_buf s c @ [final] else chan_buf s c)"
proof -
  let ?u = "s\<lparr>jobs := (jobs s)(i \<mapsto> done_job t1 art backend expires dl mx r)\<rparr>"
  have u: "chan_inv ?u" using inv by (simp add: chan_inv_cong [of ?u s])
  have "rsp_status (response_locked fmt t2 i ?u) = Done"
    by (simp add: response_locked_def done_job_def Let_def)
  with chan_buf_broadcast [OF u, of c i fmt t2] c job show ?thesis
    by (auto simp: finish_done_def update_def update_locked_Some listeners_of_def chan_capacity_def)
qed

lemma done_event_delivery_witness:
  "\<exists>s final. jobs s ''a'' = Some (sample_job ''a'' Running) \<and> rsp_status final = Done
    \<and> chan_buf (finish_done (\<lambda>_. []) 2 3 ''a'' ''/o'' ''local'' None 0 0 s) 0 = [final]"
proof -
  let ?s = "fst (subscribe_locked (\<lambda>_. []) 1 ''a'' (sample_store Running))"
  have inv: "chan_inv ?s"
    using sample_store_inv [of Running] by (intro chan_inv_subscribe) (simp add: store_inv_def)
  have s: "jobs ?s ''a'' = Some (sample_job ''a'' Running)" "0 \<in> set (listeners_of ?s ''a'')"
    "chan_buf ?s 0 = []"
    by (simp_all add: subscribe_locked_def listeners_of_def Let_def)
  from done_event_delivery [OF inv s(1,2), of "\<lambda>_. []" 2 3 "''/o''" "''local''" None 0 0] s
  show ?thesis by auto
qed

section \<open>Restarting\<close>

lemma restore_snoc: "restore (recs @ [r]) s = restore_one (restore recs s) r"
  by (simp add: restore_def)

lemma restore_pending_ids: "snd (restore_pending recs s) = ids_of recs"
  by (induction recs s rule: restore_pending.induct)
     (simp_all add: Let_def case_prod_beta requeued_def)

definition served :: "string \<Rightarrow> job_record option \<Rightarrow> bool" where
  "served k rec = (case rec of None \<Rightarrow> False
     | Some r \<Rightarrow> job_id r \<noteq> [] \<and> cache_key r = k \<and> k \<noteq> [] \<and> job_status r = Done)"

lemma restore_cache:
  "cache (restore recs s) k =
     (case find (served k) (rev recs) of Some (Some r) \<Rightarrow> Some (job_id r) | _ \<Rightarrow> cache s k)"
proof (induction recs rule: rev_induct)
  case Nil
  then show ?case by (simp add: restore_def)
next
  case (snoc x recs)
  then show ?case
    by (cases x) (auto simp: restore_snoc restore_one_def served_def Let_def split: option.splits)
qed

lemma restore_pending_cache: "cache (fst (restore_pending recs s)) = cache s"
  by (induction recs s rule: restore_pending.induct) (simp_all add: Let_def case_prod_beta)

lemma restore_pending_other:
  "j \<notin> set (ids_of recs) \<Longrightarrow> jobs (fst (restore_pending recs s)) j = jobs s j"
  by (induction recs s rule: restore_pending.induct)
     (auto simp: Let_def case_prod_beta requeued_def split: if_splits)

lemma restore_pending_job:
  "distinct (ids_of recs) \<Longrightarrow> Some r \<in> set recs \<Longrightarrow> job_id r \<noteq> [] \<Longrightarrow>
   jobs (fst (restore_pending recs s)) (job_id r) = Some (requeued r)"
proof (induction recs s rule: restore_pending.induct)
  case (3 q recs s)
  have idq: "job_id (requeued q) = job_id q" by (simp add: requeued_def)
  show ?case
  proof (cases "job_id q = []")
    case True
    with 3 show ?thesis by auto
  next
    case False
    let ?s = "s\<lparr>jobs := (jobs s)(job_id (requeued q) \<mapsto> requeued q)\<rparr>"
    have head: "fst (restore_pending (Some q # recs) s) = fst (restore_pending recs ?s)"
      using False by (simp add: Let_def case_prod_beta)
    show ?thesis
    proof (cases "Some r \<in> set recs")
      case True
      with 3(2) [OF False refl] 3(3,5) False show ?thesis unfolding head by simp
    next
      case other: False
      with 3(4) have "r = q" by simp
      with 3(3) False have "job_id r \<notin> set (ids_of recs)" by simp
      with \<open>r = q\<close> idq restore_pending_other [of "job_id q" recs ?s] show ?thesis
        unfolding head by simp
    qed
  qed
qed simp_all

text \<open>After a restart every pending job is queued again, with its errors, times and progress reset,
  its identity is handed to the queue in the order of the list, and a key is served from the cache
  by the last finished job with that key in the list the database returned; pending jobs are not
  in the cache.\<close>

theorem restart_spec:
  assumes "distinct (ids_of finished @ ids_of pending)"
  shows "snd (restore_pending pending (restore finished (new_store base sinks))) = ids_of pending
    \<and> (Some r \<in> set pending \<and> job_id r \<noteq> [] \<longrightarrow>
        (\<exists>q. jobs (restarted base sinks finished pending) (job_id r) = Some q
           \<and> job_status q = Queued \<and> job_error q = None \<and> error_code q = None
           \<and> started_at q = None \<and> finished_at q = None \<and> job_url q = job_url r
           \<and> job_options q = job_options r \<and> authorization q = authorization r
           \<and> job_progress q = zero_progress\<lparr>pg_stage := ''queued''\<rparr>))
    \<and> cache (restarted base sinks finished pending) k =
        (case find (served k) (rev finished) of Some (Some r) \<Rightarrow> Some (job_id r) | _ \<Rightarrow> None)"
  using assms
  by (auto simp: restarted_def restore_pending_ids restore_pending_job restore_pending_cache
      restore_cache requeued_def new_store_def split: option.split)

lemma restart_spec_witness:
  "snd (restore_pending [Some (sample_job ''b'' Running)]
      (restore [Some (sample_job ''a'' Done), Some (sample_job ''d'' Done)] (new_store [] 0))) = [''b'']
   \<and> cache (restarted [] 0 [Some (sample_job ''a'' Done), Some (sample_job ''d'' Done)]
        [Some (sample_job ''b'' Running)]) ''k'' = Some ''d''"
  using restart_spec [of "[Some (sample_job ''a'' Done), Some (sample_job ''d'' Done)]"
      "[Some (sample_job ''b'' Running)]" "[]" 0 "sample_job ''b'' Running" "''k''"]
  by (simp add: served_def)

end
