(* ===== verification/Disk_Monitor.thy ===== *)
theory Disk_Monitor
  imports Go_Prelude "HOL-Library.AList"
begin

unbundle bit_operations_syntax

text \<open>
  Package \<open>internal/storage\<close> (\<open>monitor.go\<close>): the free space of the data directory, and the
  reservations of the running jobs, all \<open>uint64\<close>. Sums saturate. The reservations are the entries
  of a Go map in some order; the sum over them does not depend on it.
\<close>

type_synonym u64 = "64 word"

section \<open>State and operations\<close>

record monitor =
  data_dir :: string
  min_free_bytes :: u64
  min_free_percent :: u64
  reservations :: "(string \<times> u64) list"

record capacity =
  cap_total :: u64
  cap_free :: u64
  cap_required :: u64
  cap_reserved :: u64
  cap_available :: bool

text \<open>What \<open>unix.Statfs\<close> reports: the fields the code reads, or the error.\<close>

record statfs =
  st_blocks :: u64
  st_bavail :: u64
  st_bsize :: u64

definition new_monitor :: "error option \<Rightarrow> string \<Rightarrow> int \<Rightarrow> int \<Rightarrow> monitor result" where
  "new_monitor mkdir_error dir min_bytes min_percent =
     (case mkdir_error of
        Some e \<Rightarrow> Inl e
      | None \<Rightarrow> Inr \<lparr>data_dir = dir, min_free_bytes = word_of_int (max min_bytes 0),
                     min_free_percent = word_of_int (min (max min_percent 0) 100),
                     reservations = []\<rparr>)"

definition saturated_add :: "u64 \<Rightarrow> u64 \<Rightarrow> u64" where
  "saturated_add l r = (if NOT 0 - l < r then NOT 0 else l + r)"

definition reserved_sum :: "(string \<times> u64) list \<Rightarrow> u64" where
  "reserved_sum rs = foldl saturated_add 0 (map snd rs)"

definition minimum_free :: "statfs \<Rightarrow> monitor \<Rightarrow> u64" where
  "minimum_free st m =
     max (min_free_bytes m) (st_blocks st * st_bsize st * min_free_percent m div 100)"

definition check :: "statfs result \<Rightarrow> monitor \<Rightarrow> capacity result" where
  "check stat m =
     (case stat of
        Inl e \<Rightarrow> Inl e
      | Inr st \<Rightarrow>
          (let total = st_blocks st * st_bsize st;
               free = st_bavail st * st_bsize st;
               reserved = reserved_sum (reservations m);
               required = saturated_add (minimum_free st m) reserved
           in Inr \<lparr>cap_total = total, cap_free = free, cap_required = required,
                   cap_reserved = reserved, cap_available = (free \<ge> required)\<rparr>))"

text \<open>A missing key of the Go map reads as zero. The error message's numbers are left out.\<close>

definition reservation :: "monitor \<Rightarrow> string \<Rightarrow> u64" where
  "reservation m i = (case map_of (reservations m) i of None \<Rightarrow> 0 | Some b \<Rightarrow> b)"

definition reserve :: "statfs result \<Rightarrow> string \<Rightarrow> u64 \<Rightarrow> monitor \<Rightarrow> monitor \<times> unit result" where
  "reserve stat i bytes m =
     (case check stat m of
        Inl e \<Rightarrow> (m, Inl e)
      | Inr cap \<Rightarrow>
          (let previous = reservation m i;
               required = saturated_add (cap_required cap - previous) bytes
           in if cap_free cap < required
              then (m, Inl (Wrap [] Insufficient_storage '': need bytes''))
              else (m\<lparr>reservations := AList.update i bytes (reservations m)\<rparr>, Inr ())))"

text \<open>The function \<open>Reserve\<close> returns on success.\<close>

definition release :: "string \<Rightarrow> monitor \<Rightarrow> monitor" where
  "release i m = m\<lparr>reservations := AList.delete i (reservations m)\<rparr>"

definition health :: "statfs result \<Rightarrow> monitor \<Rightarrow> error option" where
  "health stat m =
     (case check stat m of
        Inl e \<Rightarrow> Some e
      | Inr cap \<Rightarrow> if cap_available cap then None else Some (Err ''free bytes below required''))"

section \<open>Saturating addition\<close>

lemma unat_max_u64 [simp]: "unat (- 1 :: u64) = 18446744073709551615"
  by (simp add: unsigned_minus_1_eq_mask mask_eq_exp_minus_1)

lemma unat_u64_le: "unat (x :: u64) \<le> 18446744073709551615"
proof -
  have "unat x < 2 ^ LENGTH(64)" by (rule unsigned_less)
  then show ?thesis by simp
qed

lemma unat_saturated_add:
  "unat (saturated_add l r) = min 18446744073709551615 (unat l + unat r)"
proof -
  have l: "unat l \<le> 18446744073709551615" by (rule unat_u64_le)
  have d: "unat (NOT 0 - l) = 18446744073709551615 - unat l"
  proof -
    have "l \<le> NOT 0" by simp
    then show ?thesis by (simp add: unat_sub)
  qed
  show ?thesis
  proof (cases "NOT 0 - l < r")
    case True
    then have "18446744073709551615 - unat l < unat r"
      using d by (simp add: word_less_nat_alt)
    with True l show ?thesis by (simp add: saturated_add_def)
  next
    case False
    then have le: "unat l + unat r \<le> 18446744073709551615"
      using d l by (simp add: word_less_nat_alt)
    then have "unat (l + r) = unat l + unat r"
      by (intro unat_add_lem [THEN iffD1]) simp
    with False le show ?thesis by (simp add: saturated_add_def)
  qed
qed

interpretation sat: range_fold saturated_add
  by unfold_locales (rule word_unat_eq_iff [THEN iffD2], simp add: unat_saturated_add)

lemma unat_foldl_saturated:
  "unat (foldl saturated_add a xs) = min 18446744073709551615 (unat a + sum_list (map unat xs))"
proof (induction xs arbitrary: a)
  case Nil
  then show ?case using unat_u64_le [of a] by simp
next
  case (Cons x xs)
  then show ?case by (simp add: unat_saturated_add)
qed

text \<open>The reserved bytes as a natural number, with no bound.\<close>

definition booked :: "(string \<times> u64) list \<Rightarrow> nat" where
  "booked rs = sum_list (map (\<lambda>r. unat (snd r)) rs)"

lemma unat_reserved_sum: "unat (reserved_sum rs) = min 18446744073709551615 (booked rs)"
  by (simp add: reserved_sum_def unat_foldl_saturated booked_def o_def)

lemma booked_delete:
  "distinct (map fst rs) \<Longrightarrow>
   booked rs = (case map_of rs i of None \<Rightarrow> 0 | Some b \<Rightarrow> unat b) + booked (AList.delete i rs)"
proof (induction rs)
  case Nil
  then show ?case by (simp add: booked_def)
next
  case (Cons r rs)
  obtain j b where r: "r = (j, b)" by fastforce
  show ?case
  proof (cases "j = i")
    case True
    with Cons.prems r have "i \<notin> fst ` set rs" by auto
    then have "AList.delete i rs = rs" by (simp add: AList.delete_idem)
    with True r show ?thesis by (simp add: booked_def)
  next
    case False
    with Cons r show ?thesis by (simp add: booked_def)
  qed
qed

lemma booked_update:
  "distinct (map fst rs) \<Longrightarrow> booked (AList.update i b rs) = unat b + booked (AList.delete i rs)"
proof -
  assume d: "distinct (map fst rs)"
  have "AList.delete i (AList.update i b rs) = AList.delete i rs"
    by (rule AList.delete_update_same)
  with booked_delete [OF AList.distinct_update [OF d, of i b], of i] show ?thesis
    by (simp add: AList.update_conv')
qed

section \<open>Reservations\<close>

text \<open>The bytes other jobs hold.\<close>

definition booked_by_others :: "string \<Rightarrow> monitor \<Rightarrow> nat" where
  "booked_by_others i m = booked (AList.delete i (reservations m))"

definition monitor_wf :: "monitor \<Rightarrow> bool" where
  "monitor_wf m \<longleftrightarrow> distinct (map fst (reservations m))"

lemma monitor_wf_release: "monitor_wf m \<Longrightarrow> monitor_wf (release i m)"
  by (simp add: monitor_wf_def release_def AList.distinct_delete)

lemma monitor_wf_reserve: "monitor_wf m \<Longrightarrow> monitor_wf (fst (reserve stat i b m))"
  by (simp add: monitor_wf_def reserve_def AList.distinct_update Let_def split: sum.split)

lemma booked_split:
  "monitor_wf m \<Longrightarrow> booked (reservations m) = unat (reservation m i) + booked_by_others i m"
  using booked_delete [of "reservations m" i]
  by (simp add: monitor_wf_def reservation_def booked_by_others_def split: option.split)

text \<open>While the total stays below the range of \<open>uint64\<close>, the required space is exact.\<close>

lemma unat_required:
  assumes wf: "monitor_wf m"
    and fits: "unat (minimum_free st m) + booked (reservations m) < 18446744073709551616"
  shows "unat (saturated_add (saturated_add (minimum_free st m) (reserved_sum (reservations m))
        - reservation m i) b)
    = min 18446744073709551615 (unat (minimum_free st m) + booked_by_others i m + unat b)"
proof -
  let ?req = "saturated_add (minimum_free st m) (reserved_sum (reservations m))"
  have req: "unat ?req = unat (minimum_free st m) + booked (reservations m)"
    using fits by (simp add: unat_saturated_add unat_reserved_sum)
  have split: "booked (reservations m) = unat (reservation m i) + booked_by_others i m"
    by (rule booked_split [OF wf])
  have "reservation m i \<le> ?req"
    using req split by (simp add: word_le_nat_alt)
  then have "unat (?req - reservation m i) = unat (minimum_free st m) + booked_by_others i m"
    using req split by (simp add: unat_sub)
  then show ?thesis by (simp add: unat_saturated_add)
qed

lemma reserve_exact:
  assumes wf: "monitor_wf m"
    and fits: "unat (minimum_free st m) + booked (reservations m) < 18446744073709551616"
    and free: "unat (st_bavail st * st_bsize st) < 18446744073709551615"
    and res: "reserve (Inr st) i b m = (m', r)"
  shows "if unat (minimum_free st m) + booked_by_others i m + unat b
           \<le> unat (st_bavail st * st_bsize st)
         then r = Inr () \<and> map_of (reservations m') = (map_of (reservations m))(i \<mapsto> b)
           \<and> booked (reservations m') = booked_by_others i m + unat b
         else m' = m \<and> (\<exists>e. r = Inl e \<and> errors_is e Insufficient_storage)"
proof -
  let ?req = "saturated_add (saturated_add (minimum_free st m) (reserved_sum (reservations m))
        - reservation m i) b"
  have guard: "st_bavail st * st_bsize st < ?req \<longleftrightarrow>
      \<not> unat (minimum_free st m) + booked_by_others i m + unat b \<le> unat (st_bavail st * st_bsize st)"
    using unat_required [OF wf fits, of i b] free by (auto simp: word_less_nat_alt)
  have d: "distinct (map fst (reservations m))" using wf by (simp add: monitor_wf_def)
  from res guard booked_update [OF d, of i b] show ?thesis
    by (auto simp: reserve_def check_def Let_def AList.update_conv' booked_by_others_def
        split: if_splits)
qed

text \<open>Reserve admits a job exactly when the free space covers the configured minimum, what the
  other jobs hold and the request, in exact arithmetic; it then records the request in place of
  an earlier one of the same job, and otherwise changes nothing and returns the typed
  \<open>ErrInsufficientStorage\<close>. (The total stays below the range of \<open>uint64\<close>.)\<close>

theorem reserve_spec:
  assumes wf: "monitor_wf m"
    and fits: "unat (minimum_free st m) + booked (reservations m) < 18446744073709551616"
    and free: "unat (st_bavail st * st_bsize st) < 18446744073709551615"
    and res: "reserve (Inr st) i b m = (m', r)"
  shows "if unat (minimum_free st m) + booked_by_others i m + unat b
           \<le> unat (st_bavail st * st_bsize st)
         then r = Inr () \<and> map_of (reservations m') = (map_of (reservations m))(i \<mapsto> b)
           \<and> booked (reservations m') = booked_by_others i m + unat b
         else m' = m \<and> (\<exists>e. r = Inl e \<and> errors_is e Insufficient_storage)"
  by (rule reserve_exact [OF assms])

definition sample_stat :: statfs where
  "sample_stat = \<lparr>st_blocks = 1000, st_bavail = 500, st_bsize = 10\<rparr>"

definition sample_monitor :: "(string \<times> u64) list \<Rightarrow> monitor" where
  "sample_monitor rs = \<lparr>data_dir = ''/data'', min_free_bytes = 100, min_free_percent = 20,
                        reservations = rs\<rparr>"

lemma sample_minimum: "minimum_free sample_stat (sample_monitor rs) = 2000"
  by (simp add: minimum_free_def sample_stat_def sample_monitor_def)

lemma reserve_spec_witness:
  "\<exists>m' m'' e. reserve (Inr sample_stat) ''j'' 900 (sample_monitor [(''i'', 2000)]) = (m', Inr ())
     \<and> booked (reservations m') = 2900
     \<and> reserve (Inr sample_stat) ''j'' 1001 (sample_monitor [(''i'', 2000)]) = (m'', Inl e)
     \<and> errors_is e Insufficient_storage"
proof -
  have a: "monitor_wf (sample_monitor [(''i'', 2000)])"
    "unat (minimum_free sample_stat (sample_monitor [(''i'', 2000)]))
      + booked (reservations (sample_monitor [(''i'', 2000)])) < 18446744073709551616"
    "unat (st_bavail sample_stat * st_bsize sample_stat) < 18446744073709551615"
    by (simp_all add: monitor_wf_def sample_monitor_def minimum_free_def sample_stat_def booked_def)
  show ?thesis
    using reserve_spec [OF a surjective_pairing [of "reserve (Inr sample_stat) ''j'' 900 _"]]
      reserve_spec [OF a surjective_pairing [of "reserve (Inr sample_stat) ''j'' 1001 _"]]
    by (simp add: sample_minimum prod_eq_iff)
       (auto simp: sample_stat_def sample_monitor_def booked_by_others_def booked_def)
qed

text \<open>Releasing ends exactly the job's own reservation; after a reservation that was admitted, it
  restores what every job holds to the state before, without the job.\<close>

theorem release_spec:
  assumes "reserve stat i b m = (m', Inr ())"
  shows "map_of (reservations (release i m')) = (map_of (reservations m))(i := None)"
proof -
  have "reservations m' = AList.update i b (reservations m)"
    using assms by (auto simp: reserve_def Let_def split: sum.splits if_splits)
  then show ?thesis
    by (simp add: release_def AList.delete_conv' AList.update_conv' fun_eq_iff)
qed

lemma release_spec_witness:
  "map_of (reservations (release ''j'' (fst (reserve (Inr sample_stat) ''j'' 900 (sample_monitor []))))) = Map.empty"
proof -
  have "reserve (Inr sample_stat) ''j'' 900 (sample_monitor [])
      = (fst (reserve (Inr sample_stat) ''j'' 900 (sample_monitor [])), Inr ())"
    by (simp add: reserve_def check_def reserved_sum_def reservation_def saturated_add_def
        minimum_free_def sample_stat_def sample_monitor_def Let_def)
  from release_spec [OF this] show ?thesis by (simp add: sample_monitor_def)
qed

text \<open>Any sequence of reservations and releases, at a steady level of free space.\<close>

inductive booking :: "statfs \<Rightarrow> monitor \<Rightarrow> monitor \<Rightarrow> bool" for st m0 where
  booking_start: "reservations m0 = [] \<Longrightarrow> booking st m0 m0"
| booking_reserve: "booking st m0 m \<Longrightarrow> booking st m0 (fst (reserve (Inr st) i b m))"
| booking_release: "booking st m0 m \<Longrightarrow> booking st m0 (release i m)"

lemma minimum_free_cong:
  "minimum_free st (m\<lparr>reservations := rs\<rparr>) = minimum_free st m"
  by (simp add: minimum_free_def)

lemma booked_delete_le: "monitor_wf m \<Longrightarrow> booked_by_others i m \<le> booked (reservations m)"
  using booked_split [of m i] by simp

lemma booking_bound:
  assumes min: "unat (minimum_free st m0) \<le> unat (st_bavail st * st_bsize st)"
    and free: "unat (st_bavail st * st_bsize st) < 18446744073709551615"
  shows "booking st m0 m \<Longrightarrow> monitor_wf m \<and> minimum_free st m = minimum_free st m0
    \<and> unat (minimum_free st m) + booked (reservations m) \<le> unat (st_bavail st * st_bsize st)"
proof (induction rule: booking.induct)
  case booking_start
  with min show ?case by (simp add: monitor_wf_def booked_def)
next
  case (booking_reserve m i b)
  then have wf: "monitor_wf m"
    and ih: "unat (minimum_free st m) + booked (reservations m) \<le> unat (st_bavail st * st_bsize st)"
    and eq: "minimum_free st m = minimum_free st m0" by auto
  from ih free have "unat (minimum_free st m) + booked (reservations m) < 18446744073709551616"
    by simp
  note spec = reserve_exact [OF wf this free surjective_pairing [of "reserve (Inr st) i b m"]]
  have "minimum_free st (fst (reserve (Inr st) i b m)) = minimum_free st m"
    by (simp add: reserve_def check_def Let_def minimum_free_cong)
  with spec ih eq monitor_wf_reserve [OF wf] show ?case
    by (auto split: if_splits)
next
  case (booking_release m i)
  then have "booked (reservations (release i m)) \<le> booked (reservations m)"
    using booked_delete_le [of m i] by (simp add: release_def booked_by_others_def)
  moreover have "minimum_free st (release i m) = minimum_free st m"
    by (simp add: release_def minimum_free_cong)
  ultimately show ?case
    using booking_release monitor_wf_release [of m i] by (metis add_left_mono order_trans)
qed



text \<open>The capacity does not depend on the order in which Go enumerates the reservations.\<close>

theorem check_order_free:
  assumes "mset rs = mset rs'"
  shows "check stat (m\<lparr>reservations := rs\<rparr>) = check stat (m\<lparr>reservations := rs'\<rparr>)"
proof -
  have "mset (map snd rs) = mset (map snd rs')" using assms by simp
  then have "reserved_sum rs = reserved_sum rs'"
    unfolding reserved_sum_def by (rule sat.range_order_free)
  then show ?thesis by (simp add: check_def minimum_free_cong split: sum.split)
qed

lemma check_order_free_witness:
  "check (Inr sample_stat) (sample_monitor [(''a'', 1), (''b'', 2)])
   = check (Inr sample_stat) (sample_monitor [(''b'', 2), (''a'', 1)])"
  using check_order_free [of "[(''a'', 1), (''b'', 2)]" "[(''b'', 2), (''a'', 1)]" "Inr sample_stat"
      "sample_monitor []"]
  by (simp add: sample_monitor_def)

end
