(* ===== verification/Selector.thy ===== *)
theory Selector
  imports Go_Strings
begin

text \<open>
  Packages \<open>internal/typetype\<close> (\<open>models.go\<close>, the streams the server offers) and
  \<open>internal/selector\<close>: which video and audio stream a job downloads. Both selections are one loop
  that keeps the best acceptable stream so far; its contract is the locale \<open>picking\<close>.
\<close>

section \<open>Streams\<close>

record video_item =
  v_url :: string
  v_mime_type :: string
  v_format :: string
  v_resolution :: string
  v_bitrate :: "int option"
  v_codec :: "string option"
  v_is_video_only :: bool
  v_itag :: int
  v_width :: int
  v_height :: int
  v_fps :: int
  v_content_length :: int
  v_init_start :: int
  v_init_end :: int
  v_index_start :: int
  v_index_end :: int
  v_delivery_method :: string
  v_manifest_url :: string
  v_sabr_session_url :: string

record audio_item =
  a_url :: string
  a_mime_type :: string
  a_format :: string
  a_bitrate :: "int option"
  a_codec :: "string option"
  a_quality :: "string option"
  a_itag :: int
  a_content_length :: int
  a_init_start :: int
  a_init_end :: int
  a_index_start :: int
  a_index_end :: int
  a_audio_track_id :: "string option"
  a_audio_track_name :: "string option"
  a_audio_locale :: "string option"
  a_is_original :: bool
  a_delivery_method :: string
  a_manifest_url :: string
  a_sabr_session_url :: string

record stream_response =
  sr_id :: string
  sr_title :: string
  sr_duration :: int
  sr_video_streams :: "video_item list"
  sr_video_only_streams :: "video_item list"
  sr_audio_streams :: "audio_item list"
  sr_original_audio_track_id :: "string option"
  sr_preferred_default_audio_id :: "string option"
  sr_hls_url :: string
  sr_dash_mpd_url :: string

record selection =
  sel_title :: string
  sel_video :: video_item
  sel_audio :: audio_item
  sel_container :: string

record audio_selection =
  as_title :: string
  as_audio :: audio_item
  as_container :: string

record sel_options =
  so_container :: string
  so_max_height :: int
  so_video_codec_prefix :: string
  so_audio_codec_prefix :: string
  so_video_itag :: int
  so_audio_itag :: int

section \<open>Ranking\<close>

definition playable_video :: "video_item \<Rightarrow> bool" where
  "playable_video v \<longleftrightarrow>
     v_url v \<noteq> [] \<or> v_delivery_method v = ''sabr'' \<and> v_manifest_url v \<noteq> []"

definition playable_audio :: "audio_item \<Rightarrow> bool" where
  "playable_audio a \<longleftrightarrow>
     a_url a \<noteq> [] \<or> a_delivery_method a = ''sabr'' \<and> a_manifest_url a \<noteq> []"

definition stream_bitrate :: "int option \<Rightarrow> int" where
  "stream_bitrate v = (case v of None \<Rightarrow> 0 | Some b \<Rightarrow> b)"

definition string_value :: "string option \<Rightarrow> string" where
  "string_value v = (case v of None \<Rightarrow> [] | Some s \<Rightarrow> s)"

definition codec_matches :: "string \<Rightarrow> string \<Rightarrow> bool" where
  "codec_matches codec prefix \<longleftrightarrow> codec = [] \<or> has_prefix (to_lower codec) (to_lower prefix)"

definition audio_rank :: "string option \<Rightarrow> audio_item \<Rightarrow> int" where
  "audio_rank preferred a =
     (let r0 = stream_bitrate (a_bitrate a);
          r1 = (if preferred \<noteq> None \<and> a_audio_track_id a \<noteq> None \<and> preferred = a_audio_track_id a
                then add64 r0 1000000 else r0)
      in if a_is_original a then add64 r1 500000 else r1)"

section \<open>Selecting\<close>

text \<open>The loop of \<open>selectVideo\<close> and \<open>selectAudio\<close>: streams that are not \<open>ok\<close> are skipped by
  \<open>continue\<close>; the first acceptable one, and then every better one, becomes \<open>best\<close>.\<close>

fun pick_loop :: "('a \<Rightarrow> bool) \<Rightarrow> ('a \<Rightarrow> 'a \<Rightarrow> bool) \<Rightarrow> 'a option \<Rightarrow> 'a list \<Rightarrow> 'a option" where
  "pick_loop ok better best [] = best"
| "pick_loop ok better best (x # xs) =
     (if \<not> ok x then pick_loop ok better best xs
      else pick_loop ok better
        (case best of None \<Rightarrow> Some x | Some b \<Rightarrow> if better x b then Some x else best) xs)"

definition video_ok :: "sel_options \<Rightarrow> video_item \<Rightarrow> bool" where
  "video_ok opts v \<longleftrightarrow>
     \<not> (so_video_itag opts > 0 \<and> v_itag v \<noteq> so_video_itag opts)
     \<and> playable_video v \<and> contains (v_mime_type v) (so_container opts)
     \<and> codec_matches (string_value (v_codec v)) (so_video_codec_prefix opts)
     \<and> \<not> (so_max_height opts > 0 \<and> v_height v > so_max_height opts)"

definition video_better :: "video_item \<Rightarrow> video_item \<Rightarrow> bool" where
  "video_better v best \<longleftrightarrow>
     v_height v > v_height best
     \<or> v_height v = v_height best \<and> stream_bitrate (v_bitrate v) > stream_bitrate (v_bitrate best)"

definition select_video :: "video_item list \<Rightarrow> sel_options \<Rightarrow> video_item option" where
  "select_video streams opts = pick_loop (video_ok opts) video_better None streams"

definition audio_ok :: "sel_options \<Rightarrow> audio_item \<Rightarrow> bool" where
  "audio_ok opts a \<longleftrightarrow>
     \<not> (so_audio_itag opts > 0 \<and> a_itag a \<noteq> so_audio_itag opts)
     \<and> playable_audio a \<and> contains (a_mime_type a) (so_container opts)
     \<and> codec_matches (string_value (a_codec a)) (so_audio_codec_prefix opts)"

definition audio_better :: "string option \<Rightarrow> audio_item \<Rightarrow> audio_item \<Rightarrow> bool" where
  "audio_better preferred a best \<longleftrightarrow> audio_rank preferred a > audio_rank preferred best"

definition select_audio :: "audio_item list \<Rightarrow> string option \<Rightarrow> sel_options \<Rightarrow> audio_item option" where
  "select_audio streams preferred opts = pick_loop (audio_ok opts) (audio_better preferred) None streams"

text \<open>The defaults \<open>SelectMP4WithOptions\<close> fills in.\<close>

definition effective_options :: "sel_options \<Rightarrow> sel_options" where
  "effective_options opts =
     (let o1 = (if so_container opts = [] then opts\<lparr>so_container := ''mp4''\<rparr> else opts);
          o2 = (if so_max_height o1 \<le> 0 then o1\<lparr>so_max_height := 1080\<rparr> else o1);
          o3 = (if so_video_codec_prefix o2 = []
                then if so_container o2 = ''webm'' then o2\<lparr>so_video_codec_prefix := ''vp9''\<rparr>
                     else o2\<lparr>so_video_codec_prefix := ''avc1''\<rparr>
                else o2)
      in if so_audio_codec_prefix o3 = []
         then if so_container o3 = ''webm'' then o3\<lparr>so_audio_codec_prefix := ''opus''\<rparr>
              else o3\<lparr>so_audio_codec_prefix := ''mp4a''\<rparr>
         else o3)"

definition audio_options_for :: "video_item \<Rightarrow> sel_options \<Rightarrow> sel_options" where
  "audio_options_for video opts =
     (if v_delivery_method video = ''sabr''
      then opts\<lparr>so_container := ''mp4'', so_audio_codec_prefix := ''mp4a''\<rparr> else opts)"

definition select_mp4_with_options :: "stream_response \<Rightarrow> sel_options \<Rightarrow> selection result" where
  "select_mp4_with_options stream options =
     (let opts = effective_options options
      in case select_video (sr_video_only_streams stream) opts of
           None \<Rightarrow> Inl (Err (''no compatible mp4 video-only stream for codec ''
                              @ so_video_codec_prefix opts))
         | Some video \<Rightarrow>
             (let audio_opts = audio_options_for video opts;
                  out = (if v_delivery_method video = ''sabr'' then ''mp4'' else so_container opts)
              in case select_audio (sr_audio_streams stream)
                        (sr_preferred_default_audio_id stream) audio_opts of
                   None \<Rightarrow> Inl (Err (''no compatible m4a audio stream for codec ''
                                      @ so_audio_codec_prefix audio_opts))
                 | Some audio \<Rightarrow> Inr \<lparr>sel_title = sr_title stream, sel_video = video,
                                     sel_audio = audio, sel_container = out\<rparr>))"

definition select_mp4 :: "stream_response \<Rightarrow> int \<Rightarrow> selection result" where
  "select_mp4 stream max_height = select_mp4_with_options stream
     \<lparr>so_container = [], so_max_height = max_height, so_video_codec_prefix = ''avc1'',
      so_audio_codec_prefix = ''mp4a'', so_video_itag = 0, so_audio_itag = 0\<rparr>"

definition audio_output_container :: "string \<Rightarrow> string" where
  "audio_output_container container =
     (let c = trim_space (to_lower container)
      in if c = ''webm'' \<or> c = ''opus'' then ''webm'' else ''m4a'')"

definition select_audio_only :: "stream_response \<Rightarrow> sel_options \<Rightarrow> audio_selection result" where
  "select_audio_only stream opts =
     (let container = audio_output_container (so_container opts);
          match_container = (if container = ''m4a'' then ''mp4'' else container);
          codec = (if so_audio_codec_prefix opts = []
                   then if match_container = ''webm'' then ''opus'' else ''mp4a''
                   else so_audio_codec_prefix opts)
      in case select_audio (sr_audio_streams stream) (sr_preferred_default_audio_id stream)
                (opts\<lparr>so_container := match_container, so_audio_codec_prefix := codec\<rparr>) of
           None \<Rightarrow> Inl (Err (''no compatible audio stream for codec '' @ codec))
         | Some audio \<Rightarrow> Inr \<lparr>as_title = sr_title stream, as_audio = audio,
                             as_container = container\<rparr>)"

section \<open>The contract of the loop\<close>

text \<open>\<open>better\<close> is a strict weak order: then the loop returns the first of the best.\<close>

locale picking =
  fixes better :: "'a \<Rightarrow> 'a \<Rightarrow> bool"
  assumes better_asym: "better x y \<Longrightarrow> \<not> better y x"
    and better_negtrans: "\<not> better x y \<Longrightarrow> \<not> better y z \<Longrightarrow> \<not> better x z"
begin

definition first_best :: "('a \<Rightarrow> bool) \<Rightarrow> 'a list \<Rightarrow> 'a \<Rightarrow> bool" where
  "first_best ok xs b \<longleftrightarrow>
     (\<exists>ys zs. xs = ys @ b # zs \<and> ok b \<and> (\<forall>y\<in>set ys. ok y \<longrightarrow> better b y)
        \<and> (\<forall>z\<in>set zs. ok z \<longrightarrow> \<not> better z b))"

lemma better_irrefl: "\<not> better x x"
  using better_asym by blast

lemma better_trans: "better x y \<Longrightarrow> better y z \<Longrightarrow> better x z"
  using better_asym better_negtrans by blast

lemma better_mono: "better x b \<Longrightarrow> \<not> better y b \<Longrightarrow> better x y"
  using better_negtrans by blast

lemma first_best_here:
  "ok x \<Longrightarrow> (\<forall>y\<in>set xs. ok y \<longrightarrow> \<not> better y x) \<Longrightarrow> first_best ok (x # xs) x"
  unfolding first_best_def by (intro exI [of _ "[]"] exI [of _ xs]) simp

lemma first_best_later:
  assumes "first_best ok xs c" and "ok x \<longrightarrow> better c x"
  shows "first_best ok (x # xs) c"
proof -
  from assms(1) obtain ys zs where "xs = ys @ c # zs" "ok c" "\<forall>y\<in>set ys. ok y \<longrightarrow> better c y"
    "\<forall>z\<in>set zs. ok z \<longrightarrow> \<not> better z c" by (auto simp: first_best_def)
  with assms(2) show ?thesis
    unfolding first_best_def by (intro exI [of _ "x # ys"] exI [of _ zs]) simp
qed

lemma pick_loop_Some:
  "pick_loop ok better (Some b) xs = Some c \<Longrightarrow>
     c = b \<and> (\<forall>x\<in>set xs. ok x \<longrightarrow> \<not> better x b)
     \<or> better c b \<and> first_best ok xs c"
proof (induction xs arbitrary: b)
  case Nil
  then show ?case by simp
next
  case (Cons x xs)
  show ?case
  proof (cases "ok x \<and> better x b")
    case True
    with Cons.prems have "pick_loop ok better (Some x) xs = Some c" by simp
    from Cons.IH [OF this] True show ?thesis
      by (auto intro: first_best_here first_best_later dest: better_trans)
  next
    case False
    with Cons.prems have "pick_loop ok better (Some b) xs = Some c" by (auto split: if_splits)
    from Cons.IH [OF this] False show ?thesis
      by (auto intro: first_best_later better_mono)
  qed
qed

lemma pick_loop_defined: "pick_loop ok better (Some b) xs \<noteq> None"
  by (induction xs arbitrary: b) auto

lemma pick_None: "pick_loop ok better None xs = None \<longleftrightarrow> (\<forall>x\<in>set xs. \<not> ok x)"
  by (induction xs) (auto simp: pick_loop_defined)

lemma pick_first_best: "pick_loop ok better None xs = Some c \<Longrightarrow> first_best ok xs c"
proof (induction xs)
  case Nil
  then show ?case by simp
next
  case (Cons x xs)
  show ?case
  proof (cases "ok x")
    case True
    with Cons.prems have "pick_loop ok better (Some x) xs = Some c" by simp
    from pick_loop_Some [OF this] True show ?thesis
      by (auto intro: first_best_here first_best_later)
  next
    case False
    with Cons show ?thesis by (auto intro: first_best_later)
  qed
qed

lemma first_best_mem: "first_best ok xs b \<Longrightarrow> b \<in> set xs \<and> ok b"
  by (auto simp: first_best_def)

lemma first_best_max:
  assumes "first_best ok xs b" and "x \<in> set xs" and "ok x"
  shows "\<not> better x b"
proof -
  from assms(1) obtain ys zs where d: "xs = ys @ b # zs" "\<forall>y\<in>set ys. ok y \<longrightarrow> better b y"
    "\<forall>z\<in>set zs. ok z \<longrightarrow> \<not> better z b" by (auto simp: first_best_def)
  from assms(2) d(1) consider "x \<in> set ys" | "x = b" | "x \<in> set zs" by auto
  then show ?thesis
    by cases (use d assms(3) better_asym better_irrefl in blast)+
qed

lemma pick_optimal:
  "pick_loop ok better None xs = Some b \<Longrightarrow>
     b \<in> set xs \<and> ok b \<and> (\<forall>x\<in>set xs. ok x \<longrightarrow> \<not> better x b)"
  using pick_first_best first_best_mem first_best_max by metis

end

interpretation video_pick: picking video_better
  by unfold_locales (auto simp: video_better_def)

interpretation audio_pick: picking "audio_better preferred" for preferred
  by unfold_locales (auto simp: audio_better_def)

section \<open>What is selected\<close>

lemma effective_options_facts:
  "so_max_height (effective_options opts) > 0"
  "so_container (effective_options opts) \<noteq> []"
  "so_video_itag (effective_options opts) = so_video_itag opts"
  "so_audio_itag (effective_options opts) = so_audio_itag opts"
  "so_max_height opts > 0 \<Longrightarrow> so_max_height (effective_options opts) = so_max_height opts"
  by (simp_all add: effective_options_def Let_def)

text \<open>A successful selection has a playable video stream of the container and codec asked for, of
  the requested itag if one is given, never above the height limit (1080 by default); no other
  acceptable stream is higher, or as high with a greater bitrate.\<close>

theorem select_video_optimal:
  assumes sel: "select_mp4_with_options stream options = Inr sel"
  defines "opts \<equiv> effective_options options"
  shows "sel_video sel \<in> set (sr_video_only_streams stream)
    \<and> video_ok opts (sel_video sel) \<and> v_height (sel_video sel) \<le> so_max_height opts
    \<and> (\<forall>v\<in>set (sr_video_only_streams stream). video_ok opts v \<longrightarrow>
          v_height v < v_height (sel_video sel)
          \<or> v_height v = v_height (sel_video sel)
             \<and> stream_bitrate (v_bitrate v) \<le> stream_bitrate (v_bitrate (sel_video sel)))"
proof -
  from sel have pick: "select_video (sr_video_only_streams stream) opts = Some (sel_video sel)"
    by (auto simp: select_mp4_with_options_def opts_def Let_def split: option.splits)
  from video_pick.pick_optimal [OF pick [unfolded select_video_def]]
  have ok: "sel_video sel \<in> set (sr_video_only_streams stream)" "video_ok opts (sel_video sel)"
    "\<forall>v\<in>set (sr_video_only_streams stream). video_ok opts v \<longrightarrow> \<not> video_better v (sel_video sel)"
    by auto
  have "so_max_height opts > 0" by (simp add: opts_def effective_options_facts)
  with ok(2) have "v_height (sel_video sel) \<le> so_max_height opts"
    by (auto simp: video_ok_def)
  with ok show ?thesis by (force simp: video_better_def)
qed

definition sample_video :: "int \<Rightarrow> int \<Rightarrow> string \<Rightarrow> video_item" where
  "sample_video h b delivery =
     \<lparr>v_url = ''http://v'', v_mime_type = ''video/mp4'', v_format = [], v_resolution = [],
      v_bitrate = Some b, v_codec = Some ''avc1.64'', v_is_video_only = True, v_itag = 137,
      v_width = 0, v_height = h, v_fps = 30, v_content_length = 1000, v_init_start = 0,
      v_init_end = 0, v_index_start = 0, v_index_end = 0, v_delivery_method = delivery,
      v_manifest_url = [], v_sabr_session_url = []\<rparr>"

definition sample_audio :: "int \<Rightarrow> string option \<Rightarrow> bool \<Rightarrow> audio_item" where
  "sample_audio b track original =
     \<lparr>a_url = ''http://a'', a_mime_type = ''audio/mp4'', a_format = [], a_bitrate = Some b,
      a_codec = Some ''mp4a.40'', a_quality = None, a_itag = 140, a_content_length = 500,
      a_init_start = 0, a_init_end = 0, a_index_start = 0, a_index_end = 0,
      a_audio_track_id = track, a_audio_track_name = None, a_audio_locale = None,
      a_is_original = original, a_delivery_method = [], a_manifest_url = [],
      a_sabr_session_url = []\<rparr>"

definition sample_stream :: "video_item list \<Rightarrow> audio_item list \<Rightarrow> string option \<Rightarrow> stream_response" where
  "sample_stream vs as preferred =
     \<lparr>sr_id = [], sr_title = ''t'', sr_duration = 10, sr_video_streams = [],
      sr_video_only_streams = vs, sr_audio_streams = as, sr_original_audio_track_id = None,
      sr_preferred_default_audio_id = preferred, sr_hls_url = [], sr_dash_mpd_url = []\<rparr>"

definition no_options :: sel_options where
  "no_options = \<lparr>so_container = [], so_max_height = 0, so_video_codec_prefix = [],
     so_audio_codec_prefix = [], so_video_itag = 0, so_audio_itag = 0\<rparr>"

lemmas sample_defs = sample_video_def sample_audio_def sample_stream_def no_options_def

lemma sample_selection:
  "select_mp4_with_options (sample_stream [sample_video 720 9 [], sample_video 1080 5 [], sample_video 1440 5 []]
      [sample_audio 1 None False] None) no_options
   = Inr \<lparr>sel_title = ''t'', sel_video = sample_video 1080 5 [], sel_audio = sample_audio 1 None False,
          sel_container = ''mp4''\<rparr>"
  by (simp add: sample_defs select_mp4_with_options_def effective_options_def select_video_def
      select_audio_def video_ok_def audio_ok_def video_better_def playable_video_def
      playable_audio_def codec_matches_def string_value_def has_prefix_def to_lower_def
      lower_char_def stream_bitrate_def audio_options_for_def Let_def)

lemma select_video_optimal_witness:
  "\<exists>sel. select_mp4_with_options (sample_stream [sample_video 720 9 [], sample_video 1080 5 [], sample_video 1440 5 []]
      [sample_audio 1 None False] None) no_options = Inr sel
    \<and> v_height (sel_video sel) \<le> so_max_height (effective_options no_options)"
  using sample_selection select_video_optimal [OF sample_selection] by blast

text \<open>Selection fails exactly when no video stream is acceptable, or no audio stream is acceptable
  with the video chosen; a request is never refused while an acceptable pair exists.\<close>

theorem select_complete:
  shows "(\<exists>e. select_mp4_with_options stream options = Inl e) \<longleftrightarrow>
     (\<forall>v\<in>set (sr_video_only_streams stream). \<not> video_ok (effective_options options) v)
     \<or> (\<exists>v. select_video (sr_video_only_streams stream) (effective_options options) = Some v
          \<and> (\<forall>a\<in>set (sr_audio_streams stream).
               \<not> audio_ok (audio_options_for v (effective_options options)) a))"
proof -
  have "select_video vs opts = None \<longleftrightarrow> (\<forall>v\<in>set vs. \<not> video_ok opts v)" for vs opts
    by (simp add: select_video_def video_pick.pick_None)
  moreover have "select_audio as p opts = None \<longleftrightarrow> (\<forall>a\<in>set as. \<not> audio_ok opts a)" for as p opts
    by (simp add: select_audio_def audio_pick.pick_None)
  ultimately show ?thesis
    by (auto simp: select_mp4_with_options_def Let_def split: option.splits)
       (metis option.distinct(1))+
qed

lemma select_complete_witness:
  "\<exists>e. select_mp4_with_options (sample_stream [] [sample_audio 1 None False] None) no_options = Inl e"
  using select_complete [of "sample_stream [] [sample_audio 1 None False] None" no_options]
  by (simp add: sample_stream_def)

text \<open>A video delivered through SABR is always paired with an mp4a audio stream in an mp4 container,
  whatever container or audio codec the request names; otherwise the container is the one asked
  for.\<close>

theorem select_sabr_mp4:
  assumes sel: "select_mp4_with_options stream options = Inr sel"
  shows "if v_delivery_method (sel_video sel) = ''sabr''
    then sel_container sel = ''mp4'' \<and> contains (a_mime_type (sel_audio sel)) ''mp4''
      \<and> codec_matches (string_value (a_codec (sel_audio sel))) ''mp4a''
    else sel_container sel = (if so_container options = [] then ''mp4'' else so_container options)
      \<and> contains (a_mime_type (sel_audio sel)) (sel_container sel)"
proof -
  from sel obtain opts where o: "opts = effective_options options"
    and a: "select_audio (sr_audio_streams stream) (sr_preferred_default_audio_id stream)
        (audio_options_for (sel_video sel) opts) = Some (sel_audio sel)"
    and c: "sel_container sel = (if v_delivery_method (sel_video sel) = ''sabr'' then ''mp4'' else so_container opts)"
    by (auto simp: select_mp4_with_options_def Let_def split: option.splits)
  from audio_pick.pick_optimal [OF a [unfolded select_audio_def]]
  have "audio_ok (audio_options_for (sel_video sel) opts) (sel_audio sel)" by simp
  moreover have "so_container opts = (if so_container options = [] then ''mp4'' else so_container options)"
    by (simp add: o effective_options_def Let_def)
  ultimately show ?thesis
    using c by (auto simp: audio_ok_def audio_options_for_def split: if_splits)
qed

lemma select_sabr_mp4_witness:
  "\<exists>sel. select_mp4_with_options (sample_stream [sample_video 720 9 [], sample_video 1080 5 [], sample_video 1440 5 []]
      [sample_audio 1 None False] None) no_options = Inr sel \<and> sel_container sel = ''mp4''"
  using select_sabr_mp4 [OF sample_selection] sample_selection by auto

lemma audio_rank_small:
  assumes "0 \<le> stream_bitrate (a_bitrate a)" "stream_bitrate (a_bitrate a) < 500000"
  shows "audio_rank p a = stream_bitrate (a_bitrate a)
    + (if p \<noteq> None \<and> p = a_audio_track_id a then 1000000 else 0)
    + (if a_is_original a then 500000 else 0)"
  using assms by (auto simp: audio_rank_def Let_def wrap64_id)

text \<open>For bitrates below 500 kbit/s the ranking is lexicographic: a stream of the preferred track
  beats every other, then an original beats a dub, then the bitrate decides.\<close>

theorem select_audio_preferred:
  assumes sel: "select_audio streams preferred opts = Some best"
    and a: "a \<in> set streams" "audio_ok opts a"
    and rates: "\<And>x. x \<in> set streams \<Longrightarrow> 0 \<le> stream_bitrate (a_bitrate x)
      \<and> stream_bitrate (a_bitrate x) < 500000"
  shows "(preferred \<noteq> None \<and> a_audio_track_id a = preferred \<longrightarrow> a_audio_track_id best = preferred)
    \<and> ((a_audio_track_id a = preferred) = (a_audio_track_id best = preferred) \<longrightarrow>
        (a_is_original a \<longrightarrow> a_is_original best)
        \<and> (a_is_original a = a_is_original best \<longrightarrow>
            stream_bitrate (a_bitrate a) \<le> stream_bitrate (a_bitrate best)))"
proof -
  from audio_pick.pick_optimal [OF sel [unfolded select_audio_def]] a
  have "best \<in> set streams" "audio_rank preferred a \<le> audio_rank preferred best"
    by (auto simp: audio_better_def)
  with rates [of a] rates [of best] a show ?thesis
    by (auto simp: audio_rank_small split: if_splits)
qed

lemma select_audio_preferred_witness:
  "\<exists>best. select_audio [sample_audio 400000 (Some ''en'') True, sample_audio 1 (Some ''fr'') False]
      (Some ''fr'') (no_options\<lparr>so_container := ''mp4''\<rparr>) = Some best \<and> a_audio_track_id best = Some ''fr''"
proof -
  have s: "select_audio [sample_audio 400000 (Some ''en'') True, sample_audio 1 (Some ''fr'') False]
      (Some ''fr'') (no_options\<lparr>so_container := ''mp4''\<rparr>) = Some (sample_audio 1 (Some ''fr'') False)"
    by (simp add: select_audio_def sample_audio_def no_options_def audio_ok_def audio_better_def
        audio_rank_def playable_audio_def codec_matches_def string_value_def has_prefix_def
        to_lower_def stream_bitrate_def wrap64_id Let_def)
  from select_audio_preferred [OF s, of "sample_audio 1 (Some ''fr'') False"] s show ?thesis
    by (auto simp: sample_audio_def stream_bitrate_def audio_ok_def playable_audio_def
        codec_matches_def no_options_def has_prefix_def to_lower_def)
qed

end
