(* ===== verification/Go_Files.thy ===== *)
theory Go_Files
  imports Go_Strings
begin

text \<open>
  What the program uses of \<open>os\<close> and \<open>io\<close>: readers, and a disk of files by path, whose operations
  may fail. A file that is open for writing is its contents on the disk; the program never
  renames or removes a file it has open. Directories are left out: creating a file in a missing
  directory is one of the failures.
\<close>

type_synonym byte = "8 word"

section \<open>Readers\<close>

text \<open>A reader is the bytes still to come and the error that ends them (\<open>io.EOF\<close>, or that of a
  broken connection). \<open>io.ReadFull\<close> of \<open>n\<close> bytes returns them, or fails: at the end of the stream
  with \<open>io.EOF\<close> when nothing was read and \<open>io.ErrUnexpectedEOF\<close> after a part of them, otherwise
  with the reader's error.\<close>

record reader =
  r_data :: "byte list"
  r_end :: error

definition read_full :: "reader \<Rightarrow> nat \<Rightarrow> reader \<times> byte list result" where
  "read_full r n =
     (if n \<le> length (r_data r)
      then (r\<lparr>r_data := drop n (r_data r)\<rparr>, Inr (take n (r_data r)))
      else (r\<lparr>r_data := []\<rparr>,
            Inl (if r_end r = Eof \<and> r_data r \<noteq> [] then Unexpected_eof else r_end r)))"

lemma read_full_length: "length (r_data (fst (read_full r n))) \<le> length (r_data r)"
  by (simp add: read_full_def)

section \<open>The disk\<close>

type_synonym disk = "string \<Rightarrow> byte list option"

text \<open>Which operations fail, by path: \<open>os.Create\<close> and \<open>os.OpenFile\<close> for writing, \<open>Truncate\<close>,
  \<open>Close\<close>, \<open>os.Open\<close>, \<open>os.Rename\<close> (by its source), \<open>os.Remove\<close>, and \<open>io.Copy\<close> (by its source,
  with the number of bytes copied before it broke).\<close>

record faults =
  f_create :: "string \<Rightarrow> error option"
  f_truncate :: "string \<Rightarrow> error option"
  f_close :: "string \<Rightarrow> error option"
  f_open :: "string \<Rightarrow> error option"
  f_rename :: "string \<Rightarrow> error option"
  f_remove :: "string \<Rightarrow> error option"
  f_copy :: "string \<Rightarrow> (nat \<times> error) option"

definition no_faults :: faults where
  "no_faults = \<lparr>f_create = \<lambda>_. None, f_truncate = \<lambda>_. None, f_close = \<lambda>_. None, f_open = \<lambda>_. None,
                f_rename = \<lambda>_. None, f_remove = \<lambda>_. None, f_copy = \<lambda>_. None\<rparr>"

definition not_exist :: error where
  "not_exist = Err ''no such file or directory''"

definition os_create :: "faults \<Rightarrow> string \<Rightarrow> disk \<Rightarrow> disk \<times> error option" where
  "os_create fl p d = (case f_create fl p of Some e \<Rightarrow> (d, Some e) | None \<Rightarrow> (d(p \<mapsto> []), None))"

definition os_remove :: "faults \<Rightarrow> string \<Rightarrow> disk \<Rightarrow> disk \<times> error option" where
  "os_remove fl p d =
     (case d p of
        None \<Rightarrow> (d, Some not_exist)
      | Some _ \<Rightarrow> (case f_remove fl p of Some e \<Rightarrow> (d, Some e) | None \<Rightarrow> (d(p := None), None)))"

definition os_rename :: "faults \<Rightarrow> string \<Rightarrow> string \<Rightarrow> disk \<Rightarrow> disk \<times> error option" where
  "os_rename fl p q d =
     (case d p of
        None \<Rightarrow> (d, Some not_exist)
      | Some bs \<Rightarrow>
          (case f_rename fl p of Some e \<Rightarrow> (d, Some e) | None \<Rightarrow> ((d(p := None))(q \<mapsto> bs), None)))"

definition os_open :: "faults \<Rightarrow> string \<Rightarrow> disk \<Rightarrow> byte list result" where
  "os_open fl p d =
     (case d p of
        None \<Rightarrow> Inl not_exist
      | Some bs \<Rightarrow> (case f_open fl p of Some e \<Rightarrow> Inl e | None \<Rightarrow> Inr bs))"

definition contents :: "string \<Rightarrow> disk \<Rightarrow> byte list" where
  "contents p d = (case d p of None \<Rightarrow> [] | Some bs \<Rightarrow> bs)"

text \<open>\<open>io.Copy\<close> from the file \<open>p\<close> with the bytes \<open>bs\<close> to the end of the file \<open>q\<close>.\<close>

definition io_copy :: "faults \<Rightarrow> string \<Rightarrow> byte list \<Rightarrow> string \<Rightarrow> disk \<Rightarrow> disk \<times> error option" where
  "io_copy fl p bs q d =
     (case f_copy fl p of
        Some (n, e) \<Rightarrow> (d(q \<mapsto> contents q d @ take n bs), Some e)
      | None \<Rightarrow> (d(q \<mapsto> contents q d @ bs), None))"

text \<open>\<open>Truncate\<close> to a size: the file is cut, or filled with zeros; a negative size is an error.\<close>

definition os_truncate :: "faults \<Rightarrow> string \<Rightarrow> int \<Rightarrow> disk \<Rightarrow> disk \<times> error option" where
  "os_truncate fl p n d =
     (if n < 0 then (d, Some (Err ''invalid argument''))
      else case f_truncate fl p of
        Some e \<Rightarrow> (d, Some e)
      | None \<Rightarrow> (d(p \<mapsto> take (nat n) (contents p d) @ replicate (nat n - length (contents p d)) 0), None))"

text \<open>\<open>WriteAt\<close> past the end fills the gap with zeros.\<close>

definition write_at :: "byte list \<Rightarrow> int \<Rightarrow> byte list \<Rightarrow> byte list" where
  "write_at file pos bs =
     (let n = nat pos; base = file @ replicate (n + length bs - length file) 0
      in take n base @ bs @ drop (n + length bs) base)"

lemma write_at_length: "length (write_at file pos bs) = max (length file) (nat pos + length bs)"
  by (simp add: write_at_def Let_def)

lemma write_at_inside:
  "nat pos + length bs \<le> length file \<Longrightarrow>
    write_at file pos bs = take (nat pos) file @ bs @ drop (nat pos + length bs) file"
  by (simp add: write_at_def Let_def)

lemma write_at_nth:
  assumes "nat pos + length bs \<le> length file" and "k < length file"
  shows "write_at file pos bs ! k
    = (if nat pos \<le> k \<and> k < nat pos + length bs then bs ! (k - nat pos) else file ! k)"
  using assms by (auto simp: write_at_inside nth_append min_def)

lemma os_create_ok [simp]: "f_create fl p = None \<Longrightarrow> os_create fl p d = (d(p \<mapsto> []), None)"
  by (simp add: os_create_def)

lemma os_create_fails [simp]: "f_create fl p = Some e \<Longrightarrow> os_create fl p d = (d, Some e)"
  by (simp add: os_create_def)

lemma os_remove_other: "q \<noteq> p \<Longrightarrow> fst (os_remove fl p d) q = d q"
  by (simp add: os_remove_def split: option.split)

lemma os_remove_gone: "f_remove fl p = None \<Longrightarrow> fst (os_remove fl p d) p = None"
  by (simp add: os_remove_def split: option.split)

lemma os_rename_other: "r \<noteq> p \<Longrightarrow> r \<noteq> q \<Longrightarrow> fst (os_rename fl p q d) r = d r"
  by (simp add: os_rename_def split: option.split)

lemma no_faults_simps [simp]:
  "f_create no_faults p = None" "f_truncate no_faults p = None" "f_close no_faults p = None"
  "f_open no_faults p = None" "f_rename no_faults p = None" "f_remove no_faults p = None"
  "f_copy no_faults p = None"
  by (simp_all add: no_faults_def)

end
