(* ===== verification/Go_Http.thy ===== *)
theory Go_Http
  imports Go_Files
begin

text \<open>
  What the program uses of \<open>net/url\<close>, \<open>net/http\<close> and \<open>context\<close>. The parser and printer of URLs and
  the servers are arguments of the definitions that use them: a \<open>url_lib\<close> for the functions of
  \<open>net/url\<close>, and a function from requests to responses for \<open>http.Client.Do\<close>.
\<close>

record 'u url_lib =
  url_parse :: "string \<Rightarrow> 'u result"
  url_string :: "'u \<Rightarrow> string"
  url_path :: "'u \<Rightarrow> string"
  url_escaped_path :: "'u \<Rightarrow> string"
  url_hostname :: "'u \<Rightarrow> string"
  url_fragment :: "'u \<Rightarrow> string"
  url_query :: "'u \<Rightarrow> string \<Rightarrow> string list option"
  url_set_path :: "'u \<Rightarrow> string \<Rightarrow> 'u"
  url_set_fragment :: "'u \<Rightarrow> string \<Rightarrow> 'u"
  url_set_query :: "'u \<Rightarrow> (string \<Rightarrow> string list option) \<Rightarrow> 'u"
  url_scheme :: "'u \<Rightarrow> string"
  url_host :: "'u \<Rightarrow> string"
  url_resolve :: "'u \<Rightarrow> 'u \<Rightarrow> 'u"

text \<open>\<open>url_set_query u q\<close> stands for \<open>u.RawQuery = q.Encode()\<close>; \<open>Values.Set\<close> replaces.\<close>

definition query_set :: "string \<Rightarrow> string \<Rightarrow> (string \<Rightarrow> string list option) \<Rightarrow> string \<Rightarrow> string list option" where
  "query_set k v q = q(k \<mapsto> [v])"

text \<open>\<open>url.QueryEscape\<close> keeps letters, digits and \<open>-_.~\<close>, and writes a space as \<open>+\<close> and every other
  byte in hexadecimal; \<open>url.QueryUnescape\<close> reads them back.\<close>

definition unreserved :: "char \<Rightarrow> bool" where
  "unreserved c \<longleftrightarrow>
     (let n = (of_char c :: nat)
      in 97 \<le> n \<and> n \<le> 122 \<or> 65 \<le> n \<and> n \<le> 90 \<or> 48 \<le> n \<and> n \<le> 57 \<or> c \<in> set ''-_.~'')"

definition hex_char :: "nat \<Rightarrow> char" where
  "hex_char n = (if n < 10 then char_of (48 + n) else char_of (55 + n))"

definition hex_value :: "char \<Rightarrow> nat option" where
  "hex_value c =
     (let n = (of_char c :: nat)
      in if 48 \<le> n \<and> n \<le> 57 then Some (n - 48)
         else if 65 \<le> n \<and> n \<le> 70 then Some (n - 55)
         else if 97 \<le> n \<and> n \<le> 102 then Some (n - 87)
         else None)"

definition escape_char :: "char \<Rightarrow> string" where
  "escape_char c =
     (if c = CHR '' '' then ''+''
      else if unreserved c then [c]
      else [CHR ''%'', hex_char ((of_char c :: nat) div 16), hex_char ((of_char c :: nat) mod 16)])"

definition query_escape :: "string \<Rightarrow> string" where
  "query_escape s = concat (map escape_char s)"

fun query_unescape :: "string \<Rightarrow> string result" where
  "query_unescape [] = Inr []"
| "query_unescape (c # s) =
     (if c = CHR ''%'' then
        (case s of
           a # b # t \<Rightarrow>
             (case (hex_value a, hex_value b) of
                (Some m, Some n) \<Rightarrow> map_sum id (Cons (char_of (16 * m + n))) (query_unescape t)
              | _ \<Rightarrow> Inl (Err (''invalid URL escape '' @ [c, a, b])))
         | _ \<Rightarrow> Inl (Err (''invalid URL escape '' @ c # s)))
      else map_sum id (Cons (if c = CHR ''+'' then CHR '' '' else c)) (query_unescape s))"

lemma hex_value_char: "n < 16 \<Longrightarrow> hex_value (hex_char n) = Some n"
  by (auto simp: hex_value_def hex_char_def Let_def)

lemma unescape_char: "query_unescape (escape_char c @ s) = map_sum id (Cons c) (query_unescape s)"
proof -
  have lt: "(of_char c :: nat) < 256" by simp
  consider "c = CHR '' ''" | "c \<noteq> CHR '' ''" "unreserved c" | "c \<noteq> CHR '' ''" "\<not> unreserved c" by blast
  then show ?thesis
  proof cases
    case 1
    then show ?thesis by (simp add: escape_char_def)
  next
    case 2
    then have "c \<noteq> CHR ''%''" "c \<noteq> CHR ''+''" by (auto simp: unreserved_def)
    with 2 show ?thesis by (simp add: escape_char_def)
  next
    case 3
    have "char_of (16 * ((of_char c :: nat) div 16) + (of_char c :: nat) mod 16) = c" by simp
    moreover have "hex_value (hex_char ((of_char c :: nat) div 16)) = Some ((of_char c :: nat) div 16)"
      using lt by (intro hex_value_char) linarith
    moreover have "hex_value (hex_char ((of_char c :: nat) mod 16)) = Some ((of_char c :: nat) mod 16)"
      by (intro hex_value_char) simp
    ultimately show ?thesis using 3 by (simp add: escape_char_def)
  qed
qed

lemma query_unescape_escape: "query_unescape (query_escape s) = Inr s"
proof (induction s)
  case Nil
  then show ?case by (simp add: query_escape_def)
next
  case (Cons c s)
  have "query_escape (c # s) = escape_char c @ query_escape s" by (simp add: query_escape_def)
  with Cons show ?case by (simp only: unescape_char) simp
qed

text \<open>\<open>http.Header\<close> of the headers the program sets, each once; \<open>Get\<close> of a missing one is empty.\<close>

type_synonym headers = "string \<Rightarrow> string option"

definition header_get :: "headers \<Rightarrow> string \<Rightarrow> string" where
  "header_get h k = (case h k of None \<Rightarrow> [] | Some v \<Rightarrow> v)"

record request =
  rq_url :: string
  rq_headers :: headers

record http_response =
  rs_status :: int
  rs_status_line :: string
  rs_headers :: headers
  rs_length :: int
  rs_body :: reader

text \<open>\<open>http.NewRequestWithContext\<close> of a GET parses the URL.\<close>

definition new_request :: "'u url_lib \<Rightarrow> string \<Rightarrow> request result" where
  "new_request lib u =
     (case url_parse lib u of
        Inl e \<Rightarrow> Inl e
      | Inr _ \<Rightarrow> Inr \<lparr>rq_url = u, rq_headers = Map.empty\<rparr>)"

definition request_path :: "'u url_lib \<Rightarrow> request \<Rightarrow> string" where
  "request_path lib rq = (case url_parse lib (rq_url rq) of Inl _ \<Rightarrow> [] | Inr u \<Rightarrow> url_path lib u)"

definition set_header :: "string \<Rightarrow> string \<Rightarrow> request \<Rightarrow> request" where
  "set_header k v rq = rq\<lparr>rq_headers := (rq_headers rq)(k \<mapsto> v)\<rparr>"

text \<open>\<open>strings.Replace(s, old, new, 1)\<close> with a nonempty \<open>old\<close>.\<close>

fun replace_first :: "string \<Rightarrow> string \<Rightarrow> string \<Rightarrow> string" where
  "replace_first [] old new = []"
| "replace_first (c # s) old new =
     (if has_prefix (c # s) old then new @ drop (length old) (c # s)
      else c # replace_first s old new)"

text \<open>URLs that are their own paths, for the examples.\<close>

definition sample_lib :: "string url_lib" where
  "sample_lib = \<lparr>url_parse = Inr, url_string = id, url_path = id, url_escaped_path = id,
     url_hostname = id, url_fragment = id, url_query = \<lambda>_. Map.empty, url_set_path = \<lambda>u p. p,
     url_set_fragment = \<lambda>u f. u, url_set_query = \<lambda>u q. u, url_scheme = id, url_host = id,
     url_resolve = \<lambda>b r. b @ r\<rparr>"

end
