(* ===== verification/Media_Headers.thy ===== *)
theory Media_Headers
  imports Go_Http
begin

text \<open>
  Package \<open>internal/downloader\<close>, \<open>media_headers.go\<close> and the requests of \<open>range_request.go\<close> and
  \<open>probe.go\<close>: which headers a media host gets, how a range of bytes is asked for, which responses
  are accepted, and how the size of a source is probed.
\<close>

record chunk =
  ck_start :: int
  ck_end :: int

section \<open>Hosts\<close>

definition desktop_user_agent :: string where
  "desktop_user_agent = ''Mozilla/5.0 (X11; Linux x86_64) AppleWebKit/537.36 Chrome/122 Safari/537.36''"

definition is_bilibili_host :: "string \<Rightarrow> bool" where
  "is_bilibili_host host \<longleftrightarrow>
     contains host ''bilibili'' \<or> contains host ''bilivideo'' \<or> has_suffix host ''hdslb.com''
     \<or> contains host ''akamaized''"

definition is_nico_host :: "string \<Rightarrow> bool" where
  "is_nico_host host \<longleftrightarrow> has_suffix host ''nicovideo.jp''"

fun find_bid :: "string list \<Rightarrow> string" where
  "find_bid [] = []"
| "find_bid (item # items) =
     (let cookie = trim_prefix item ''cookie=''
      in if cookie = item \<or> \<not> has_prefix cookie ''domand_bid='' then find_bid items
         else trim_prefix cookie ''domand_bid='')"

definition nico_domand_bid :: "'u url_lib \<Rightarrow> string \<Rightarrow> string" where
  "nico_domand_bid lib fragment =
     (let decoded = (case query_unescape fragment of Inl e \<Rightarrow> fragment | Inr s \<Rightarrow> s)
      in find_bid (split_at (CHR ''&'') decoded))"

definition requires_header_range :: "'u url_lib \<Rightarrow> string \<Rightarrow> bool" where
  "requires_header_range lib raw_url =
     (case url_parse lib raw_url of
        Inl e \<Rightarrow> False
      | Inr u \<Rightarrow>
          (let path = trim_prefix (url_escaped_path lib u) ''/'';
               host = to_lower (url_hostname lib u)
           in if path = ''proxy'' \<or> path = ''proxy/nicovideo'' then True
              else is_bilibili_host host \<or> is_nico_host host))"

definition effective_range_mode :: "'u url_lib \<Rightarrow> string \<Rightarrow> string \<Rightarrow> string" where
  "effective_range_mode lib raw_url configured =
     (if requires_header_range lib raw_url then ''header'' else configured)"

definition media_headers :: "'u url_lib \<Rightarrow> string \<Rightarrow> bool \<Rightarrow> headers" where
  "media_headers lib raw_url range_request =
     (let h0 = [''User-Agent'' \<mapsto> desktop_user_agent]
      in case url_parse lib raw_url of
           Inl e \<Rightarrow> h0
         | Inr u \<Rightarrow>
             (let host = to_lower (url_hostname lib u);
                  h1 = (if is_bilibili_host host
                        then (let h = h0(''Referer'' \<mapsto> ''https://www.bilibili.com'', ''Accept'' \<mapsto> ''*/*'')
                              in if range_request then h(''Connection'' \<mapsto> ''close'') else h)
                        else h0)
              in if is_nico_host host
                 then (let bid = nico_domand_bid lib (url_fragment lib u)
                       in if bid \<noteq> [] then h1(''Cookie'' \<mapsto> ''domand_bid='' @ bid) else h1)
                 else h1))"

definition apply_media_headers :: "'u url_lib \<Rightarrow> string \<Rightarrow> request \<Rightarrow> request" where
  "apply_media_headers lib raw_url rq =
     rq\<lparr>rq_headers := rq_headers rq ++ media_headers lib raw_url (header_get (rq_headers rq) ''Range'' \<noteq> [])\<rparr>"

section \<open>Range requests\<close>

definition strip_fragment :: "'u url_lib \<Rightarrow> string \<Rightarrow> string result" where
  "strip_fragment lib raw_url =
     (case url_parse lib raw_url of
        Inl e \<Rightarrow> Inl e
      | Inr u \<Rightarrow> Inr (url_string lib (url_set_fragment lib u [])))"

definition ranged_url :: "'u url_lib \<Rightarrow> string \<Rightarrow> chunk \<Rightarrow> string \<Rightarrow> string result" where
  "ranged_url lib raw_url part mode =
     (if mode = ''header'' then Inr raw_url
      else if mode \<noteq> ''query'' then Inl (Err (''unsupported range mode '' @ mode))
      else case url_parse lib raw_url of
             Inl e \<Rightarrow> Inl e
           | Inr u \<Rightarrow>
               Inr (url_string lib (url_set_query lib u
                     (query_set ''range'' (itoa (ck_start part) @ ''-'' @ itoa (ck_end part))
                        (url_query lib u)))))"

definition ranged_request :: "'u url_lib \<Rightarrow> string \<Rightarrow> chunk \<Rightarrow> string \<Rightarrow> request result" where
  "ranged_request lib raw_url part range_mode =
     (case ranged_url lib raw_url part range_mode of
        Inl e \<Rightarrow> Inl e
      | Inr url1 \<Rightarrow>
          (case strip_fragment lib url1 of
             Inl e \<Rightarrow> Inl e
           | Inr url2 \<Rightarrow>
               (case new_request lib url2 of
                  Inl e \<Rightarrow> Inl e
                | Inr rq0 \<Rightarrow>
                    (let rq1 = set_header ''Accept-Encoding'' ''identity'' rq0;
                         rq2 = (if range_mode = ''header''
                                then set_header ''Range''
                                       (''bytes='' @ itoa (ck_start part) @ ''-'' @ itoa (ck_end part)) rq1
                                else rq1)
                     in Inr (apply_media_headers lib raw_url rq2)))))"

definition validate_range_response :: "http_response \<Rightarrow> chunk \<Rightarrow> string \<Rightarrow> error option" where
  "validate_range_response resp part configured_mode =
     (let expected = add64 (sub64 (ck_end part) (ck_start part)) 1;
          want = ''bytes '' @ itoa (ck_start part) @ ''-'' @ itoa (ck_end part) @ ''/'';
          content_range = header_get (rs_headers resp) ''Content-Range''
      in if rs_status resp \<noteq> 206 \<and> \<not> (configured_mode = ''query'' \<and> rs_status resp = 200)
         then Some (Err (''unexpected HTTP status '' @ itoa (rs_status resp)))
         else if configured_mode = ''header'' \<and> \<not> has_prefix content_range want
         then Some (Err (''unexpected Content-Range '' @ content_range))
         else if rs_length resp \<ge> 0 \<and> rs_length resp \<noteq> expected
         then Some (Err (''unexpected content length '' @ itoa (rs_length resp) @ '', expected ''
                         @ itoa expected))
         else None)"

section \<open>Probing\<close>

definition parse_content_range_size :: "string \<Rightarrow> int result" where
  "parse_content_range_size value =
     (let bad = Inl (Err (''unexpected Content-Range '' @ value))
      in case cut_at (CHR ''/'') value of
           None \<Rightarrow> bad
         | Some (_, whole) \<Rightarrow>
             if whole = [] \<or> whole = ''*'' then bad
             else case parse_int whole of
                    None \<Rightarrow> bad
                  | Some n \<Rightarrow> if n \<le> 0 then bad else Inr n)"

definition probe_request :: "'u url_lib \<Rightarrow> string \<Rightarrow> string \<Rightarrow> request result" where
  "probe_request lib raw_url range_mode =
     (case ranged_url lib raw_url \<lparr>ck_start = 0, ck_end = 0\<rparr> range_mode of
        Inl e \<Rightarrow> Inl e
      | Inr url1 \<Rightarrow>
          (case strip_fragment lib url1 of
             Inl e \<Rightarrow> Inl e
           | Inr url2 \<Rightarrow>
               (case new_request lib url2 of
                  Inl e \<Rightarrow> Inl e
                | Inr rq0 \<Rightarrow>
                    (let rq1 = set_header ''Accept-Encoding'' ''identity'' rq0;
                         rq2 = (if range_mode = ''header'' then set_header ''Range'' ''bytes=0-0'' rq1 else rq1)
                     in Inr (apply_media_headers lib raw_url rq2)))))"

definition probe_source_size :: "'u url_lib \<Rightarrow> (request \<Rightarrow> http_response result) \<Rightarrow> string \<Rightarrow> string \<Rightarrow> int result" where
  "probe_source_size lib client raw_url mode =
     (let range_mode = effective_range_mode lib raw_url mode
      in case probe_request lib raw_url range_mode of
           Inl e \<Rightarrow> Inl e
         | Inr req \<Rightarrow>
             (case client req of
                Inl e \<Rightarrow> Inl e
              | Inr resp \<Rightarrow>
                  if range_mode = ''header'' \<and> rs_status resp = 206
                  then parse_content_range_size (header_get (rs_headers resp) ''Content-Range'')
                  else if rs_status resp \<noteq> 200
                  then Inl (Err (''unexpected HTTP status '' @ itoa (rs_status resp)))
                  else if rs_length resp > 0 then Inr (rs_length resp)
                  else Inl (Err ''missing content length'')))"

section \<open>Properties\<close>

lemma parse_content_range_ok:
  assumes "0 < n" and "n \<le> max_i64" and "CHR ''/'' \<notin> set rng"
  shows "parse_content_range_size (rng @ ''/'' @ itoa n) = Inr n"
proof -
  have "is_i64 n" using assms by (simp add: is_i64_def min_i64_def)
  moreover have "itoa n \<noteq> ''*'' \<and> itoa n \<noteq> []"
    using assms(1) digits_all [of "nat n"] digits_nonempty [of "nat n"] by (auto simp: itoa_def is_digit_def)
  ultimately show ?thesis
    using assms cut_at_append [of "CHR ''/''" rng "itoa n"]
    by (simp add: parse_content_range_size_def parse_int_itoa)
qed

text \<open>The probe understands every \<open>Content-Range\<close> a server can answer with: the size after the
  slash, whatever the range before it, for every positive 64-bit size.\<close>

theorem content_range_round_trip:
  assumes "0 < n" and "n \<le> max_i64"
  shows "parse_content_range_size (''bytes '' @ itoa a @ ''-'' @ itoa b @ ''/'' @ itoa n) = Inr n"
proof -
  have d: "c \<noteq> CHR ''/''" if "c \<in> set (itoa k)" for c k
    using that digits_all [of "nat k"] digits_all [of "nat (- k)"]
    by (auto simp: itoa_def list_all_iff is_digit_def split: if_splits)
  then have "CHR ''/'' \<notin> set (''bytes '' @ itoa a @ ''-'' @ itoa b)" by auto
  from parse_content_range_ok [OF assms(1,2) this] show ?thesis by simp
qed

lemma content_range_round_trip_witness:
  "parse_content_range_size (''bytes '' @ itoa 0 @ ''-'' @ itoa 0 @ ''/'' @ itoa 5000) = Inr 5000"
  by (rule content_range_round_trip) (simp_all add: max_i64_def)

end
