(* ===== verification/Range_Download.thy ===== *)
theory Range_Download
  imports Media_Headers
begin

text \<open>
  Package \<open>internal/downloader\<close>, \<open>range_downloader.go\<close>, \<open>range_worker.go\<close> and \<open>fetchChunk\<close> of
  \<open>range_request.go\<close>: a file is fetched in chunks by a number of workers that write into one file
  at once, each chunk tried several times, then committed by renaming.
\<close>

section \<open>Options and chunks\<close>

record source =
  src_name :: string
  src_url :: string
  src_size :: int

record dl_options =
  do_chunk_size :: int
  do_workers :: int
  do_retries :: int
  do_buffer_size :: int
  do_range_mode :: string
  do_progress_bytes :: int

definition default_copy_buffer_size :: int where
  "default_copy_buffer_size = 256 * 1024"

definition normalized_options :: "dl_options \<Rightarrow> dl_options" where
  "normalized_options o0 =
     (let o1 = (if do_chunk_size o0 \<le> 0 then o0\<lparr>do_chunk_size := push_bit 20 10\<rparr> else o0);
          o2 = (if do_workers o1 \<le> 0 then o1\<lparr>do_workers := 8\<rparr> else o1);
          o3 = (if do_retries o2 \<le> 0 then o2\<lparr>do_retries := 4\<rparr> else o2);
          o4 = (if do_buffer_size o3 \<le> 0 then o3\<lparr>do_buffer_size := default_copy_buffer_size\<rparr> else o3);
          o5 = (if do_progress_bytes o4 \<le> 0 then o4\<lparr>do_progress_bytes := push_bit 20 4\<rparr> else o4)
      in if do_range_mode o5 = [] then o5\<lparr>do_range_mode := ''header''\<rparr> else o5)"

text \<open>The loop of \<open>queueChunks\<close>, with \<open>int64\<close> arithmetic: near the largest sizes \<open>start\<close> wraps around
  and the loop does not end, so it takes fuel.\<close>

fun queue_chunks :: "nat \<Rightarrow> int \<Rightarrow> int \<Rightarrow> int \<Rightarrow> chunk list option" where
  "queue_chunks fuel start len chunk_size =
     (if \<not> start < len then Some []
      else case fuel of
        0 \<Rightarrow> None
      | Suc f \<Rightarrow>
          map_option (\<lambda>cs. \<lparr>ck_start = start, ck_end = sub64 (min (add64 start chunk_size) len) 1\<rparr> # cs)
            (queue_chunks f (add64 start chunk_size) len chunk_size))"

definition chunk_count :: "int \<Rightarrow> int \<Rightarrow> int" where
  "chunk_count len chunk_size = go_div (sub64 (add64 len chunk_size) 1) chunk_size"

section \<open>One chunk\<close>

text \<open>\<open>io.ReadFull\<close> with the bytes it read before it failed.\<close>

definition read_some :: "reader \<Rightarrow> nat \<Rightarrow> reader \<times> byte list \<times> error option" where
  "read_some r n =
     (r\<lparr>r_data := drop n (r_data r)\<rparr>, take n (r_data r),
      if n \<le> length (r_data r) then None
      else Some (if r_end r = Eof \<and> r_data r \<noteq> [] then Unexpected_eof else r_end r))"

text \<open>\<open>copyChunk\<close>: the writes it made, each at its position, and the error. \<open>wr\<close> is what \<open>WriteAt\<close>
  reports. The buffer is not empty (\<open>normalizedOptions\<close>); with an empty one the loop would not
  end, which is the outer \<open>None\<close>.\<close>

type_synonym file_write = "int \<times> byte list"

definition short_chunk :: "int \<Rightarrow> chunk \<Rightarrow> error \<Rightarrow> error" where
  "short_chunk position part e =
     Wrap (''short chunk: got '' @ itoa (position - ck_start part) @ '' expected ''
           @ itoa (ck_end part - ck_start part + 1) @ '': '') e []"

function copy_chunk ::
    "int \<Rightarrow> (int \<Rightarrow> byte list \<Rightarrow> nat \<times> error option) \<Rightarrow> chunk \<Rightarrow> reader \<Rightarrow> int
       \<Rightarrow> (reader \<times> file_write list \<times> error option) option" where
  "copy_chunk buffer wr part body position =
     (if \<not> position \<le> ck_end part then Some (body, [], None)
      else if buffer \<le> 0 then None
      else
        (let n = min buffer (ck_end part - position + 1)
         in case read_some body (nat n) of
              (body', bs, err) \<Rightarrow>
                if bs = [] then
                  (case err of
                     None \<Rightarrow> None
                   | Some e \<Rightarrow> Some (body', [], Some (short_chunk position part e)))
                else
                  (case wr position bs of
                     (written, Some e) \<Rightarrow> Some (body', [(position, take written bs)], Some e)
                   | (written, None) \<Rightarrow>
                       if written \<noteq> length bs
                       then Some (body', [(position, take written bs)], Some Short_write)
                       else
                         (let position' = position + int (length bs)
                          in case err of
                               Some e \<Rightarrow> Some (body', [(position, bs)], Some (short_chunk position' part e))
                             | None \<Rightarrow>
                                 map_option (\<lambda>(b, ws, r). (b, (position, bs) # ws, r))
                                   (copy_chunk buffer wr part body' position')))))"
  by pat_completeness auto
termination
  by (relation "measure (\<lambda>(buffer, wr, part, body, position). nat (ck_end part + 1 - position))")
     (auto simp: read_some_def)

declare copy_chunk.simps [simp del]

text \<open>What one try of a chunk meets: the server and the disk, and the result of the wait before it.\<close>

record chunk_env =
  ce_client :: "request \<Rightarrow> http_response result"
  ce_write :: "int \<Rightarrow> byte list \<Rightarrow> nat \<times> error option"
  ce_wait :: "error option"

definition fetch_chunk ::
    "'u url_lib \<Rightarrow> chunk_env \<Rightarrow> source \<Rightarrow> chunk \<Rightarrow> string \<Rightarrow> int \<Rightarrow> (file_write list \<times> error option) option"
    where
  "fetch_chunk lib env src part configured_mode buffer =
     (let range_mode = effective_range_mode lib (src_url src) configured_mode
      in case ranged_request lib (src_url src) part range_mode of
           Inl e \<Rightarrow> Some ([], Some e)
         | Inr req \<Rightarrow>
             (case ce_client env req of
                Inl e \<Rightarrow> Some ([], Some e)
              | Inr resp \<Rightarrow>
                  (case validate_range_response resp part range_mode of
                     Some e \<Rightarrow> Some ([], Some e)
                   | None \<Rightarrow>
                       (case copy_chunk buffer (ce_write env) part (rs_body resp) (ck_start part) of
                          None \<Rightarrow> None
                        | Some (body, writes, Some e) \<Rightarrow> Some (writes, Some e)
                        | Some (body, writes, None) \<Rightarrow>
                            if rs_length resp < 0 \<and> (r_data body \<noteq> [] \<or> r_end body \<noteq> Eof)
                            then Some (writes, Some (Err ''chunk overflow''))
                            else Some (writes, None)))))"

text \<open>The tries of a chunk, from \<open>attempt\<close> on; \<open>lst\<close> is the last error.\<close>

fun chunk_tries ::
    "(int \<Rightarrow> (file_write list \<times> error option) option) \<Rightarrow> (int \<Rightarrow> error option) \<Rightarrow> string \<Rightarrow> chunk
       \<Rightarrow> int list \<Rightarrow> error \<Rightarrow> (file_write list \<times> error option) option" where
  "chunk_tries fetch wait name part [] lst =
     Some ([], Some (Wrap (name @ '' bytes '' @ itoa (ck_start part) @ ''-'' @ itoa (ck_end part)
                           @ '' failed: '') lst []))"
| "chunk_tries fetch wait name part (attempt # attempts) lst =
     (case (if attempt = 0 then None else wait attempt) of
        Some e \<Rightarrow> Some ([], Some e)
      | None \<Rightarrow>
          (case fetch attempt of
             None \<Rightarrow> None
           | Some (writes, None) \<Rightarrow> Some (writes, None)
           | Some (writes, Some e) \<Rightarrow>
               map_option (\<lambda>(ws, r). (writes @ ws, r)) (chunk_tries fetch wait name part attempts e)))"

definition download_chunk ::
    "'u url_lib \<Rightarrow> (int \<Rightarrow> chunk_env) \<Rightarrow> source \<Rightarrow> dl_options \<Rightarrow> chunk \<Rightarrow> (file_write list \<times> error option) option"
    where
  "download_chunk lib envs src opts part =
     chunk_tries (\<lambda>attempt. fetch_chunk lib (envs attempt) src part (do_range_mode opts) (do_buffer_size opts))
       (\<lambda>attempt. ce_wait (envs attempt)) (src_name src) part [0..do_retries opts - 1] (Err [])"

section \<open>Progress\<close>

text \<open>A call of the progress function. The speed is \<open>downloaded\<close> over \<open>elapsed\<close>, a floating-point
  quotient that the model keeps as its two operands.\<close>

record dl_progress =
  dp_name :: string
  dp_downloaded :: int
  dp_total :: int
  dp_elapsed :: int

record tracker =
  pt_source :: source
  pt_interval :: int
  pt_progress :: bool
  pt_started :: time
  pt_downloaded :: int
  pt_reported :: int
  pt_calls :: "dl_progress list"

definition new_tracker :: "source \<Rightarrow> int \<Rightarrow> bool \<Rightarrow> time \<Rightarrow> tracker" where
  "new_tracker src interval progress now =
     \<lparr>pt_source = src, pt_interval = interval, pt_progress = progress, pt_started = now,
      pt_downloaded = 0, pt_reported = 0, pt_calls = []\<rparr>"

definition tracker_call :: "int \<Rightarrow> time \<Rightarrow> tracker \<Rightarrow> tracker" where
  "tracker_call downloaded now t =
     (let elapsed = sub_time now (pt_started t)
      in if elapsed \<le> 0 then t
         else t\<lparr>pt_calls := pt_calls t @ [\<lparr>dp_name = src_name (pt_source t), dp_downloaded = downloaded,
                  dp_total = src_size (pt_source t), dp_elapsed = elapsed\<rparr>]\<rparr>)"

definition tracker_count :: "int \<Rightarrow> tracker \<Rightarrow> tracker" where
  "tracker_count bytes t = t\<lparr>pt_downloaded := add64 (pt_downloaded t) bytes\<rparr>"

definition tracker_report :: "int \<Rightarrow> time \<Rightarrow> tracker \<Rightarrow> tracker" where
  "tracker_report current now t =
     (if \<not> pt_progress t \<or> current \<ge> src_size (pt_source t) then t
      else if current \<le> pt_reported t \<or> sub64 current (pt_reported t) < pt_interval t then t
      else tracker_call current now (t\<lparr>pt_reported := current\<rparr>))"

definition tracker_add :: "int \<Rightarrow> time \<Rightarrow> tracker \<Rightarrow> tracker" where
  "tracker_add bytes now t = (let t1 = tracker_count bytes t in tracker_report (pt_downloaded t1) now t1)"

definition tracker_finish :: "time \<Rightarrow> tracker \<Rightarrow> tracker" where
  "tracker_finish now t =
     (if \<not> pt_progress t \<or> pt_downloaded t \<le> pt_reported t then t
      else tracker_call (pt_downloaded t) now (t\<lparr>pt_reported := pt_downloaded t\<rparr>))"

section \<open>The workers\<close>

text \<open>A worker takes a chunk from the channel, makes the writes of its tries one by one, then counts
  the chunk, reports, and goes on (it would be \<open>Stuck\<close> in a copy that does not end); after an error it leaves it in \<open>errs\<close> (room for one), cancels
  and ends. A schedule says who acts; \<open>Stop_queue k\<close> is the producer seeing the context done with
  \<open>k\<close> chunks still in the channel.\<close>

datatype chunk_worker =
    Free
  | Writing chunk "file_write list" "error option"
  | Reporting int
  | Left
  | Stuck

datatype chunk_action = Step nat time | Outer_done error | Stop_queue nat

record crew =
  cr_queue :: "chunk list"
  cr_workers :: "chunk_worker list"
  cr_errs :: "error option"
  cr_ctx :: "error option"
  cr_outer :: "error option"
  cr_file :: "byte list"
  cr_tracker :: tracker

definition crew_take :: "(chunk \<Rightarrow> error option \<Rightarrow> (file_write list \<times> error option) option) \<Rightarrow> nat \<Rightarrow> crew \<Rightarrow> crew" where
  "crew_take run i c =
     (case cr_queue c of
        [] \<Rightarrow> c\<lparr>cr_workers := (cr_workers c)[i := Left]\<rparr>
      | part # rest \<Rightarrow>
          (case run part (cr_ctx c) of
             None \<Rightarrow> c\<lparr>cr_queue := rest, cr_workers := (cr_workers c)[i := Stuck]\<rparr>
           | Some (writes, r) \<Rightarrow>
               c\<lparr>cr_queue := rest, cr_workers := (cr_workers c)[i := Writing part writes r]\<rparr>))"

definition crew_write :: "nat \<Rightarrow> chunk \<Rightarrow> file_write list \<Rightarrow> error option \<Rightarrow> crew \<Rightarrow> crew" where
  "crew_write i part writes r c =
     (case writes of
        (pos, bs) # ws \<Rightarrow>
          c\<lparr>cr_file := write_at (cr_file c) pos bs, cr_workers := (cr_workers c)[i := Writing part ws r]\<rparr>
      | [] \<Rightarrow>
          (case r of
             Some e \<Rightarrow>
               c\<lparr>cr_workers := (cr_workers c)[i := Left],
                 cr_errs := (case cr_errs c of None \<Rightarrow> Some e | Some e' \<Rightarrow> Some e'),
                 cr_ctx := (case cr_ctx c of None \<Rightarrow> Some Canceled | Some e' \<Rightarrow> Some e')\<rparr>
           | None \<Rightarrow>
               (let t = tracker_count (add64 (sub64 (ck_end part) (ck_start part)) 1) (cr_tracker c)
                in c\<lparr>cr_tracker := t, cr_workers := (cr_workers c)[i := Reporting (pt_downloaded t)]\<rparr>)))"

definition crew_act ::
    "(chunk \<Rightarrow> error option \<Rightarrow> (file_write list \<times> error option) option) \<Rightarrow> chunk_action \<Rightarrow> crew \<Rightarrow> crew" where
  "crew_act run a c =
     (case a of
        Outer_done e \<Rightarrow>
          c\<lparr>cr_outer := (case cr_outer c of None \<Rightarrow> Some e | Some e' \<Rightarrow> Some e'),
            cr_ctx := (case cr_ctx c of None \<Rightarrow> Some e | Some e' \<Rightarrow> Some e')\<rparr>
      | Stop_queue k \<Rightarrow> if cr_ctx c \<noteq> None then c\<lparr>cr_queue := take k (cr_queue c)\<rparr> else c
      | Step i now \<Rightarrow>
          if i < length (cr_workers c)
          then case cr_workers c ! i of
                 Free \<Rightarrow> crew_take run i c
               | Writing part writes r \<Rightarrow> crew_write i part writes r c
               | Reporting current \<Rightarrow>
                   c\<lparr>cr_tracker := tracker_report current now (cr_tracker c),
                     cr_workers := (cr_workers c)[i := Free]\<rparr>
               | Left \<Rightarrow> c
               | Stuck \<Rightarrow> c
          else c)"

definition new_crew :: "source \<Rightarrow> dl_options \<Rightarrow> bool \<Rightarrow> time \<Rightarrow> chunk list \<Rightarrow> byte list \<Rightarrow> crew" where
  "new_crew src opts progress now chunks file =
     \<lparr>cr_queue = chunks,
      cr_workers = replicate (nat (min (do_workers opts) (chunk_count (src_size src) (do_chunk_size opts)))) Free,
      cr_errs = None, cr_ctx = None, cr_outer = None, cr_file = file,
      cr_tracker = new_tracker src (do_progress_bytes opts) progress now\<rparr>"

text \<open>The end of \<open>downloadChunks\<close>: the first error, the outer context's, or the count that is wrong.\<close>

definition crew_result :: "source \<Rightarrow> time \<Rightarrow> crew \<Rightarrow> tracker \<times> error option" where
  "crew_result src now c =
     (case cr_errs c of
        Some e \<Rightarrow> (cr_tracker c, Some e)
      | None \<Rightarrow>
          (case cr_outer c of
             Some e \<Rightarrow> (cr_tracker c, Some e)
           | None \<Rightarrow>
               if pt_downloaded (cr_tracker c) \<noteq> src_size src
               then (cr_tracker c, Some (Err (''downloaded '' @ itoa (pt_downloaded (cr_tracker c))
                       @ '' bytes, expected '' @ itoa (src_size src))))
               else (tracker_finish now (cr_tracker c), None)))"

text \<open>\<open>None\<close>: after this schedule workers are still at work.\<close>

definition download_chunks ::
    "(chunk \<Rightarrow> error option \<Rightarrow> (file_write list \<times> error option) option) \<Rightarrow> chunk_action list \<Rightarrow> source \<Rightarrow> dl_options
       \<Rightarrow> bool \<Rightarrow> time \<Rightarrow> time \<Rightarrow> chunk list \<Rightarrow> byte list \<Rightarrow> (byte list \<times> tracker \<times> error option) option" where
  "download_chunks run schedule src opts progress started now chunks file =
     (let c = foldl (\<lambda>c a. crew_act run a c) (new_crew src opts progress started chunks file) schedule
      in if \<forall>w\<in>set (cr_workers c). w = Left
         then (case crew_result src now c of (t, r) \<Rightarrow> Some (cr_file c, t, r)) else None)"

section \<open>The file\<close>

record file_env =
  fe_chunk :: "chunk \<Rightarrow> error option \<Rightarrow> int \<Rightarrow> chunk_env"
  fe_schedule :: "chunk_action list"
  fe_probe :: "request \<Rightarrow> http_response result"
  fe_faults :: faults
  fe_progress :: bool
  fe_started :: time
  fe_ended :: time

definition part_name :: "string \<Rightarrow> string" where
  "part_name output = output @ ''.part''"

definition known_size :: "'u url_lib \<Rightarrow> file_env \<Rightarrow> source \<Rightarrow> dl_options \<Rightarrow> int result" where
  "known_size lib env src opts =
     (if src_size src \<le> 0 then probe_source_size lib (fe_probe env) (src_url src) (do_range_mode opts)
      else Inr (src_size src))"

text \<open>After the file is open; the deferred function removes the temporary file unless it was committed.\<close>

definition fetch_file ::
    "'u url_lib \<Rightarrow> file_env \<Rightarrow> nat \<Rightarrow> source \<Rightarrow> string \<Rightarrow> dl_options \<Rightarrow> disk
       \<Rightarrow> (disk \<times> dl_progress list \<times> error option) option" where
  "fetch_file lib env fuel src output opts d =
     (let tmp = part_name output;
          failed = (\<lambda>d calls e. Some (fst (os_remove (fe_faults env) tmp d), calls, Some e))
      in case os_truncate (fe_faults env) tmp (src_size src) d of
           (d1, Some e) \<Rightarrow> failed d1 [] e
         | (d1, None) \<Rightarrow>
             (case queue_chunks fuel 0 (src_size src) (do_chunk_size opts) of
                None \<Rightarrow> None
              | Some chunks \<Rightarrow>
                  (case download_chunks
                          (\<lambda>part ctx. download_chunk lib (fe_chunk env part ctx) src opts part)
                          (fe_schedule env) src opts (fe_progress env) (fe_started env) (fe_ended env)
                          chunks (contents tmp d1) of
                     None \<Rightarrow> None
                   | Some (file, t, Some e) \<Rightarrow> failed (d1(tmp \<mapsto> file)) (pt_calls t) e
                   | Some (file, t, None) \<Rightarrow>
                       (case f_close (fe_faults env) tmp of
                          Some e \<Rightarrow> failed (d1(tmp \<mapsto> file)) (pt_calls t) e
                        | None \<Rightarrow>
                            (case os_rename (fe_faults env) tmp output (d1(tmp \<mapsto> file)) of
                               (d2, Some e) \<Rightarrow> failed d2 (pt_calls t) e
                             | (d2, None) \<Rightarrow> Some (d2, pt_calls t, None))))))"

definition download_file ::
    "'u url_lib \<Rightarrow> file_env \<Rightarrow> nat \<Rightarrow> source \<Rightarrow> string \<Rightarrow> dl_options \<Rightarrow> disk
       \<Rightarrow> (disk \<times> dl_progress list \<times> error option) option" where
  "download_file lib env fuel src output options d =
     (if src_url src = [] then Some (d, [], Some (Err (''invalid source '' @ src_name src)))
      else
        (let opts = normalized_options options
         in case known_size lib env src opts of
              Inl e \<Rightarrow> Some (d, [], Some (Wrap (''probe '' @ src_name src @ '' size: '') e []))
            | Inr len \<Rightarrow>
                (case os_create (fe_faults env) (part_name output)
                        (fst (os_remove (fe_faults env) (part_name output) d)) of
                   (d1, Some e) \<Rightarrow> Some (d1, [], Some e)
                 | (d1, None) \<Rightarrow> fetch_file lib env fuel (src\<lparr>src_size := len\<rparr>) output opts d1)))"

end
