(* ===== verification/Range_Download_Spec.thy ===== *)
theory Range_Download_Spec
  imports Range_Download
begin

text \<open>
  What \<open>DownloadFile\<close> leaves on the disk: the chunks tile the file, the writes of a chunk stay in
  it, and whatever the interleaving of the workers' writes, a download that succeeds consists of
  what the server sent for exactly the ranges asked for.
\<close>

section \<open>Tiling\<close>

fun tiled :: "int \<Rightarrow> int \<Rightarrow> chunk list \<Rightarrow> bool" where
  "tiled s len [] \<longleftrightarrow> s = len"
| "tiled s len (c # cs) \<longleftrightarrow>
     ck_start c = s \<and> s \<le> ck_end c \<and> ck_end c < len \<and> tiled (ck_end c + 1) len cs"

lemma queue_chunks_tiled:
  assumes "0 < cs" and "0 \<le> start" and "0 \<le> len" and "len + cs \<le> max_i64"
    and "queue_chunks fuel start len cs = Some chunks"
  shows "tiled (min start len) len chunks \<and> (\<forall>c\<in>set chunks. ck_end c - ck_start c < cs)"
  using assms
proof (induction fuel arbitrary: start chunks)
  case 0
  then show ?case by (cases "start < len") (simp_all add: min_def)
next
  case (Suc fuel)
  show ?case
  proof (cases "start < len")
    case False
    with Suc.prems(5) show ?thesis by (simp add: min_def)
  next
    case True
    have w: "add64 start cs = start + cs" "sub64 (min (start + cs) len) 1 = min (start + cs) len - 1"
      using True Suc.prems(1-4) by (auto intro!: wrap64_id simp: max_i64_def min_def)
    from Suc.prems(5) True obtain rest where
      rest: "queue_chunks fuel (start + cs) len cs = Some rest"
      and chunks: "chunks = \<lparr>ck_start = start, ck_end = min (start + cs) len - 1\<rparr> # rest"
      by (subst (asm) queue_chunks.simps) (auto simp: w simp del: queue_chunks.simps)
    from Suc.IH [OF _ _ _ _ rest] Suc.prems True show ?thesis
      by (auto simp: chunks)
  qed
qed

lemma queue_chunks_ends:
  assumes "0 < cs" and "0 \<le> start" and "0 \<le> len" and "len + cs \<le> max_i64" and "nat (len - start) \<le> fuel"
  shows "queue_chunks fuel start len cs \<noteq> None"
  using assms
proof (induction fuel arbitrary: start)
  case 0
  then show ?case by simp
next
  case (Suc fuel)
  show ?case
  proof (cases "start < len")
    case True
    have "add64 start cs = start + cs"
      using True Suc.prems(1-4) by (auto intro!: wrap64_id simp: max_i64_def)
    with Suc.IH [of "start + cs"] Suc.prems True show ?thesis
      by (subst queue_chunks.simps) (simp del: queue_chunks.simps)
  qed simp
qed

declare queue_chunks.simps [simp del]

definition clen :: "chunk \<Rightarrow> nat" where
  "clen c = nat (ck_end c - ck_start c + 1)"

definition region :: "chunk \<Rightarrow> byte list \<Rightarrow> byte list" where
  "region c file = take (clen c) (drop (nat (ck_start c)) file)"

lemma tiled_bounds:
  "tiled s len cs \<Longrightarrow> c \<in> set cs \<Longrightarrow> s \<le> ck_start c \<and> ck_start c \<le> ck_end c \<and> ck_end c < len"
  by (induction cs arbitrary: s) fastforce+

lemma tiled_disjoint:
  "tiled s len cs \<Longrightarrow> distinct cs \<and> (\<forall>c\<in>set cs. \<forall>d\<in>set cs. c \<noteq> d \<longrightarrow> ck_end c < ck_start d \<or> ck_end d < ck_start c)"
proof (induction cs arbitrary: s)
  case Nil
  then show ?case by simp
next
  case (Cons a cs)
  then have "tiled (ck_end a + 1) len cs" by simp
  with Cons.IH tiled_bounds [OF this] Cons.prems show ?case by fastforce
qed

lemma tiled_regions:
  "tiled s len cs \<Longrightarrow> 0 \<le> s \<Longrightarrow> length file = nat len \<Longrightarrow>
    concat (map (\<lambda>c. region c file) cs) = drop (nat s) file"
proof (induction cs arbitrary: s)
  case Nil
  then show ?case by simp
next
  case (Cons c cs)
  have e: "nat (ck_end c + 1) = clen c + nat s" using Cons.prems by (simp add: clen_def nat_add_distrib [symmetric])
  have "concat (map (\<lambda>c. region c file) (c # cs)) = region c file @ drop (nat (ck_end c + 1)) file"
    using Cons by simp
  also have "\<dots> = drop (nat s) file"
    using Cons.prems(1) append_take_drop_id [of "clen c" "drop (nat s) file"]
    by (simp add: region_def e)
  finally show ?case .
qed

section \<open>Writes inside a chunk\<close>

definition writes_in :: "chunk \<Rightarrow> file_write list \<Rightarrow> bool" where
  "writes_in c ws \<longleftrightarrow> (\<forall>(pos, bs)\<in>set ws. ck_start c \<le> pos \<and> pos + int (length bs) \<le> ck_end c + 1)"

definition local_writes :: "chunk \<Rightarrow> byte list \<Rightarrow> file_write list \<Rightarrow> byte list" where
  "local_writes c reg ws = foldl (\<lambda>f (pos, bs). write_at f (pos - ck_start c) bs) reg ws"

definition chunk_inside :: "chunk \<Rightarrow> int \<Rightarrow> bool" where
  "chunk_inside c len \<longleftrightarrow> 0 \<le> ck_start c \<and> ck_start c \<le> ck_end c \<and> ck_end c < len"

lemma region_length: "chunk_inside c len \<Longrightarrow> length file = nat len \<Longrightarrow> length (region c file) = clen c"
  by (simp add: region_def chunk_inside_def clen_def) linarith

lemma region_nth: "k < clen c \<Longrightarrow> nat (ck_start c) + clen c \<le> length file \<Longrightarrow>
    region c file ! k = file ! (nat (ck_start c) + k)"
  by (simp add: region_def)

lemma inside_length: "chunk_inside c len \<Longrightarrow> length file = nat len \<Longrightarrow> nat (ck_start c) + clen c \<le> length file"
  by (auto simp: chunk_inside_def clen_def)

lemma region_write_other:
  assumes c: "chunk_inside c len" "length file = nat len" and d: "chunk_inside d len"
    and apart: "ck_end c < ck_start d \<or> ck_end d < ck_start c"
    and w: "ck_start d \<le> pos" "pos + int (length bs) \<le> ck_end d + 1"
  shows "region c (write_at file pos bs) = region c file"
proof (rule nth_equalityI)
  have fit: "nat pos + length bs \<le> length file" using d c(2) w by (auto simp: chunk_inside_def)
  then have len: "length (write_at file pos bs) = nat len" using c(2) by (simp add: write_at_length)
  then show "length (region c (write_at file pos bs)) = length (region c file)"
    using region_length [OF c(1)] c(2) by simp
  fix k
  assume "k < length (region c (write_at file pos bs))"
  then have k: "k < clen c" using region_length [OF c(1) len] by simp
  have kl: "nat (ck_start c) + k < length file" using inside_length [OF c] k by simp
  have out: "\<not> (nat pos \<le> nat (ck_start c) + k \<and> nat (ck_start c) + k < nat pos + length bs)"
    using apart w c(1) d k by (auto simp: chunk_inside_def clen_def)
  show "region c (write_at file pos bs) ! k = region c file ! k"
    using k inside_length [OF c] inside_length [OF c(1) len] out
    by (auto simp: region_nth write_at_nth [OF fit kl])
qed

lemma region_write_same:
  assumes c: "chunk_inside c len" "length file = nat len"
    and w: "ck_start c \<le> pos" "pos + int (length bs) \<le> ck_end c + 1"
  shows "region c (write_at file pos bs) = write_at (region c file) (pos - ck_start c) bs"
proof (rule nth_equalityI)
  have fit: "nat pos + length bs \<le> length file" using c w by (auto simp: chunk_inside_def)
  then have len: "length (write_at file pos bs) = nat len" using c(2) by (simp add: write_at_length)
  have fit2: "nat (pos - ck_start c) + length bs \<le> length (region c file)"
    using w c(1) region_length [OF c] by (auto simp: clen_def chunk_inside_def)
  then show "length (region c (write_at file pos bs)) = length (write_at (region c file) (pos - ck_start c) bs)"
    using region_length [OF c(1) len] region_length [OF c] by (simp add: write_at_length)
  fix k
  assume "k < length (region c (write_at file pos bs))"
  then have k: "k < clen c" using region_length [OF c(1) len] by simp
  have kl: "nat (ck_start c) + k < length file" using inside_length [OF c] k by simp
  have kr: "k < length (region c file)" using k region_length [OF c] by simp
  have pos: "nat pos = nat (ck_start c) + nat (pos - ck_start c)"
    using w c(1) by (auto simp: chunk_inside_def)
  show "region c (write_at file pos bs) ! k = write_at (region c file) (pos - ck_start c) bs ! k"
    using k inside_length [OF c] inside_length [OF c(1) len]
    by (auto simp: region_nth write_at_nth [OF fit kl] write_at_nth [OF fit2 kr] pos)
qed

section \<open>Copying and fetching\<close>

lemma read_some_ok: "read_some r n = (r', bs, None) \<Longrightarrow> n \<le> length (r_data r) \<and> bs = take n (r_data r)
    \<and> r' = r\<lparr>r_data := drop n (r_data r)\<rparr>"
  by (auto simp: read_some_def split: if_splits)

lemma copy_chunk_total: "0 < buffer \<Longrightarrow> copy_chunk buffer wr part body position \<noteq> None"
proof (induction buffer wr part body position rule: copy_chunk.induct)
  case (1 buffer wr part body position)
  show ?case
  proof (cases "position \<le> ck_end part")
    case False
    then show ?thesis by (subst copy_chunk.simps) simp
  next
    case True
    let ?n = "min buffer (ck_end part - position + 1)"
    obtain body' bs err where r: "read_some body (nat ?n) = (body', bs, err)" using prod_cases3 by blast
    have nonempty: "err = None \<Longrightarrow> bs \<noteq> []"
      using read_some_ok [of body "nat ?n" body' bs] r True 1(2) by auto
    obtain written e where w: "wr position bs = (written, e)" by fastforce
    have rec: "copy_chunk buffer wr part body' (position + int (length bs)) \<noteq> None"
      if "bs \<noteq> []" "e = None" "written = length bs" "err = None"
      using 1(1) [OF _ _ refl r [symmetric] refl that(1) w [symmetric] that(2) _ refl that(4)] True 1(2) that by simp
    show ?thesis
      using True 1(2) r nonempty w rec by (subst copy_chunk.simps) (auto simp: Let_def split: option.split)
  qed
qed

lemma writes_in_Cons: "writes_in c ((p, bs) # ws) \<longleftrightarrow>
    ck_start c \<le> p \<and> p + int (length bs) \<le> ck_end c + 1 \<and> writes_in c ws"
  by (auto simp: writes_in_def)

lemma writes_in_append [simp]: "writes_in c (xs @ ys) \<longleftrightarrow> writes_in c xs \<and> writes_in c ys"
  by (auto simp: writes_in_def)

lemma writes_in_Nil [simp]: "writes_in c []"
  by (simp add: writes_in_def)

lemma local_writes_append: "local_writes c reg (xs @ ys) = local_writes c (local_writes c reg xs) ys"
  by (simp add: local_writes_def)

lemma local_writes_Nil [simp]: "local_writes c reg [] = reg"
  by (simp add: local_writes_def)

lemma local_writes_length:
  "writes_in c ws \<Longrightarrow> length reg = clen c \<Longrightarrow> length (local_writes c reg ws) = clen c"
proof (induction ws arbitrary: reg)
  case Nil
  then show ?case by simp
next
  case (Cons w ws)
  obtain p bs where w: "w = (p, bs)" by fastforce
  with Cons.prems have "length (write_at reg (p - ck_start c) bs) = clen c"
    by (auto simp: write_at_length clen_def writes_in_Cons)
  with Cons w show ?case by (simp add: local_writes_def writes_in_Cons)
qed

lemma copy_chunk_writes:
  assumes "copy_chunk buffer wr part body position = Some (body', ws, r)" and "ck_start part \<le> position"
  shows "writes_in part ws"
  using assms
proof (induction buffer wr part body position arbitrary: body' ws r rule: copy_chunk.induct)
  case (1 buffer wr part body position)
  let ?n = "min buffer (ck_end part - position + 1)"
  obtain body1 bs err where rd: "read_some body (nat ?n) = (body1, bs, err)" using prod_cases3 by blast
  obtain written e where w: "wr position bs = (written, e)" by fastforce
  show ?case
  proof (cases "position \<le> ck_end part \<and> 0 < buffer \<and> bs \<noteq> []")
    case False
    with "1.prems" rd show ?thesis
      by (subst (asm) copy_chunk.simps) (auto simp: Let_def split: if_splits option.splits)
  next
    case True
    have fits: "position + int (length bs) \<le> ck_end part + 1"
      using rd True by (auto simp: read_some_def)
    consider x where "ws = [(position, take x bs)]"
      | b ws' where "ws = (position, bs) # ws'" "e = None" "written = length bs" "err = None"
        "copy_chunk buffer wr part body1 (position + int (length bs)) = Some (b, ws', r)"
      | "ws = [(position, bs)]"
      using "1.prems"(1) True rd w
      by (subst (asm) copy_chunk.simps) (auto simp: Let_def split: if_splits option.splits)
    then show ?thesis
    proof cases
      case (2 b ws')
      have "writes_in part ws'"
        using "1.IH" [OF _ _ refl rd [symmetric] refl _ w [symmetric] 2(2) _ refl 2(4,5)] True 2(3) "1.prems"(2) by simp
      with 2 fits "1.prems"(2) show ?thesis by (simp add: writes_in_Cons)
    qed (use fits "1.prems"(2) in \<open>auto simp: writes_in_Cons\<close>)
  qed
qed

text \<open>A copy without error overwrites the rest of the chunk with the next bytes of the body.\<close>

lemma copy_chunk_data:
  assumes "copy_chunk buffer wr part body position = Some (body', ws, None)"
    and "ck_start part \<le> position" and "position \<le> ck_end part + 1" and "length reg = clen part"
  shows "nat (ck_end part + 1 - position) \<le> length (r_data body)
    \<and> body' = body\<lparr>r_data := drop (nat (ck_end part + 1 - position)) (r_data body)\<rparr>
    \<and> local_writes part reg ws
      = take (nat (position - ck_start part)) reg @ take (nat (ck_end part + 1 - position)) (r_data body)"
  using assms
proof (induction buffer wr part body position arbitrary: body' ws reg rule: copy_chunk.induct)
  case (1 buffer wr part body position)
  let ?n = "min buffer (ck_end part - position + 1)"
  obtain body1 bs err where rd: "read_some body (nat ?n) = (body1, bs, err)" using prod_cases3 by blast
  obtain written e where w: "wr position bs = (written, e)" by fastforce
  show ?case
  proof (cases "position \<le> ck_end part")
    case False
    with "1.prems" have "position = ck_end part + 1" "body' = body" "ws = []"
      by (auto simp: copy_chunk.simps [of buffer wr part body position])
    with "1.prems"(4) show ?thesis by (simp add: clen_def)
  next
    case True
    with "1.prems"(1) rd w obtain ws' where ok: "0 < buffer" "bs \<noteq> []" "e = None" "written = length bs" "err = None"
      and ws: "ws = (position, bs) # ws'"
      and rec: "copy_chunk buffer wr part body1 (position + int (length bs)) = Some (body', ws', None)"
      by (subst (asm) copy_chunk.simps) (auto simp: Let_def split: if_splits option.splits)
    from read_some_ok [OF rd [unfolded ok(5)]] have n: "nat ?n \<le> length (r_data body)"
      and bs: "bs = take (nat ?n) (r_data body)" and body1: "body1 = body\<lparr>r_data := drop (nat ?n) (r_data body)\<rparr>"
      by auto
    have lbs: "int (length bs) = ?n" using n True ok(1) by (simp add: bs)
    define k where "k = length bs"
    have k: "int k = ?n" "nat ?n = k" using lbs by (simp_all add: k_def)
    let ?reg = "write_at reg (position - ck_start part) bs"
    have fit: "nat (position - ck_start part) + length bs \<le> length reg"
      using "1.prems"(2,4) True lbs by (simp add: clen_def)
    have lreg: "length ?reg = clen part" using fit "1.prems"(4) by (simp add: write_at_length)
    have ih: "nat (ck_end part + 1 - (position + int k)) \<le> length (r_data body1)
      \<and> body' = body1\<lparr>r_data := drop (nat (ck_end part + 1 - (position + int k))) (r_data body1)\<rparr>
      \<and> local_writes part ?reg ws' = take (nat (position + int k - ck_start part)) ?reg
          @ take (nat (ck_end part + 1 - (position + int k))) (r_data body1)"
      using "1.IH" [OF _ _ refl rd [symmetric] refl ok(2) w [symmetric] ok(3) _ refl ok(5) rec _ _ lreg]
        True ok(1,4) "1.prems"(2) k by (simp add: k_def)
    have split: "nat (ck_end part + 1 - position) = k + nat (ck_end part + 1 - (position + int k))"
      using True k(1) by linarith
    have pre: "nat (position + int k - ck_start part) = nat (position - ck_start part) + k"
      using "1.prems"(2) by linarith
    have "take (nat (position - ck_start part) + k) ?reg = take (nat (position - ck_start part)) reg @ bs"
      using fit by (simp add: write_at_inside k_def)
    moreover have "drop (nat (ck_end part + 1 - (position + int k)) + k) (r_data body)
        = drop (k + nat (ck_end part + 1 - (position + int k))) (r_data body)" by (simp add: add.commute)
    ultimately show ?thesis
      using n ih unfolding split pre
      by (auto simp: ws body1 local_writes_def k(2) take_add bs)
  qed
qed

text \<open>What a successful fetch rests on: an accepted response to a request for exactly this range, whose
  body is the data (and nothing more, when its length was not announced).\<close>

definition served_by :: "'u url_lib \<Rightarrow> chunk_env \<Rightarrow> source \<Rightarrow> chunk \<Rightarrow> string \<Rightarrow> byte list \<Rightarrow> bool" where
  "served_by lib env src part mode bs \<longleftrightarrow>
     (\<exists>req resp.
        ranged_request lib (src_url src) part (effective_range_mode lib (src_url src) mode) = Inr req
        \<and> ce_client env req = Inr resp
        \<and> validate_range_response resp part (effective_range_mode lib (src_url src) mode) = None
        \<and> clen part \<le> length (r_data (rs_body resp)) \<and> bs = take (clen part) (r_data (rs_body resp))
        \<and> (rs_length resp < 0 \<longrightarrow> r_data (rs_body resp) = bs \<and> r_end (rs_body resp) = Eof))"

lemma fetch_writes: "fetch_chunk lib env src part mode buffer = Some (ws, r) \<Longrightarrow> writes_in part ws"
  by (auto simp: fetch_chunk_def Let_def split: sum.splits option.splits if_splits dest!: copy_chunk_writes)

lemma fetch_total: "0 < buffer \<Longrightarrow> fetch_chunk lib env src part mode buffer \<noteq> None"
proof -
  assume b: "0 < buffer"
  have c: "\<exists>body ws e. copy_chunk buffer (ce_write env) part r (ck_start part) = Some (body, ws, e)" for r
    using copy_chunk_total [OF b, of "ce_write env" part r "ck_start part"]
    by (cases "copy_chunk buffer (ce_write env) part r (ck_start part)") auto
  show ?thesis
  proof (cases "\<exists>req resp. ranged_request lib (src_url src) part (effective_range_mode lib (src_url src) mode) = Inr req
      \<and> ce_client env req = Inr resp")
    case False
    then show ?thesis by (auto simp: fetch_chunk_def Let_def split: sum.split)
  next
    case True
    then obtain req resp where "ranged_request lib (src_url src) part (effective_range_mode lib (src_url src) mode) = Inr req"
      "ce_client env req = Inr resp" by blast
    moreover from c obtain body ws e where "copy_chunk buffer (ce_write env) part (rs_body resp) (ck_start part) = Some (body, ws, e)"
      by blast
    ultimately show ?thesis by (simp add: fetch_chunk_def Let_def split: option.split)
  qed
qed

lemma fetch_data:
  assumes "fetch_chunk lib env src part mode buffer = Some (ws, None)" and "ck_start part \<le> ck_end part"
    and "length reg = clen part"
  shows "served_by lib env src part mode (local_writes part reg ws)"
proof -
  let ?mode = "effective_range_mode lib (src_url src) mode"
  from assms(1) obtain req resp body' where req: "ranged_request lib (src_url src) part ?mode = Inr req"
    and resp: "ce_client env req = Inr resp" and v: "validate_range_response resp part ?mode = None"
    and copy: "copy_chunk buffer (ce_write env) part (rs_body resp) (ck_start part) = Some (body', ws, None)"
    and tail: "rs_length resp < 0 \<longrightarrow> r_data body' = [] \<and> r_end body' = Eof"
    by (auto simp: fetch_chunk_def Let_def split: sum.splits option.splits if_splits)
  have n: "nat (ck_end part + 1 - ck_start part) = clen part" by (simp add: clen_def algebra_simps)
  from copy_chunk_data [OF copy order_refl _ assms(3)] assms(2)
  have "clen part \<le> length (r_data (rs_body resp))"
    and "body' = rs_body resp\<lparr>r_data := drop (clen part) (r_data (rs_body resp))\<rparr>"
    and "local_writes part reg ws = take (clen part) (r_data (rs_body resp))"
    by (simp_all add: n)
  with req resp v tail show ?thesis unfolding served_by_def by fastforce
qed

lemma tries_writes:
  assumes "\<And>a ws r. fetch a = Some (ws, r) \<Longrightarrow> writes_in part ws"
    and "chunk_tries fetch wait name part as lst = Some (ws, r)"
  shows "writes_in part ws"
  using assms(2)
proof (induction as arbitrary: lst ws r)
  case Nil
  then show ?case by simp
next
  case (Cons a as)
  then show ?case using assms(1) by (auto split: option.splits)
qed

lemma tries_data:
  assumes "chunk_tries fetch wait name part as lst = Some (ws, None)"
  shows "\<exists>a pre ws'. a \<in> set as \<and> ws = pre @ ws' \<and> fetch a = Some (ws', None)"
  using assms
proof (induction as arbitrary: lst ws)
  case Nil
  then show ?case by simp
next
  case (Cons a as)
  have wait: "(if a = 0 then None else wait a) = None"
    using Cons.prems by (auto split: option.splits if_splits)
  from Cons.prems wait consider "fetch a = Some (ws, None)"
    | pre e ws' where "fetch a = Some (pre, Some e)" "ws = pre @ ws'"
      "chunk_tries fetch wait name part as e = Some (ws', None)"
    by (auto split: option.splits simp del: if_split_asm)
  then show ?case
  proof cases
    case 1
    then show ?thesis by (intro exI [of _ a] exI [of _ "[]"] exI [of _ ws]) auto
  next
    case (2 pre e ws')
    from Cons.IH [OF 2(3)] obtain b p q where "b \<in> set as" "ws' = p @ q" "fetch b = Some (q, None)" by blast
    with 2(2) show ?thesis by (intro exI [of _ b] exI [of _ "pre @ p"] exI [of _ q]) simp
  qed
qed

text \<open>The data of a chunk, over the tries it has.\<close>

definition chunk_served :: "'u url_lib \<Rightarrow> (chunk \<Rightarrow> error option \<Rightarrow> int \<Rightarrow> chunk_env) \<Rightarrow> source \<Rightarrow> dl_options
    \<Rightarrow> chunk \<Rightarrow> byte list \<Rightarrow> bool" where
  "chunk_served lib envs src opts part bs \<longleftrightarrow>
     (\<exists>ctx attempt. served_by lib (envs part ctx attempt) src part (do_range_mode opts) bs)"

section \<open>The contract of the crew\<close>

text \<open>A chunk's writes stay inside it, and without an error they leave good data there, whatever was
  there before.\<close>

locale chunk_source =
  fixes run :: "chunk \<Rightarrow> error option \<Rightarrow> (file_write list \<times> error option) option"
    and good :: "chunk \<Rightarrow> byte list \<Rightarrow> bool"
  assumes run_inside: "run c ctx = Some (ws, r) \<Longrightarrow> writes_in c ws"
    and run_good: "run c ctx = Some (ws, None) \<Longrightarrow> ck_start c \<le> ck_end c \<Longrightarrow> length reg = clen c \<Longrightarrow>
      good c (local_writes c reg ws)"

interpretation fetched: chunk_source
  "\<lambda>part ctx. download_chunk lib (envs part ctx) src opts part" "chunk_served lib envs src opts"
  for lib envs src opts
proof unfold_locales
  fix c ctx ws r
  assume "download_chunk lib (envs c ctx) src opts c = Some (ws, r)"
  then show "writes_in c ws"
    unfolding download_chunk_def by (rule tries_writes [rotated]) (rule fetch_writes)
next
  fix c ctx ws and reg :: "byte list"
  assume run: "download_chunk lib (envs c ctx) src opts c = Some (ws, None)"
    and c: "ck_start c \<le> ck_end c" and reg: "length reg = clen c"
  from tries_data [OF run [unfolded download_chunk_def]] obtain a pre ws' where ws: "ws = pre @ ws'"
    and f: "fetch_chunk lib (envs c ctx a) src c (do_range_mode opts) (do_buffer_size opts) = Some (ws', None)"
    by blast
  have "writes_in c ws"
    using run unfolding download_chunk_def by (rule tries_writes [rotated]) (rule fetch_writes)
  then have "length (local_writes c reg pre) = clen c" using reg by (simp add: ws local_writes_length)
  from fetch_data [OF f c this] show "chunk_served lib envs src opts c (local_writes c reg ws)"
    unfolding chunk_served_def ws local_writes_append by blast
qed

section \<open>The crew\<close>

context chunk_source
begin

text \<open>Who has which chunk: every worker has its own, and none is in the queue.\<close>

definition claims_inv :: "int \<Rightarrow> chunk list \<Rightarrow> crew \<Rightarrow> bool" where
  "claims_inv len chunks c \<longleftrightarrow>
     distinct (cr_queue c) \<and> set (cr_queue c) \<subseteq> set chunks
     \<and> (\<forall>i<length (cr_workers c). \<forall>p ws r. cr_workers c ! i = Writing p ws r \<longrightarrow>
          p \<in> set chunks \<and> p \<notin> set (cr_queue c) \<and> writes_in p ws)
     \<and> (\<forall>i<length (cr_workers c). \<forall>j<length (cr_workers c). \<forall>p ws r q vs s. i \<noteq> j \<longrightarrow>
          cr_workers c ! i = Writing p ws r \<longrightarrow> cr_workers c ! j = Writing q vs s \<longrightarrow> p \<noteq> q)
     \<and> length (cr_file c) = nat len"

text \<open>A worker without an error will leave good data; while nobody has failed, a chunk is waiting, in
  work or good.\<close>

definition working :: "chunk_worker list \<Rightarrow> chunk \<Rightarrow> bool" where
  "working ws p \<longleftrightarrow> (\<exists>vs r. Writing p vs r \<in> set ws)"

definition data_inv :: "chunk list \<Rightarrow> crew \<Rightarrow> bool" where
  "data_inv chunks c \<longleftrightarrow>
     (\<forall>p ws. Writing p ws None \<in> set (cr_workers c) \<longrightarrow> good p (local_writes p (region p (cr_file c)) ws))
     \<and> (cr_ctx c = None \<and> Stuck \<notin> set (cr_workers c) \<longrightarrow> (\<forall>p\<in>set chunks.
          p \<in> set (cr_queue c) \<or> working (cr_workers c) p \<or> good p (region p (cr_file c))))"

definition ctx_inv :: "crew \<Rightarrow> bool" where
  "ctx_inv c \<longleftrightarrow>
     (cr_ctx c = None \<longleftrightarrow> cr_errs c = None \<and> cr_outer c = None)
     \<and> (cr_ctx c = None \<and> Left \<in> set (cr_workers c) \<longrightarrow> cr_queue c = [])"

lemma in_update: "x \<in> set (ws[i := w]) \<Longrightarrow> x = w \<or> (\<exists>j<length ws. j \<noteq> i \<and> ws ! j = x)"
proof -
  assume "x \<in> set (ws[i := w])"
  then obtain j where "j < length ws" "ws[i := w] ! j = x" by (auto simp: in_set_conv_nth)
  then show ?thesis by (cases "j = i") auto
qed

lemma in_update_set: "x \<in> set (ws[i := w]) \<Longrightarrow> x = w \<or> x \<in> set ws"
  using in_update [of x ws i w] by auto

lemma stays: "ws ! i \<noteq> x \<Longrightarrow> x \<in> set ws \<Longrightarrow> x \<in> set (ws[i := w])"
proof -
  assume i: "ws ! i \<noteq> x" and "x \<in> set ws"
  then obtain j where j: "j < length ws" "ws ! j = x" by (auto simp: in_set_conv_nth)
  with i have "ws[i := w] ! j = x" by (cases "j = i") auto
  with j show ?thesis using nth_mem [of j "ws[i := w]"] by simp
qed

lemma working_stays: "(\<And>vs r. ws ! i \<noteq> Writing p vs r) \<Longrightarrow> working ws p \<Longrightarrow> working (ws[i := w]) p"
  unfolding working_def by (metis stays)

lemma working_new: "i < length ws \<Longrightarrow> working (ws[i := Writing p vs r]) p"
  unfolding working_def by (metis set_update_memI)

lemma claims_take:
  assumes "claims_inv len chunks c" and "i < length (cr_workers c)" and "cr_workers c ! i = Free"
  shows "claims_inv len chunks (crew_take run i c)"
proof (cases "cr_queue c")
  case Nil
  with assms show ?thesis by (auto simp: crew_take_def claims_inv_def nth_list_update)
next
  case (Cons p rest)
  show ?thesis
  proof (cases "run p (cr_ctx c)")
    case None
    with Cons assms show ?thesis by (auto simp: crew_take_def claims_inv_def nth_list_update)
  next
    case (Some wr)
    obtain ws r where wr: "wr = (ws, r)" by fastforce
    have "writes_in p ws" using Some wr run_inside by blast
    moreover have "cr_workers c ! j \<noteq> Writing p vs s" if "j < length (cr_workers c)" for j vs s
      using assms(1) that Cons unfolding claims_inv_def by (metis list.set_intros(1))
    ultimately show ?thesis
      using Some wr Cons assms by (auto simp: crew_take_def claims_inv_def nth_list_update)
  qed
qed

lemma data_take:
  assumes "claims_inv len chunks c" and "data_inv chunks c" and i: "i < length (cr_workers c)"
    and free: "cr_workers c ! i = Free" and "tiled 0 len chunks"
  shows "data_inv chunks (crew_take run i c)"
proof -
  have stuck: "Stuck \<notin> set ((cr_workers c)[i := w]) \<Longrightarrow> Stuck \<notin> set (cr_workers c)" for w
    using stays [of "cr_workers c" i Stuck w] free by auto
  have work: "working (cr_workers c) q \<Longrightarrow> working ((cr_workers c)[i := w]) q" for q w
    by (rule working_stays) (simp_all add: free)
  show ?thesis
  proof (cases "cr_queue c")
    case Nil
    with assms(2) stuck work show ?thesis
      by (auto simp: crew_take_def data_inv_def dest!: in_update_set)
  next
    case (Cons p rest)
    show ?thesis
    proof (cases "run p (cr_ctx c)")
      case None
      with Cons assms(2) set_update_memI [OF i, of Stuck] show ?thesis
        by (auto simp: crew_take_def data_inv_def dest!: in_update_set)
    next
      case (Some wr)
      obtain ws r where wr: "wr = (ws, r)" by fastforce
      have p: "chunk_inside p len"
        using tiled_bounds [OF assms(5), of p] assms(1) Cons
        by (auto simp: claims_inv_def chunk_inside_def)
      have "length (region p (cr_file c)) = clen p"
        using assms(1) by (intro region_length [OF p]) (simp add: claims_inv_def)
      then have g: "r = None \<Longrightarrow> good p (local_writes p (region p (cr_file c)) ws)"
        using run_good Some wr p by (simp add: chunk_inside_def)
      have "working ((cr_workers c)[i := Writing p ws r]) p" by (rule working_new [OF i])
      with Some wr Cons assms(2) g stuck work show ?thesis
        by (auto simp: crew_take_def data_inv_def dest!: in_update_set)
    qed
  qed
qed

lemma claims_write:
  assumes inv: "claims_inv len chunks c" and i: "i < length (cr_workers c)"
    and w: "cr_workers c ! i = Writing p ws r" and tiled: "tiled 0 len chunks"
  shows "claims_inv len chunks (crew_write i p ws r c)"
proof (cases ws)
  case Nil
  with inv i w show ?thesis
    by (cases r) (auto simp: crew_write_def Let_def claims_inv_def nth_list_update)
next
  case (Cons x vs)
  obtain pos bs where x: "x = (pos, bs)" by fastforce
  from inv i w have p: "p \<in> set chunks" and wi: "writes_in p ws" and len: "length (cr_file c) = nat len"
    unfolding claims_inv_def by blast+
  from tiled_bounds [OF tiled p] wi have "nat pos + length bs \<le> nat len"
    unfolding Cons x writes_in_Cons by linarith
  with len have "length (write_at (cr_file c) pos bs) = nat len" by (simp add: write_at_length)
  moreover have "writes_in p vs" using wi by (simp add: Cons x writes_in_Cons)
  ultimately show ?thesis
    using inv i w by (auto simp: crew_write_def Cons x claims_inv_def nth_list_update)
qed

lemma data_write:
  assumes claims: "claims_inv len chunks c" and data: "data_inv chunks c" and i: "i < length (cr_workers c)"
    and w: "cr_workers c ! i = Writing p ws r" and tiled: "tiled 0 len chunks"
  shows "data_inv chunks (crew_write i p ws r c)"
proof -
  have stuck: "Stuck \<notin> set ((cr_workers c)[i := x]) \<Longrightarrow> Stuck \<notin> set (cr_workers c)" for x
    using stays [of "cr_workers c" i Stuck x] w by auto
  have work: "q \<noteq> p \<Longrightarrow> working (cr_workers c) q \<Longrightarrow> working ((cr_workers c)[i := x]) q" for q x
    by (rule working_stays) (simp_all add: w)
  have mem: "Writing p ws r \<in> set (cr_workers c)" using i w nth_mem by metis
  show ?thesis
  proof (cases ws)
    case Nil
    show ?thesis
    proof (cases r)
      case None
      from data mem have "good p (local_writes p (region p (cr_file c)) [])"
        unfolding data_inv_def Nil None by blast
      then have "working (cr_workers c) q \<Longrightarrow> \<not> good q (region q (cr_file c)) \<Longrightarrow>
          working ((cr_workers c)[i := x]) q" for q x
        using work by (cases "q = p") auto
      with data stuck show ?thesis
        by (auto simp: crew_write_def Nil None data_inv_def Let_def dest!: in_update_set)
    next
      case (Some e)
      with data show ?thesis
        by (auto simp: crew_write_def Nil data_inv_def dest!: in_update_set split: option.split)
    qed
  next
    case (Cons x vs)
    obtain pos bs where x: "x = (pos, bs)" by fastforce
    from claims i w have p: "p \<in> set chunks" and wi: "writes_in p ws" and len: "length (cr_file c) = nat len"
      unfolding claims_inv_def by blast+
    have inside: "q \<in> set chunks \<Longrightarrow> chunk_inside q len" for q
      using tiled_bounds [OF tiled] by (auto simp: chunk_inside_def)
    have wb: "ck_start p \<le> pos" "pos + int (length bs) \<le> ck_end p + 1"
      using wi by (simp_all add: Cons x writes_in_Cons)
    have same: "region p (write_at (cr_file c) pos bs) = write_at (region p (cr_file c)) (pos - ck_start p) bs"
      by (rule region_write_same [OF inside [OF p] len wb])
    have other: "region q (write_at (cr_file c) pos bs) = region q (cr_file c)" if "q \<in> set chunks" "q \<noteq> p" for q
      using tiled_disjoint [OF tiled] that p
      by (intro region_write_other [OF inside [OF that(1)] len inside [OF p] _ wb]) blast
    have rest: "good q (local_writes q (region q (write_at (cr_file c) pos bs)) us)"
      if "Writing q us None \<in> set ((cr_workers c)[i := Writing p vs r])" for q us
      using in_update [OF that]
    proof
      assume "Writing q us None = Writing p vs r"
      moreover from this have "good p (local_writes p (region p (cr_file c)) ws)"
        using data mem by (auto simp: data_inv_def)
      ultimately show ?thesis by (simp add: same Cons x local_writes_def)
    next
      assume "\<exists>j<length (cr_workers c). j \<noteq> i \<and> cr_workers c ! j = Writing q us None"
      then obtain j where j: "j < length (cr_workers c)" "j \<noteq> i" "cr_workers c ! j = Writing q us None" by blast
      have "q \<in> set chunks" using claims j unfolding claims_inv_def by blast
      moreover have "q \<noteq> p" using claims i w j unfolding claims_inv_def by blast
      moreover have "good q (local_writes q (region q (cr_file c)) us)"
        using data j nth_mem unfolding data_inv_def by metis
      ultimately show ?thesis by (simp add: other)
    qed
    have "working ((cr_workers c)[i := Writing p vs r]) p" by (rule working_new [OF i])
    with data stuck work rest other show ?thesis
      unfolding crew_write_def Cons x data_inv_def by (auto simp del: split_paired_All) metis
  qed
qed

lemma act_inv:
  assumes claims: "claims_inv len chunks c" and data: "data_inv chunks c" and tiled: "tiled 0 len chunks"
  shows "claims_inv len chunks (crew_act run a c) \<and> data_inv chunks (crew_act run a c)"
proof (cases a)
  case (Outer_done e)
  with claims data show ?thesis
    by (auto simp: crew_act_def claims_inv_def data_inv_def split: option.split)
next
  case (Stop_queue k)
  with claims data show ?thesis
    by (auto simp: crew_act_def claims_inv_def data_inv_def dest: in_set_takeD)
next
  case (Step i now)
  show ?thesis
  proof (cases "i < length (cr_workers c)")
    case False
    with Step claims data show ?thesis by (simp add: crew_act_def)
  next
    case i: True
    show ?thesis
    proof (cases "cr_workers c ! i")
      case Free
      with Step i claims_take [OF claims i] data_take [OF claims data i _ tiled] show ?thesis
        by (simp add: crew_act_def)
    next
      case (Writing p ws r)
      with Step i claims_write [OF claims i Writing tiled] data_write [OF claims data i Writing tiled]
      show ?thesis by (simp add: crew_act_def)
    next
      case (Reporting n)
      have "Stuck \<notin> set ((cr_workers c)[i := Free]) \<Longrightarrow> Stuck \<notin> set (cr_workers c)"
        using stays [of "cr_workers c" i Stuck Free] Reporting by auto
      moreover have "working (cr_workers c) q \<Longrightarrow> working ((cr_workers c)[i := Free]) q" for q
        by (rule working_stays) (simp_all add: Reporting)
      moreover have "claims_inv len chunks (crew_act run a c)"
        using claims i Step Reporting by (auto simp: crew_act_def claims_inv_def nth_list_update)
      ultimately show ?thesis
        using data i Step Reporting by (auto simp: crew_act_def data_inv_def dest!: in_update_set)
    qed (use Step claims data i in \<open>simp_all add: crew_act_def\<close>)
  qed
qed

lemma ctx_act: "ctx_inv c \<Longrightarrow> ctx_inv (crew_act run a c)"
  by (cases a)
     (auto simp: crew_act_def ctx_inv_def crew_take_def crew_write_def Let_def
       split: chunk_worker.split list.split option.split dest!: in_update_set)

lemma schedule_inv:
  assumes "tiled 0 len chunks"
  shows "claims_inv len chunks c \<and> data_inv chunks c \<and> ctx_inv c \<Longrightarrow>
    claims_inv len chunks (foldl (\<lambda>c a. crew_act run a c) c schedule)
    \<and> data_inv chunks (foldl (\<lambda>c a. crew_act run a c) c schedule)
    \<and> ctx_inv (foldl (\<lambda>c a. crew_act run a c) c schedule)"
  using act_inv [OF _ _ assms] ctx_act by (induction schedule arbitrary: c) simp_all

text \<open>When the crew has left without an error, every chunk of the file is good.\<close>

lemma crew_good:
  assumes tiled: "tiled 0 (src_size src) chunks" and sized: "length file = nat (src_size src)"
    and crew: "0 < do_workers opts" "0 < chunk_count (src_size src) (do_chunk_size opts)"
    and ok: "download_chunks run schedule src opts progress started now chunks file = Some (file', t, None)"
  shows "length file' = nat (src_size src) \<and> (\<forall>p\<in>set chunks. good p (region p file'))"
proof -
  let ?c0 = "new_crew src opts progress started chunks file"
  define c where "c = foldl (\<lambda>c a. crew_act run a c) ?c0 schedule"
  have "claims_inv (src_size src) chunks ?c0 \<and> data_inv chunks ?c0 \<and> ctx_inv ?c0"
    using tiled_disjoint [OF tiled] sized by (auto simp: claims_inv_def data_inv_def ctx_inv_def new_crew_def)
  from schedule_inv [OF tiled this] have claims: "claims_inv (src_size src) chunks c"
    and data: "data_inv chunks c" and ctx: "ctx_inv c" by (simp_all add: c_def)
  have "length (cr_workers (crew_act run a c)) = length (cr_workers c)" for a c
    by (simp add: crew_act_def crew_take_def crew_write_def Let_def split: chunk_action.split
        chunk_worker.split list.split option.split prod.split)
  then have "length (cr_workers (foldl (\<lambda>c a. crew_act run a c) c0 schedule)) = length (cr_workers c0)" for c0
    by (induction schedule arbitrary: c0) simp_all
  then have "length (cr_workers c) = length (cr_workers ?c0)" by (simp add: c_def)
  then have ne: "cr_workers c \<noteq> []" using crew by (auto simp: new_crew_def)
  from ok have left: "\<forall>w\<in>set (cr_workers c). w = Left" and file': "file' = cr_file c"
    and r: "snd (crew_result src now c) = None"
    by (auto simp: download_chunks_def Let_def c_def split: if_splits prod.splits)
  from r have "cr_errs c = None" "cr_outer c = None" by (auto simp: crew_result_def split: option.splits)
  with ctx have none: "cr_ctx c = None" by (simp add: ctx_inv_def)
  from left ne have "Left \<in> set (cr_workers c)" by (cases "cr_workers c") auto
  with ctx none have "cr_queue c = []" by (simp add: ctx_inv_def)
  moreover have "\<not> working (cr_workers c) p" "Stuck \<notin> set (cr_workers c)" for p
    using left by (auto simp: working_def)
  ultimately show ?thesis
    using data none claims by (auto simp: data_inv_def claims_inv_def file')
qed

end

section \<open>The file\<close>

lemma normalized_positive:
  "0 < do_chunk_size (normalized_options opts)" "0 < do_workers (normalized_options opts)"
  "0 < do_retries (normalized_options opts)" "0 < do_buffer_size (normalized_options opts)"
  by (simp_all add: normalized_options_def Let_def default_copy_buffer_size_def push_bit_eq_mult)

lemma probe_positive: "probe_source_size lib client u mode = Inr n \<Longrightarrow> 0 < n"
  by (auto simp: probe_source_size_def parse_content_range_size_def Let_def
      split: sum.splits if_splits option.splits prod.splits)

lemma known_positive: "known_size lib env src opts = Inr n \<Longrightarrow> 0 < n"
  by (auto simp: known_size_def split: if_splits dest: probe_positive)

lemma chunk_count_positive:
  assumes "0 < len" and "0 < cs" and "len + cs \<le> max_i64"
  shows "0 < chunk_count len cs"
proof -
  have "wrap64 (len + cs) = len + cs" "wrap64 (len + cs - 1) = len + cs - 1"
    using assms by (auto intro!: wrap64_id simp: max_i64_def)
  then have "chunk_count len cs = (len + cs - 1) div cs"
    using assms by (simp add: chunk_count_def go_div_nonneg)
  then show ?thesis using assms by (simp add: pos_imp_zdiv_pos_iff)
qed

lemma part_name_neq: "part_name output \<noteq> output"
  by (simp add: part_name_def)

lemma fetch_file_done:
  assumes opts: "0 < do_chunk_size opts" "0 < do_workers opts" and len: "0 < src_size src"
    and bound: "src_size src + do_chunk_size opts \<le> max_i64"
    and created: "d (part_name output) = Some []"
    and ok: "fetch_file lib env fuel src output opts d = Some (d', calls, None)"
  shows "\<exists>chunks bytes. tiled 0 (src_size src) chunks
      \<and> (\<forall>c\<in>set chunks. chunk_served lib (fe_chunk env) src opts c (bytes c))
      \<and> d' output = Some (concat (map bytes chunks))"
proof -
  let ?tmp = "part_name output"
  let ?run = "\<lambda>part ctx. download_chunk lib (fe_chunk env part ctx) src opts part"
  from ok obtain d1 chunks bs t where
    tr: "os_truncate (fe_faults env) ?tmp (src_size src) d = (d1, None)"
    and q: "queue_chunks fuel 0 (src_size src) (do_chunk_size opts) = Some chunks"
    and dl: "download_chunks ?run (fe_schedule env) src opts (fe_progress env) (fe_started env) (fe_ended env)
        chunks (contents ?tmp d1) = Some (bs, t, None)"
    and rn: "os_rename (fe_faults env) ?tmp output (d1(?tmp \<mapsto> bs)) = (d', None)"
    by (auto simp: fetch_file_def Let_def split: prod.splits option.splits)
  have tiled: "tiled 0 (src_size src) chunks"
    using queue_chunks_tiled [OF opts(1) order_refl _ bound q] len by simp
  have l: "length (contents ?tmp d1) = nat (src_size src)"
    using tr created by (auto simp: os_truncate_def contents_def split: if_splits option.splits)
  from fetched.crew_good [OF tiled l opts(2) chunk_count_positive [OF len opts(1) bound] dl]
  have lf: "length bs = nat (src_size src)"
    and good: "\<And>c. c \<in> set chunks \<Longrightarrow> chunk_served lib (fe_chunk env) src opts c (region c bs)" by auto
  have "concat (map (\<lambda>c. region c bs) chunks) = bs"
    using tiled_regions [OF tiled order_refl lf] by simp
  moreover have "d' output = Some bs" using rn by (auto simp: os_rename_def split: option.splits)
  ultimately show ?thesis using tiled good by (intro exI [of _ chunks] exI [of _ "\<lambda>c. region c bs"]) simp
qed

lemma fetch_file_frame:
  assumes "fetch_file lib env fuel src output opts d = Some (d', calls, r)" and "f_remove (fe_faults env) = (\<lambda>_. None)"
  shows "(\<forall>q. q \<noteq> output \<and> q \<noteq> part_name output \<longrightarrow> d' q = d q)
    \<and> d' (part_name output) = None \<and> (r \<noteq> None \<longrightarrow> d' output = d output)"
proof -
  let ?tmp = "part_name output"
  have ne: "?tmp \<noteq> output" "output \<noteq> ?tmp" by (simp_all add: part_name_neq part_name_neq [symmetric])
  have gone: "fst (os_remove (fe_faults env) ?tmp e) ?tmp = None" for e
    using assms(2) by (intro os_remove_gone) simp
  have tr: "q \<noteq> ?tmp \<Longrightarrow> fst (os_truncate (fe_faults env) ?tmp n d) q = d q" for q n
    by (auto simp: os_truncate_def split: option.split)
  have rem: "q \<noteq> ?tmp \<Longrightarrow> fst (os_remove (fe_faults env) ?tmp e) q = e q" for q e by (rule os_remove_other)
  obtain d1 te where t: "os_truncate (fe_faults env) ?tmp (src_size src) d = (d1, te)" by fastforce
  have d1: "q \<noteq> ?tmp \<Longrightarrow> d1 q = d q" for q using tr [of q "src_size src"] t by simp
  show ?thesis
  proof (cases "r = None")
    case False
    with assms(1) t obtain e x where "d' = fst (os_remove (fe_faults env) ?tmp e)"
      and "e = d1 \<or> e = d1(?tmp \<mapsto> x)"
      by (auto simp: fetch_file_def Let_def os_rename_def split: option.splits prod.splits)
    with gone rem d1 ne show ?thesis by auto
  next
    case True
    with assms(1) t obtain bs where "os_rename (fe_faults env) ?tmp output (d1(?tmp \<mapsto> bs)) = (d', None)"
      by (auto simp: fetch_file_def Let_def split: option.splits prod.splits)
    with d1 ne True show ?thesis by (auto simp: os_rename_def split: option.splits)
  qed
qed

section \<open>Progress\<close>

inductive tracker_step :: "tracker \<Rightarrow> tracker \<Rightarrow> bool" where
  tracker_step_count: "tracker_step t (tracker_count n t)"
| tracker_step_report: "tracker_step t (tracker_report v now t)"
| tracker_step_finish: "tracker_step t (tracker_finish now t)"

inductive_cases tracker_stepE: "tracker_step t t'"

interpretation tracker_log: progress_log "\<lambda>t. map dp_downloaded (pt_calls t)" pt_reported tracker_step
proof unfold_locales
  fix t t'
  assume "tracker_step t t'"
  then show "pt_reported t \<le> pt_reported t' \<and> (map dp_downloaded (pt_calls t') = map dp_downloaded (pt_calls t)
      \<or> (\<exists>v. pt_reported t < v \<and> v \<le> pt_reported t'
          \<and> map dp_downloaded (pt_calls t') = map dp_downloaded (pt_calls t) @ [v]))"
    by (rule tracker_stepE)
       (simp_all add: tracker_count_def tracker_report_def tracker_finish_def tracker_call_def Let_def)
qed

text \<open>Before the end, only values below the size are shown.\<close>

definition tracker_below :: "source \<Rightarrow> tracker \<Rightarrow> bool" where
  "tracker_below src t \<longleftrightarrow> pt_source t = src \<and> pt_reported t < src_size src
     \<and> (\<forall>c\<in>set (pt_calls t). dp_downloaded c < src_size src \<and> dp_total c = src_size src)"

lemma below_count: "tracker_below src t \<Longrightarrow> tracker_below src (tracker_count n t)"
  by (simp add: tracker_below_def tracker_count_def)

lemma below_report: "tracker_below src t \<Longrightarrow> tracker_below src (tracker_report v now t)"
  by (auto simp: tracker_below_def tracker_report_def tracker_call_def Let_def)

definition tracker_fine :: "source \<Rightarrow> bool \<Rightarrow> time \<Rightarrow> tracker \<Rightarrow> bool" where
  "tracker_fine src progress started t \<longleftrightarrow>
     tracker_below src t \<and> tracker_log.rising t \<and> pt_progress t = progress \<and> pt_started t = started"

lemma fine_act: "tracker_fine src b s (cr_tracker c) \<Longrightarrow> tracker_fine src b s (cr_tracker (crew_act run a c))"
proof -
  assume f: "tracker_fine src b s (cr_tracker c)"
  have cnt: "tracker_fine src b s (tracker_count n (cr_tracker c))" for n
    using f tracker_log.rising_step [OF _ tracker_step_count] below_count
    by (simp add: tracker_fine_def) (simp add: tracker_count_def)
  have rep: "tracker_fine src b s (tracker_report v now (cr_tracker c))" for v now
    using f tracker_log.rising_step [OF _ tracker_step_report] below_report
    by (simp add: tracker_fine_def) (simp add: tracker_report_def tracker_call_def Let_def)
  show ?thesis
    using f cnt rep
    by (simp add: crew_act_def crew_take_def crew_write_def Let_def split: chunk_action.split
        chunk_worker.split list.split option.split prod.split)
qed

lemma fine_schedule:
  "tracker_fine src b s (cr_tracker c) \<Longrightarrow>
    tracker_fine src b s (cr_tracker (foldl (\<lambda>c a. crew_act run a c) c schedule))"
  by (induction schedule arbitrary: c) (simp_all add: fine_act)

lemma chunks_progress:
  assumes "download_chunks run schedule src opts progress started now chunks bytes = Some (bytes', t, r)"
    and "0 < src_size src"
  shows "sorted_wrt (<) (map dp_downloaded (pt_calls t))
    \<and> (\<forall>c\<in>set (pt_calls t). dp_downloaded c \<le> src_size src \<and> dp_total c = src_size src)
    \<and> (r = None \<and> progress \<and> 0 < sub_time now started \<longrightarrow>
         pt_calls t \<noteq> [] \<and> dp_downloaded (last (pt_calls t)) = src_size src)"
proof -
  define c where "c = foldl (\<lambda>c a. crew_act run a c) (new_crew src opts progress started chunks bytes) schedule"
  have "tracker_fine src progress started (cr_tracker (new_crew src opts progress started chunks bytes))"
    using assms(2) by (simp add: tracker_fine_def tracker_below_def tracker_log.rising_def new_crew_def new_tracker_def)
  then have fine: "tracker_fine src progress started (cr_tracker c)" unfolding c_def by (rule fine_schedule)
  from assms(1) have res: "crew_result src now c = (t, r)"
    by (auto simp: download_chunks_def Let_def c_def split: if_splits prod.splits)
  show ?thesis
  proof (cases "r = None")
    case False
    with res have "t = cr_tracker c" by (auto simp: crew_result_def split: option.splits if_splits)
    with fine False show ?thesis by (auto simp: tracker_fine_def tracker_below_def tracker_log.rising_def)
  next
    case True
    with res have t: "t = tracker_finish now (cr_tracker c)" and d: "pt_downloaded (cr_tracker c) = src_size src"
      by (auto simp: crew_result_def split: option.splits if_splits)
    have "tracker_log.rising t"
      using fine tracker_log.rising_step [OF _ tracker_step_finish] by (simp add: tracker_fine_def t)
    with fine d True show ?thesis
      by (auto simp: t tracker_fine_def tracker_below_def tracker_log.rising_def tracker_finish_def
          tracker_call_def Let_def split: if_splits)
  qed
qed

section \<open>Properties\<close>

lemma range_download_served:
  assumes "download_file lib env fuel src output options d = Some (d', calls, None)"
    and "known_size lib env src (normalized_options options) = Inr len"
    and "len + do_chunk_size (normalized_options options) \<le> max_i64"
  shows "\<exists>chunks bytes. tiled 0 len chunks
      \<and> (\<forall>c\<in>set chunks. chunk_served lib (fe_chunk env) (src\<lparr>src_size := len\<rparr>) (normalized_options options) c (bytes c))
      \<and> d' output = Some (concat (map bytes chunks))"
proof -
  define d1 where "d1 = (fst (os_remove (fe_faults env) (part_name output) d))(part_name output \<mapsto> [])"
  have d1: "d1 (part_name output) = Some []" by (simp add: d1_def)
  from assms(1,2) have f: "fetch_file lib env fuel (src\<lparr>src_size := len\<rparr>) output (normalized_options options) d1 = Some (d', calls, None)"
    by (auto simp: download_file_def d1_def Let_def os_create_def split: if_splits option.splits prod.splits)
  show ?thesis
    using fetch_file_done [OF normalized_positive(1,2) _ _ d1 f] known_positive [OF assms(2)] assms(3) by simp
qed

lemma range_download_frame:
  assumes "download_file lib env fuel src output options d = Some (d', calls, r)"
    and "f_remove (fe_faults env) = (\<lambda>_. None)"
  shows "(\<forall>q. q \<noteq> output \<and> q \<noteq> part_name output \<longrightarrow> d' q = d q)
    \<and> (d (part_name output) = None \<longrightarrow> d' (part_name output) = None)
    \<and> (r \<noteq> None \<longrightarrow> d' output = d output)"
proof -
  let ?tmp = "part_name output"
  let ?d0 = "fst (os_remove (fe_faults env) ?tmp d)"
  have ne: "output \<noteq> ?tmp" using part_name_neq [of "output"] by simp
  have d0: "q \<noteq> ?tmp \<Longrightarrow> ?d0 q = d q" for q by (rule os_remove_other)
  have gone: "?d0 ?tmp = None" using assms(2) by (intro os_remove_gone) simp
  consider "d' = d" | "d' = ?d0"
    | len where "fetch_file lib env fuel (src\<lparr>src_size := len\<rparr>) output (normalized_options options) (?d0(?tmp \<mapsto> [])) = Some (d', calls, r)"
    using assms(1) by (auto simp: download_file_def Let_def os_create_def split: if_splits option.splits sum.splits)
  then show ?thesis
  proof cases
    case 3
    from fetch_file_frame [OF 3 assms(2)] d0 ne show ?thesis by auto
  qed (use d0 gone ne in auto)
qed

text \<open>C7: When \<open>DownloadFile\<close> returns without error, the output file is, chunk by chunk, the data of
  accepted responses to requests for exactly these ranges, and the chunks tile the file without
  gap or overlap; whatever the workers' interleaving, their number, the failed tries and what
  these had written.\<close>

theorem range_download_complete:
  assumes "download_file lib env fuel src output options d = Some (d', calls, None)"
    and "known_size lib env src (normalized_options options) = Inr len"
    and "len + do_chunk_size (normalized_options options) \<le> max_i64"
  shows "\<exists>chunks bytes. tiled 0 len chunks
      \<and> (\<forall>c\<in>set chunks. chunk_served lib (fe_chunk env) (src\<lparr>src_size := len\<rparr>) (normalized_options options) c (bytes c))
      \<and> d' output = Some (concat (map bytes chunks))"
  by (rule range_download_served [OF assms])

text \<open>\<open>DownloadFile\<close> touches nothing but its output and its temporary file, which it never leaves
  behind, and when it fails the output is as it was.\<close>

theorem range_download_clean:
  assumes "download_file lib env fuel src output options d = Some (d', calls, r)"
    and "f_remove (fe_faults env) = (\<lambda>_. None)"
  shows "(\<forall>q. q \<noteq> output \<and> q \<noteq> part_name output \<longrightarrow> d' q = d q)
    \<and> (d (part_name output) = None \<longrightarrow> d' (part_name output) = None)
    \<and> (r \<noteq> None \<longrightarrow> d' output = d output)"
  by (rule range_download_frame [OF assms])

text \<open>The queue of chunks tiles a file of any size in chunks of at most the configured size, and
  the loop that fills it ends.\<close>

theorem queue_chunks_tile:
  assumes "0 < chunk_size" and "0 \<le> len" and "len + chunk_size \<le> max_i64" and "nat len \<le> fuel"
  shows "\<exists>chunks. queue_chunks fuel 0 len chunk_size = Some chunks \<and> tiled 0 len chunks
    \<and> (\<forall>c\<in>set chunks. ck_end c - ck_start c < chunk_size)"
proof -
  obtain chunks where c: "queue_chunks fuel 0 len chunk_size = Some chunks"
    using queue_chunks_ends [OF assms(1) order_refl assms(2,3)] assms(4) by fastforce
  with queue_chunks_tiled [OF assms(1) order_refl assms(2,3) c] assms(2) show ?thesis by simp
qed

text \<open>The progress of a download only grows, never exceeds the size, and on success ends with the
  whole size, in every interleaving of the workers.\<close>

theorem range_progress:
  assumes "download_chunks run schedule src opts progress started now chunks bytes = Some (bytes', t, r)"
    and "0 < src_size src"
  shows "sorted_wrt (<) (map dp_downloaded (pt_calls t))
    \<and> (\<forall>c\<in>set (pt_calls t). dp_downloaded c \<le> src_size src \<and> dp_total c = src_size src)
    \<and> (r = None \<and> progress \<and> 0 < sub_time now started \<longrightarrow>
         pt_calls t \<noteq> [] \<and> dp_downloaded (last (pt_calls t)) = src_size src)"
  by (rule chunks_progress [OF assms])

text \<open>A file of five bytes in chunks of three, by one worker.\<close>

definition sample_urls :: "string url_lib" where
  "sample_urls = \<lparr>url_parse = Inr, url_string = id, url_path = id, url_escaped_path = id,
     url_hostname = id, url_fragment = id, url_query = \<lambda>_. Map.empty, url_set_path = \<lambda>u p. p,
     url_set_fragment = \<lambda>u f. u, url_set_query = \<lambda>u q. u, url_scheme = id, url_host = id,
     url_resolve = \<lambda>b r. b @ r\<rparr>"

definition sample_server :: "request \<Rightarrow> http_response result" where
  "sample_server rq =
     (let answer = (\<lambda>range bs. Inr \<lparr>rs_status = 206, rs_status_line = [],
          rs_headers = [''Content-Range'' \<mapsto> range], rs_length = int (length bs),
          rs_body = \<lparr>r_data = bs, r_end = Eof\<rparr>\<rparr>)
      in if header_get (rq_headers rq) ''Range'' = ''bytes=0-2'' then answer ''bytes 0-2/5'' [1, 2, 3]
         else if header_get (rq_headers rq) ''Range'' = ''bytes=3-4'' then answer ''bytes 3-4/5'' [4, 5]
         else Inl (Err ''range''))"

definition sample_source :: source where
  "sample_source = \<lparr>src_name = ''video'', src_url = ''u'', src_size = 5\<rparr>"

definition sample_dl_options :: dl_options where
  "sample_dl_options = \<lparr>do_chunk_size = 3, do_workers = 1, do_retries = 1, do_buffer_size = 2,
     do_range_mode = ''header'', do_progress_bytes = 1\<rparr>"

definition sample_file_env :: file_env where
  "sample_file_env = \<lparr>fe_chunk = \<lambda>_ _ _. \<lparr>ce_client = sample_server,
        ce_write = \<lambda>_ bs. (length bs, None), ce_wait = None\<rparr>,
     fe_schedule = replicate 12 (Step 0 5), fe_probe = sample_server, fe_faults = no_faults,
     fe_progress = True, fe_started = 0, fe_ended = 9\<rparr>"

lemma sample_file:
  "(case download_file sample_urls sample_file_env 9 sample_source ''o'' sample_dl_options Map.empty of
     Some (d', calls, r) \<Rightarrow> r = None \<and> d' ''o'' = Some [1, 2, 3, 4, 5] \<and> map dp_downloaded calls = [3, 5]
   | None \<Rightarrow> False)"
  by code_simp

lemma sample_file_result:
  "\<exists>d' calls. download_file sample_urls sample_file_env 9 sample_source ''o'' sample_dl_options Map.empty = Some (d', calls, None)
     \<and> d' ''o'' = Some [1, 2, 3, 4, 5]"
  using sample_file by (auto split: option.splits prod.splits)

lemma sample_known: "known_size sample_urls sample_file_env sample_source (normalized_options sample_dl_options) = Inr 5"
  by (simp add: known_size_def sample_source_def)

lemma range_download_complete_witness:
  "\<exists>chunks bytes. tiled 0 5 chunks \<and> concat (map bytes chunks) = [1, 2, 3, 4, 5]
     \<and> (\<forall>c\<in>set chunks. chunk_served sample_urls (fe_chunk sample_file_env) (sample_source\<lparr>src_size := 5\<rparr>)
           (normalized_options sample_dl_options) c (bytes c))"
proof -
  from sample_file_result obtain d' calls where
    run: "download_file sample_urls sample_file_env 9 sample_source ''o'' sample_dl_options Map.empty = Some (d', calls, None)"
    and d': "d' ''o'' = Some [1, 2, 3, 4, 5]" by blast
  have bound: "5 + do_chunk_size (normalized_options sample_dl_options) \<le> max_i64"
    by (simp add: normalized_options_def sample_dl_options_def max_i64_def Let_def)
  from range_download_complete [OF run sample_known bound] d' show ?thesis by (metis option.inject)
qed

lemma range_download_clean_witness:
  "\<exists>d' calls. download_file sample_urls sample_file_env 9 sample_source ''o'' sample_dl_options Map.empty = Some (d', calls, None)
     \<and> d' ''o.part'' = None \<and> d' ''other'' = None"
proof -
  from sample_file_result obtain d' calls where
    run: "download_file sample_urls sample_file_env 9 sample_source ''o'' sample_dl_options Map.empty = Some (d', calls, None)"
    by blast
  have rm: "f_remove (fe_faults sample_file_env) = (\<lambda>_. None)" by (simp add: sample_file_env_def no_faults_def)
  from range_download_clean [OF run rm] run show ?thesis by (simp add: part_name_def)
qed

lemma queue_chunks_tile_witness:
  "queue_chunks 5 0 5 3 = Some [\<lparr>ck_start = 0, ck_end = 2\<rparr>, \<lparr>ck_start = 3, ck_end = 4\<rparr>]
     \<and> tiled 0 5 [\<lparr>ck_start = 0, ck_end = 2\<rparr>, \<lparr>ck_start = 3, ck_end = 4\<rparr>]"
proof -
  have "queue_chunks 5 0 5 3 = Some [\<lparr>ck_start = 0, ck_end = 2\<rparr>, \<lparr>ck_start = 3, ck_end = 4\<rparr>]" by code_simp
  with queue_chunks_tile [of 3 5 5] show ?thesis by (simp add: max_i64_def)
qed

lemma sample_chunks:
  "(case download_chunks (\<lambda>part ctx. download_chunk sample_urls (fe_chunk sample_file_env part ctx) sample_source sample_dl_options part)
       (replicate 12 (Step 0 5)) sample_source sample_dl_options True 0 9
       [\<lparr>ck_start = 0, ck_end = 2\<rparr>, \<lparr>ck_start = 3, ck_end = 4\<rparr>] [0, 0, 0, 0, 0] of
     Some (bytes, t, r) \<Rightarrow> r = None \<and> bytes = [1, 2, 3, 4, 5]
   | None \<Rightarrow> False)"
  by code_simp

lemma range_progress_witness:
  "\<exists>t. download_chunks (\<lambda>part ctx. download_chunk sample_urls (fe_chunk sample_file_env part ctx) sample_source sample_dl_options part)
       (replicate 12 (Step 0 5)) sample_source sample_dl_options True 0 9
       [\<lparr>ck_start = 0, ck_end = 2\<rparr>, \<lparr>ck_start = 3, ck_end = 4\<rparr>] [0, 0, 0, 0, 0] = Some ([1, 2, 3, 4, 5], t, None)
     \<and> dp_downloaded (last (pt_calls t)) = 5"
proof -
  from sample_chunks obtain t where run: "download_chunks
       (\<lambda>part ctx. download_chunk sample_urls (fe_chunk sample_file_env part ctx) sample_source sample_dl_options part)
       (replicate 12 (Step 0 5)) sample_source sample_dl_options True 0 9
       [\<lparr>ck_start = 0, ck_end = 2\<rparr>, \<lparr>ck_start = 3, ck_end = 4\<rparr>] [0, 0, 0, 0, 0] = Some ([1, 2, 3, 4, 5], t, None)"
    by (auto split: option.splits prod.splits)
  have "0 < src_size sample_source" by (simp add: sample_source_def)
  from range_progress [OF run this] run show ?thesis
    by (simp add: sub_time_def max_i64_def min_i64_def sample_source_def)
qed

end
