(* ===== verification/Fair_Rounds.thy ===== *)
theory Fair_Rounds
  imports Go_Prelude
begin

text \<open>
  Workers that come to an end: the argument that a number of goroutines with work left, each getting
  its turn in every round, are done after finitely many rounds. Both worker pools of the program
  (the chunks of a range download, the parts of a SABR download) interpret it.
\<close>

text \<open>An action may be the turn of a worker; a busy worker's turn does some of the work that is left, and
  no action adds any. \<open>ok\<close> is what all reachable states satisfy.\<close>

locale workforce =
  fixes act :: "'a \<Rightarrow> 's \<Rightarrow> 's" and turn :: "nat \<Rightarrow> 'a \<Rightarrow> bool" and busy :: "nat \<Rightarrow> 's \<Rightarrow> bool"
    and work :: "'s \<Rightarrow> nat" and ok :: "'s \<Rightarrow> bool"
  assumes ok_kept: "ok s \<Longrightarrow> ok (act a s)"
    and work_le: "ok s \<Longrightarrow> work (act a s) \<le> work s"
    and turn_works: "ok s \<Longrightarrow> busy i s \<Longrightarrow> turn i a \<Longrightarrow> work (act a s) < work s"
    and busy_kept: "ok s \<Longrightarrow> busy i s \<Longrightarrow> work (act a s) = work s \<Longrightarrow> busy i (act a s)"
    and idle_kept: "ok s \<Longrightarrow> \<not> busy i s \<Longrightarrow> \<not> busy i (act a s)"
    and busy_works: "ok s \<Longrightarrow> busy i s \<Longrightarrow> 0 < work s"
begin

abbreviation run :: "'a list \<Rightarrow> 's \<Rightarrow> 's" where
  "run schedule s \<equiv> foldl (\<lambda>s a. act a s) s schedule"

lemma run_ok: "ok s \<Longrightarrow> ok (run schedule s)"
  by (induction schedule arbitrary: s) (simp_all add: ok_kept)

lemma run_work: "ok s \<Longrightarrow> work (run schedule s) \<le> work s"
proof (induction schedule arbitrary: s)
  case (Cons a schedule)
  then show ?case using Cons.IH [OF ok_kept [OF Cons.prems], of a] work_le [OF Cons.prems, of a] by simp
qed simp

lemma run_idle: "ok s \<Longrightarrow> \<not> busy i s \<Longrightarrow> \<not> busy i (run schedule s)"
  by (induction schedule arbitrary: s) (simp_all add: ok_kept idle_kept)

lemma round_works: "ok s \<Longrightarrow> busy i s \<Longrightarrow> \<exists>a\<in>set schedule. turn i a \<Longrightarrow> work (run schedule s) < work s"
proof (induction schedule arbitrary: s)
  case (Cons a schedule)
  note ok = ok_kept [OF Cons.prems(1), of a]
  show ?case
  proof (cases "work (act a s) = work s")
    case True
    with turn_works [OF Cons.prems(1,2)] have "\<not> turn i a" by fastforce
    with Cons.IH [OF ok busy_kept [OF Cons.prems(1,2) True]] Cons.prems(3) True show ?thesis by simp
  next
    case False
    with work_le [OF Cons.prems(1), of a] run_work [OF ok, of schedule] show ?thesis by simp
  qed
qed simp

lemma rounds_finish:
  "ok s \<Longrightarrow> \<forall>round\<in>set rounds. \<exists>a\<in>set round. turn i a \<Longrightarrow> work s \<le> length rounds \<Longrightarrow>
    \<not> busy i (run (concat rounds) s)"
proof (induction rounds arbitrary: s)
  case Nil
  then show ?case using busy_works by fastforce
next
  case (Cons round rounds)
  show ?case
  proof (cases "busy i s")
    case True
    have "work (run round s) < work s"
      using Cons.prems(2) by (intro round_works [OF Cons.prems(1) True]) simp
    with Cons.IH [OF run_ok [OF Cons.prems(1)], of round] Cons.prems(2,3) show ?thesis by simp
  next
    case False
    from run_idle [OF Cons.prems(1) this, of "concat (round # rounds)"] show ?thesis .
  qed
qed

end

text \<open>Work that is the sum over a list of workers.\<close>

lemma work_update:
  "i < length ws \<Longrightarrow> sum_list (map f (ws[i := w])) + f (ws ! i) = sum_list (map f ws) + (f w :: nat)"
proof (induction ws arbitrary: i)
  case (Cons v ws)
  then show ?case by (cases i) (simp_all add: add.left_commute add.commute)
qed simp

end
