(* ===== verification/Range_Liveness.thy ===== *)
theory Range_Liveness
  imports Range_Download_Spec Fair_Rounds
begin

text \<open>
  A range download comes to an end: with workers that each get their turn often enough, whatever the
  servers answer, whatever fails, and whoever cancels.
\<close>

section \<open>The work of a crew\<close>

text \<open>A chunk costs one step to take, one for each write, one to end and one to report; \<open>W\<close> bounds the
  writes of a chunk.\<close>

definition hand_work :: "chunk_worker \<Rightarrow> nat" where
  "hand_work w = (case w of Free \<Rightarrow> 1 | Writing _ ws _ \<Rightarrow> length ws + 3 | Reporting _ \<Rightarrow> 2 | Left \<Rightarrow> 0 | Stuck \<Rightarrow> 1)"

definition crew_work :: "nat \<Rightarrow> crew \<Rightarrow> nat" where
  "crew_work W c = (W + 3) * length (cr_queue c) + sum_list (map hand_work (cr_workers c))"

definition crew_busy :: "nat \<Rightarrow> crew \<Rightarrow> bool" where
  "crew_busy i c \<longleftrightarrow> i < length (cr_workers c) \<and> cr_workers c ! i \<noteq> Left"

text \<open>No copy of a waiting chunk runs for ever, and its writes are bounded.\<close>

definition chunk_bounded :: "nat \<Rightarrow> (chunk \<Rightarrow> error option \<Rightarrow> (file_write list \<times> error option) option) \<Rightarrow> chunk \<Rightarrow> bool" where
  "chunk_bounded W run part \<longleftrightarrow> (\<forall>ctx. \<exists>ws r. run part ctx = Some (ws, r) \<and> length ws \<le> W)"

definition crew_ok :: "nat \<Rightarrow> (chunk \<Rightarrow> error option \<Rightarrow> (file_write list \<times> error option) option) \<Rightarrow> crew \<Rightarrow> bool" where
  "crew_ok W run c \<longleftrightarrow> (\<forall>part\<in>set (cr_queue c). chunk_bounded W run part) \<and> Stuck \<notin> set (cr_workers c)"

lemma crew_size [simp]: "length (cr_workers (crew_act run a c)) = length (cr_workers c)"
  by (simp add: crew_act_def crew_take_def crew_write_def Let_def split: chunk_action.split chunk_worker.split
      list.split option.split prod.split)

lemma step_works:
  assumes "crew_ok W run c" and "crew_busy i c"
  shows "crew_work W (crew_act run (Step i now) c) < crew_work W c"
proof -
  have i: "i < length (cr_workers c)" and nl: "cr_workers c ! i \<noteq> Left" using assms(2) by (simp_all add: crew_busy_def)
  have ns: "cr_workers c ! i \<noteq> Stuck" using assms(1) i by (auto simp: crew_ok_def) (metis nth_mem)
  note u = work_update [OF i, of hand_work]
  show ?thesis
  proof (cases "cr_workers c ! i")
    case Free
    show ?thesis
    proof (cases "cr_queue c")
      case Nil
      with Free i u [of Left] show ?thesis by (simp add: crew_act_def crew_take_def crew_work_def hand_work_def)
    next
      case (Cons part rest)
      obtain ws r where r: "run part (cr_ctx c) = Some (ws, r)" and l: "length ws \<le> W"
        using assms(1) Cons unfolding crew_ok_def chunk_bounded_def by (metis list.set_intros(1))
      from u [of "Writing part ws r"] Free i r l Cons show ?thesis
        by (simp add: crew_act_def crew_take_def crew_work_def hand_work_def)
    qed
  next
    case (Writing part ws r)
    with i show ?thesis
      using u [of "Writing part (tl ws) r"] u [of Left]
        u [of "Reporting (pt_downloaded (tracker_count (add64 (sub64 (ck_end part) (ck_start part)) 1) (cr_tracker c)))"]
      by (auto simp: crew_act_def crew_write_def crew_work_def hand_work_def Let_def split: list.split option.split)
  next
    case (Reporting v)
    with i u [of Free] show ?thesis by (simp add: crew_act_def crew_work_def hand_work_def)
  qed (use nl ns in simp_all)
qed

lemma other_steps: "\<not> (\<exists>i now. a = Step i now \<and> crew_busy i c) \<Longrightarrow> cr_workers (crew_act run a c) = cr_workers c"
  by (auto simp: crew_act_def crew_busy_def split: chunk_action.split chunk_worker.split)

lemma work_never_grows: "crew_ok W run c \<Longrightarrow> crew_work W (crew_act run a c) \<le> crew_work W c"
proof (cases "\<exists>i now. a = Step i now \<and> crew_busy i c")
  case True
  assume "crew_ok W run c"
  with True step_works show ?thesis by (auto intro: less_imp_le)
next
  case False
  have "length (cr_queue (crew_act run a c)) \<le> length (cr_queue c)"
    using False by (auto simp: crew_act_def crew_busy_def split: chunk_action.split chunk_worker.split)
  with other_steps [OF False] show ?thesis by (simp add: crew_work_def)
qed

lemma crew_queue_shrinks: "set (cr_queue (crew_act run a c)) \<subseteq> set (cr_queue c)"
  by (auto simp: crew_act_def crew_take_def crew_write_def Let_def dest: in_set_takeD
      split: chunk_action.splits chunk_worker.splits list.splits option.splits if_splits)

lemma crew_ok_kept:
  assumes "crew_ok W run c" shows "crew_ok W run (crew_act run a c)"
proof -
  have t: "run part ctx = None \<Longrightarrow> part \<in> set (cr_queue c) \<Longrightarrow> False" for part ctx
    using assms unfolding crew_ok_def chunk_bounded_def by (metis option.distinct(1))
  have "Stuck \<notin> set (cr_workers (crew_act run a c))"
    using assms
    by (auto simp: crew_ok_def crew_act_def crew_take_def crew_write_def Let_def dest: t
        dest!: set_update_subset_insert [THEN subsetD]
        split: chunk_action.splits chunk_worker.splits list.splits option.splits if_splits)
  with crew_queue_shrinks [of run a c] assms show ?thesis by (auto simp: crew_ok_def)
qed

lemma busy_until_work:
  assumes "crew_ok W run c" and "crew_busy i c" and "crew_work W (crew_act run a c) = crew_work W c"
  shows "crew_busy i (crew_act run a c)"
proof -
  have "\<not> (\<exists>i now. a = Step i now \<and> crew_busy i c)"
    using step_works [OF assms(1)] assms(3) by (metis less_irrefl)
  from other_steps [OF this] assms(2) show ?thesis by (simp add: crew_busy_def)
qed

lemma left_for_good: "\<not> crew_busy i c \<Longrightarrow> \<not> crew_busy i (crew_act run a c)"
  by (auto simp: crew_busy_def crew_act_def crew_take_def crew_write_def Let_def nth_list_update
      split: chunk_action.split chunk_worker.split list.split option.split prod.split)

lemma busy_pays: "crew_busy i c \<Longrightarrow> 0 < crew_work W c"
proof -
  assume b: "crew_busy i c"
  then have "hand_work (cr_workers c ! i) \<le> sum_list (map hand_work (cr_workers c))"
    by (intro member_le_sum_list) (simp_all add: crew_busy_def)
  moreover have "0 < hand_work (cr_workers c ! i)"
    using b by (simp add: crew_busy_def hand_work_def split: chunk_worker.split)
  ultimately show ?thesis by (simp add: crew_work_def)
qed

interpretation crew_hands: workforce "crew_act run" "\<lambda>i a. \<exists>now. a = Step i now" crew_busy "crew_work W" "crew_ok W run"
  for run W
  by unfold_locales (auto simp: crew_ok_kept work_never_grows step_works busy_until_work left_for_good busy_pays)

section \<open>The writes of a chunk\<close>

text \<open>A try writes at least a byte at a time, so never more often than the chunk has bytes.\<close>

lemma copy_chunk_count:
  "copy_chunk buffer wr part body position = Some (body', ws, r) \<Longrightarrow> length ws \<le> nat (ck_end part + 1 - position)"
proof (induction buffer wr part body position arbitrary: body' ws r rule: copy_chunk.induct)
  case (1 buffer wr part body position)
  let ?n = "min buffer (ck_end part - position + 1)"
  obtain body1 bs err where rd: "read_some body (nat ?n) = (body1, bs, err)" using prod_cases3 by blast
  obtain written e where w: "wr position bs = (written, e)" by fastforce
  show ?case
  proof (cases "position \<le> ck_end part \<and> 0 < buffer \<and> bs \<noteq> []")
    case False
    with "1.prems" rd show ?thesis
      by (subst (asm) copy_chunk.simps) (auto simp: Let_def split: if_splits option.splits)
  next
    case True
    consider x where "ws = [(position, take x bs)]"
      | b ws' where "ws = (position, bs) # ws'" "e = None" "written = length bs" "err = None"
        "copy_chunk buffer wr part body1 (position + int (length bs)) = Some (b, ws', r)"
      | "ws = [(position, bs)]"
      using "1.prems"(1) True rd w
      by (subst (asm) copy_chunk.simps) (auto simp: Let_def split: if_splits option.splits)
    then show ?thesis
    proof cases
      case (2 b ws')
      have "length ws' \<le> nat (ck_end part + 1 - (position + int (length bs)))"
        using "1.IH" [OF _ _ refl rd [symmetric] refl _ w [symmetric] 2(2) _ refl 2(4,5)] True 2(3) by simp
      moreover have "nat (ck_end part + 1 - (position + int (length bs))) < nat (ck_end part + 1 - position)"
        using True by simp
      ultimately have "Suc (length ws') \<le> nat (ck_end part + 1 - position)" by linarith
      with 2(1) show ?thesis by simp
    qed (use True in \<open>auto simp: nat_le_iff\<close>)
  qed
qed

lemma fetch_chunk_count:
  "fetch_chunk lib env src part mode buffer = Some (ws, r) \<Longrightarrow> length ws \<le> clen part"
  using copy_chunk_count [of buffer "ce_write env" part _ "ck_start part"]
  by (fastforce simp: fetch_chunk_def Let_def clen_def algebra_simps split: sum.splits option.splits if_splits)

lemma tries_count:
  assumes "\<And>a ws r. fetch a = Some (ws, r) \<Longrightarrow> length ws \<le> n"
  shows "chunk_tries fetch wait name part as lst = Some (ws, r) \<Longrightarrow> length ws \<le> length as * n"
proof (induction as arbitrary: lst ws r)
  case (Cons a as)
  from Cons.prems consider "ws = []" | r' where "fetch a = Some (ws, r')"
    | pre e ws' where "fetch a = Some (pre, Some e)" "ws = pre @ ws'" "chunk_tries fetch wait name part as e = Some (ws', r)"
    by (auto split: option.splits simp del: if_split_asm)
  then show ?case
  proof cases
    case 3
    with Cons.IH [OF 3(3)] assms [OF 3(1)] show ?thesis by simp
  qed (use assms in \<open>auto intro: trans_le_add1\<close>)
qed simp

lemma tries_total:
  assumes "\<And>a. fetch a \<noteq> None"
  shows "chunk_tries fetch wait name part as lst \<noteq> None"
proof (induction as arbitrary: lst)
  case (Cons a as)
  obtain ws r where "fetch a = Some (ws, r)" using assms by (metis option.exhaust prod.exhaust)
  then show ?case
    using Cons by (cases "if a = 0 then None else wait a"; cases r) (simp_all split del: if_split)
qed simp

section \<open>The download returns\<close>

lemma crew_finishes:
  assumes "\<forall>part\<in>set chunks. chunk_bounded W run part"
    and "\<forall>round\<in>set rounds. \<forall>i<nat (do_workers opts). \<exists>now. Step i now \<in> set round"
    and "(W + 3) * length chunks + nat (do_workers opts) \<le> length rounds"
  shows "download_chunks run (concat rounds) src opts progress started now chunks file \<noteq> None"
proof -
  let ?c = "new_crew src opts progress started chunks file"
  let ?fin = "foldl (\<lambda>c a. crew_act run a c) ?c (concat rounds)"
  have n: "length (cr_workers ?c) \<le> nat (do_workers opts)" by (simp add: new_crew_def)
  have ok: "crew_ok W run ?c" using assms(1) by (simp add: crew_ok_def new_crew_def)
  have "sum_list (map hand_work (replicate k Free)) = k" for k by (induction k) (simp_all add: hand_work_def)
  then have w: "crew_work W ?c \<le> length rounds"
    using assms(3) n by (simp add: crew_work_def new_crew_def)
  have "\<not> crew_busy i ?fin" if "i < nat (do_workers opts)" for i
    using assms(2) that by (intro crew_hands.rounds_finish [OF ok _ w]) blast
  moreover have "length (cr_workers (foldl (\<lambda>c a. crew_act run a c) c as)) = length (cr_workers c)" for c as
    by (induction as arbitrary: c) simp_all
  ultimately have "\<forall>v\<in>set (cr_workers ?fin). v = Left"
    using n by (auto simp: crew_busy_def in_set_conv_nth)
  then show ?thesis by (simp add: download_chunks_def Let_def split: prod.split)
qed

lemma tiled_count: "tiled s len chunks \<Longrightarrow> length chunks \<le> nat (len - s)"
proof (induction chunks arbitrary: s)
  case (Cons c chunks)
  then have "length chunks \<le> nat (len - (ck_end c + 1))" "s \<le> ck_end c" "ck_end c < len" by auto
  then show ?case by simp
qed simp

lemma download_chunk_bounded:
  assumes "0 < do_buffer_size opts" and "ck_end part - ck_start part < do_chunk_size opts"
  shows "chunk_bounded (nat (do_retries opts) * nat (do_chunk_size opts))
    (\<lambda>part ctx. download_chunk lib (envs part ctx) src opts part) part"
  unfolding chunk_bounded_def
proof
  fix ctx
  let ?fetch = "\<lambda>a. fetch_chunk lib (envs part ctx a) src part (do_range_mode opts) (do_buffer_size opts)"
  have "download_chunk lib (envs part ctx) src opts part \<noteq> None"
    unfolding download_chunk_def by (rule tries_total) (rule fetch_total [OF assms(1)])
  then obtain ws r where r: "download_chunk lib (envs part ctx) src opts part = Some (ws, r)" by fastforce
  have "length ws \<le> length [0..do_retries opts - 1] * clen part"
    by (rule tries_count [OF _ r [unfolded download_chunk_def]]) (rule fetch_chunk_count)
  also have "\<dots> \<le> nat (do_retries opts) * nat (do_chunk_size opts)"
    using assms(2) by (intro mult_le_mono) (simp_all add: clen_def)
  finally show "\<exists>ws r. download_chunk lib (envs part ctx) src opts part = Some (ws, r)
      \<and> length ws \<le> nat (do_retries opts) * nat (do_chunk_size opts)" using r by blast
qed

text \<open>The rounds that are enough for a file of \<open>len\<close> bytes.\<close>

definition enough_rounds :: "dl_options \<Rightarrow> int \<Rightarrow> nat" where
  "enough_rounds opts len =
     (nat (do_retries opts) * nat (do_chunk_size opts) + 3) * nat len + nat (do_workers opts)"



end
