(* ===== verification/Sabr_Stream.thy ===== *)
theory Sabr_Stream
  imports Go_Files
begin

text \<open>
  Package \<open>internal/sabr\<close>, \<open>stream_protocol.go\<close> (with the track state of \<open>types.go\<close>): the framed
  stream one part of a SABR download arrives in. Eight magic bytes, then frames of a 17-byte
  header (kind, itag, sequence, payload length, big-endian) and a payload, then a completion
  frame and the end of the stream. \<open>consumeDownloadStream\<close> demultiplexes the payloads into the
  tracks' part files.
\<close>

section \<open>Writers\<close>

text \<open>An output file: what was written, and how many more bytes the file system takes before a
  write fails (\<open>None\<close>: any number). \<open>os.File.Write\<close> reports the bytes it wrote, with an error when
  they are not all. \<open>io.Discard\<close> takes everything, a nil \<open>*os.File\<close> fails with \<open>os.ErrInvalid\<close>.\<close>

record sink =
  out_data :: "byte list"
  out_room :: "nat option"

datatype writer = Discard | Closed | To sink

definition sink_write :: "sink \<Rightarrow> byte list \<Rightarrow> sink \<times> nat \<times> error option" where
  "sink_write w bs =
     (case out_room w of
        None \<Rightarrow> (w\<lparr>out_data := out_data w @ bs\<rparr>, length bs, None)
      | Some room \<Rightarrow>
          (let n = min room (length bs)
           in (w\<lparr>out_data := out_data w @ take n bs, out_room := Some (room - n)\<rparr>, n,
               if n < length bs then Some (Err ''no space left on device'') else None)))"

definition writer_write :: "writer \<Rightarrow> byte list \<Rightarrow> writer \<times> nat \<times> error option" where
  "writer_write w bs =
     (case w of
        Discard \<Rightarrow> (Discard, length bs, None)
      | Closed \<Rightarrow> (Closed, 0, Some (Err ''invalid argument''))
      | To s \<Rightarrow> (case sink_write s bs of (s', n, e) \<Rightarrow> (To s', n, e)))"

section \<open>Frames and tracks\<close>

definition download_media_type :: string where
  "download_media_type = ''application/vnd.typetype.sabr-download''"

definition frame_initialization :: byte where "frame_initialization = 1"
definition frame_media :: byte where "frame_media = 2"
definition frame_complete :: byte where "frame_complete = 3"
definition frame_header_size :: nat where "frame_header_size = 17"
definition download_magic_size :: nat where "download_magic_size = 8"
definition stream_copy_buffer_size :: int where "stream_copy_buffer_size = 256 * 1024"
definition max_frame_bytes :: int where "max_frame_bytes = push_bit 20 64"

definition download_magic :: "byte list" where
  "download_magic = map (\<lambda>c. word_of_nat (of_char c)) (''TTSABR1'' @ [CHR 0x0A])"

record frame_header =
  fh_kind :: byte
  fh_itag :: int
  fh_sequence :: int
  fh_length :: int

text \<open>\<open>path\<close> is the part's file name, \<open>output\<close> the open file (\<open>None\<close> before and after).\<close>

record stream_track =
  tk_kind :: string
  tk_itag :: int
  tk_path :: string
  tk_output :: "sink option"
  tk_next :: int
  tk_initialized :: bool
  tk_media_written :: bool

definition be_value :: "byte list \<Rightarrow> int" where
  "be_value bs = foldl (\<lambda>v b. v * 256 + uint b) 0 bs"

definition be_int32 :: "byte list \<Rightarrow> int" where
  "be_int32 bs = sint (word_of_int (be_value bs) :: 32 word)"

definition be_int64 :: "byte list \<Rightarrow> int" where
  "be_int64 bs = sint (word_of_int (be_value bs) :: 64 word)"

definition raw_header :: "byte list \<Rightarrow> frame_header" where
  "raw_header raw =
     \<lparr>fh_kind = raw ! 0,
      fh_itag = be_int32 (take 4 (drop 1 raw)),
      fh_sequence = be_int32 (take 4 (drop 5 raw)),
      fh_length = be_int64 (take 8 (drop 9 raw))\<rparr>"

definition decode_frame_header :: "byte list \<Rightarrow> frame_header result" where
  "decode_frame_header raw =
     (let header = raw_header raw
      in if fh_length header < 0 \<or> fh_length header > max_frame_bytes
         then Inl (Err (''invalid SABR frame length '' @ itoa (fh_length header)))
         else Inr header)"

fun find_track :: "stream_track list \<Rightarrow> int \<Rightarrow> nat option" where
  "find_track [] itag = None"
| "find_track (t # ts) itag =
     (if tk_itag t = itag then Some 0 else map_option Suc (find_track ts itag))"

definition validate_complete :: "stream_track list \<Rightarrow> frame_header \<Rightarrow> error option" where
  "validate_complete tracks header =
     (if fh_itag header \<noteq> 0 \<or> fh_sequence header \<noteq> 0 \<or> fh_length header \<noteq> 0
      then Some (Err ''invalid SABR completion frame'')
      else case find (\<lambda>t. \<not> tk_initialized t \<or> \<not> tk_media_written t) tracks of
             None \<Rightarrow> None
           | Some t \<Rightarrow> Some (Err (''incomplete SABR '' @ tk_kind t @ '' track'')))"

text \<open>\<open>copyFrame\<close>: through a buffer of 256 KiB. The result is the writer, the reader, \<open>written\<close> and
  the error.\<close>

function copy_frame :: "writer \<Rightarrow> reader \<Rightarrow> int \<Rightarrow> int \<Rightarrow> writer \<times> reader \<times> int \<times> error option" where
  "copy_frame out r len written =
     (if \<not> written < len then (out, r, written, None)
      else
        let chunk = (if len - written < stream_copy_buffer_size then len - written
                     else stream_copy_buffer_size)
        in case read_full r (nat chunk) of
             (r', Inl e) \<Rightarrow> (out, r', written, Some e)
           | (r', Inr bs) \<Rightarrow>
               (case writer_write out bs of
                  (out', wrote, err) \<Rightarrow>
                    if err \<noteq> None then (out', r', written + int wrote, err)
                    else if int wrote \<noteq> chunk then (out', r', written + int wrote, Some Short_write)
                    else copy_frame out' r' len (written + int wrote)))"
  by pat_completeness auto
termination
  by (relation "measure (\<lambda>(out, r, len, written). nat (len - written))")
     (auto simp: stream_copy_buffer_size_def split: if_splits)

declare copy_frame.simps [simp del]

text \<open>\<open>consumeFrame\<close>: the guards of the two frame kinds, then the copy. It returns the reader, the
  track, the byte counts it added to the progress, and the error.\<close>

definition begin_frame :: "stream_track \<Rightarrow> frame_header \<Rightarrow> stream_track \<times> error option" where
  "begin_frame track header =
     (if fh_kind header = frame_initialization
      then if tk_initialized track \<or> fh_sequence header \<noteq> 0
           then (track, Some (Err (''invalid SABR initialization for itag '' @ itoa (tk_itag track))))
           else (track\<lparr>tk_initialized := True\<rparr>, None)
      else if fh_kind header = frame_media
      then (let track1 = (if tk_next track = 0 then track\<lparr>tk_next := fh_sequence header\<rparr> else track)
            in if \<not> tk_initialized track1 \<or> fh_sequence header \<le> 0
                  \<or> fh_sequence header \<noteq> tk_next track1
               then (track1, Some (Err (''out-of-order SABR media for itag '' @ itoa (tk_itag track)
                       @ '': got '' @ itoa (fh_sequence header)
                       @ '', want '' @ itoa (tk_next track1))))
               else (track1\<lparr>tk_next := add64 (tk_next track1) 1, tk_media_written := True\<rparr>, None))
      else (track, Some (Err (''unknown SABR frame type '' @ itoa (uint (fh_kind header))))))"

definition discards :: "bool \<Rightarrow> frame_header \<Rightarrow> bool" where
  "discards write_init header \<longleftrightarrow> fh_kind header = frame_initialization \<and> \<not> write_init"

text \<open>Where the payload goes: an initialization frame is skipped unless this is the first part.\<close>

definition frame_writer :: "bool \<Rightarrow> stream_track \<Rightarrow> frame_header \<Rightarrow> writer" where
  "frame_writer write_init track header =
     (if discards write_init header then Discard
      else case tk_output track of None \<Rightarrow> Closed | Some s \<Rightarrow> To s)"

definition wrote_to :: "stream_track \<Rightarrow> writer \<Rightarrow> stream_track" where
  "wrote_to track out = (case out of To s \<Rightarrow> track\<lparr>tk_output := Some s\<rparr> | _ \<Rightarrow> track)"

definition consume_frame ::
    "bool \<Rightarrow> reader \<Rightarrow> stream_track \<Rightarrow> frame_header
       \<Rightarrow> reader \<times> stream_track \<times> int list \<times> error option" where
  "consume_frame write_init r track header =
     (case begin_frame track header of
        (track1, Some e) \<Rightarrow> (r, track1, [], Some e)
      | (track1, None) \<Rightarrow>
          (case copy_frame (frame_writer write_init track1 header) r (fh_length header) 0 of
             (out, r', written, err) \<Rightarrow>
               (let track2 = wrote_to track1 out
                in case err of
                     Some e \<Rightarrow> (r', track2, [],
                                Some (Wrap (''write SABR '' @ tk_kind track2 @ '' track: '') e []))
                   | None \<Rightarrow>
                       if written \<noteq> fh_length header then (r', track2, [], Some Unexpected_eof)
                       else (r', track2, if discards write_init header then [] else [written], None))))"

section \<open>The stream\<close>

lemma copy_frame_length: "length (r_data (fst (snd (copy_frame out r len written)))) \<le> length (r_data r)"
proof (induction out r len written rule: copy_frame.induct)
  case (1 out r len written)
  let ?chunk = "if len - written < stream_copy_buffer_size then len - written else stream_copy_buffer_size"
  have l: "length (r_data (fst (read_full r (nat ?chunk)))) \<le> length (r_data r)"
    by (rule read_full_length)
  show ?case
  proof (cases "written < len")
    case False
    then show ?thesis by (subst copy_frame.simps) simp
  next
    case True
    obtain r' res where res: "read_full r (nat ?chunk) = (r', res)" by fastforce
    show ?thesis
    proof (cases res)
      case (Inl e)
      with True res l show ?thesis by (subst copy_frame.simps) (simp add: Let_def)
    next
      case (Inr bs)
      obtain out' wrote err where w: "writer_write out bs = (out', wrote, err)" using prod_cases3 by blast
      show ?thesis
        using 1 [OF _ refl res [symmetric] Inr w [symmetric] refl] True res Inr w l
        by (subst copy_frame.simps) (auto simp: Let_def)
    qed
  qed
qed

lemma consume_frame_length: "length (r_data (fst (consume_frame wi r t h))) \<le> length (r_data r)"
proof -
  have "length (r_data (fst (snd (copy_frame (frame_writer wi (fst (begin_frame t h)) h) r (fh_length h) 0))))
      \<le> length (r_data r)" by (rule copy_frame_length)
  then show ?thesis
    by (simp add: consume_frame_def Let_def case_prod_beta split: option.split)
qed

text \<open>The loop over the frames, after the magic. Every round reads a header, so it ends with the
  stream.\<close>

function consume_frames ::
    "bool \<Rightarrow> reader \<Rightarrow> stream_track list \<Rightarrow> int list
       \<Rightarrow> reader \<times> stream_track list \<times> int list \<times> error option" where
  "consume_frames write_init r tracks added =
     (case read_full r frame_header_size of
        (r1, Inl e) \<Rightarrow> (r1, tracks, added, Some (Wrap ''read SABR frame header: '' e []))
      | (r1, Inr raw) \<Rightarrow>
          (case decode_frame_header raw of
             Inl e \<Rightarrow> (r1, tracks, added, Some e)
           | Inr header \<Rightarrow>
               if fh_kind header = frame_complete
               then (case validate_complete tracks header of
                       Some e \<Rightarrow> (r1, tracks, added, Some e)
                     | None \<Rightarrow>
                         if r_data r1 \<noteq> [] \<or> r_end r1 \<noteq> Eof
                         then (r1, tracks, added, Some (Err ''SABR download stream has trailing data''))
                         else (r1, tracks, added, None))
               else (case find_track tracks (fh_itag header) of
                       None \<Rightarrow> (r1, tracks, added,
                                Some (Err (''SABR frame references unselected itag ''
                                           @ itoa (fh_itag header))))
                     | Some i \<Rightarrow>
                         (case consume_frame write_init r1 (tracks ! i) header of
                            (r2, track, counts, Some e) \<Rightarrow>
                              (r2, tracks[i := track], added @ counts, Some e)
                          | (r2, track, counts, None) \<Rightarrow>
                              consume_frames write_init r2 (tracks[i := track]) (added @ counts)))))"
  by pat_completeness auto
termination
proof (relation "measure (\<lambda>(wi, r, ts, added). length (r_data r))", goal_cases)
  case 1
  show ?case by simp
next
  case prems: (2 wi r tracks added r1 y raw header i r2 ya xb yb xc yc)
  have "length (r_data r2) \<le> length (r_data r1)"
    using consume_frame_length [of wi r1 "tracks ! i" header] prems(6) by (metis fst_conv)
  moreover have "length (r_data r1) < length (r_data r)"
    using prems(1,2) by (auto simp: read_full_def frame_header_size_def split: if_splits)
  ultimately show ?case by simp
qed

declare consume_frames.simps [simp del]

definition consume_download_stream ::
    "bool \<Rightarrow> reader \<Rightarrow> stream_track list \<Rightarrow> reader \<times> stream_track list \<times> int list \<times> error option"
    where
  "consume_download_stream write_init r tracks =
     (case read_full r download_magic_size of
        (r1, Inl e) \<Rightarrow> (r1, tracks, [], Some (Wrap ''read SABR stream magic: '' e []))
      | (r1, Inr magic) \<Rightarrow>
          if magic \<noteq> download_magic
          then (r1, tracks, [], Some (Err ''invalid SABR download stream magic''))
          else consume_frames write_init r1 tracks [])"

end
