(* ===== verification/Sabr_Stream_Spec.thy ===== *)
theory Sabr_Stream_Spec
  imports Sabr_Stream
begin

text \<open>
  What \<open>consumeDownloadStream\<close> accepts and what it writes, against the format of the stream: a
  list of frames, each track's frames being one initialization and then media with consecutive
  sequence numbers.
\<close>

section \<open>Big-endian fields\<close>

fun be_bytes :: "nat \<Rightarrow> int \<Rightarrow> byte list" where
  "be_bytes 0 v = []"
| "be_bytes (Suc n) v = be_bytes n (v div 256) @ [word_of_int v]"

lemma be_bytes_length [simp]: "length (be_bytes n v) = n"
  by (induction n arbitrary: v) simp_all

lemma be_value_snoc: "be_value (bs @ [b]) = be_value bs * 256 + uint b"
  by (simp add: be_value_def)

lemma byte_of_int: "uint (word_of_int v :: byte) = v mod 256"
  by (simp add: uint_word_of_int)

lemma be_value_bytes: "be_value (be_bytes n v) = v mod 256 ^ n"
proof (induction n arbitrary: v)
  case 0
  then show ?case by (simp add: be_value_def)
next
  case (Suc n)
  have "v mod 256 ^ Suc n = 256 * (v div 256 mod 256 ^ n) + v mod 256"
    using zmod_zmult2_eq [of "256 ^ n" v 256] by (simp add: mult.commute)
  with Suc show ?case by (simp add: be_value_snoc byte_of_int)
qed

lemma byte_bounds: "0 \<le> uint (b :: byte)" "uint (b :: byte) < 256"
  using unsigned_less [of b, where ?'a = int] by simp_all

lemma be_bytes_value: "length bs = n \<Longrightarrow> be_bytes n (be_value bs) = bs"
proof (induction n arbitrary: bs)
  case 0
  then show ?case by simp
next
  case (Suc n)
  then obtain cs c where bs: "bs = cs @ [c]" by (cases bs rule: rev_cases) auto
  have "(be_value cs * 256 + uint c) div 256 = be_value cs"
    using byte_bounds [of c] by simp
  moreover have "(word_of_int (be_value cs * 256 + uint c) :: byte) = c"
  proof -
    have "uint (word_of_int (be_value cs * 256 + uint c) :: byte) = uint c"
      unfolding byte_of_int using byte_bounds [of c] by simp
    then show ?thesis by (simp only: word_uint_eq_iff)
  qed
  ultimately show ?case using Suc bs by (simp add: be_value_snoc)
qed

lemma be_bytes_cong: "v mod 256 ^ n = v' mod 256 ^ n \<Longrightarrow> be_bytes n v = be_bytes n v'"
  by (metis be_bytes_length be_bytes_value be_value_bytes)

lemma sint_word_of_int_id:
  "- (2 ^ (LENGTH('a::len) - 1)) \<le> v \<Longrightarrow> v < 2 ^ (LENGTH('a) - 1) \<Longrightarrow>
    sint (word_of_int v :: 'a word) = v"
  by (simp add: sint_sbintrunc' signed_take_bit_int_eq_self)

lemma be_int32_bytes:
  assumes "- 2147483648 \<le> v" and "v < 2147483648"
  shows "be_int32 (be_bytes 4 v) = v"
proof -
  have "(word_of_int (v mod 256 ^ 4) :: 32 word) = word_of_int v"
    by (rule word_uint_eq_iff [THEN iffD2]) (simp add: uint_word_of_int)
  then show ?thesis
    using assms by (simp add: be_int32_def be_value_bytes sint_word_of_int_id)
qed

lemma be_int64_bytes:
  assumes "0 \<le> v" and "v < 9223372036854775808"
  shows "be_int64 (be_bytes 8 v) = v"
proof -
  have "(word_of_int (v mod 256 ^ 8) :: 64 word) = word_of_int v"
    by (rule word_uint_eq_iff [THEN iffD2]) (simp add: uint_word_of_int)
  then show ?thesis
    using assms by (simp add: be_int64_def be_value_bytes sint_word_of_int_id)
qed

lemma sint_mod: "sint (word_of_int v :: 'a::len word) mod 2 ^ LENGTH('a) = v mod 2 ^ LENGTH('a)"
  by (simp add: sint_sbintrunc' take_bit_signed_take_bit flip: take_bit_eq_mod)

lemma be_bytes_int32: "length bs = 4 \<Longrightarrow> be_bytes 4 (be_int32 bs) = bs"
  using be_bytes_cong [of "be_int32 bs" 4 "be_value bs"] sint_mod [of "be_value bs", where ?'a = 32]
  by (simp add: be_int32_def be_bytes_value)

lemma be_bytes_int64: "length bs = 8 \<Longrightarrow> be_bytes 8 (be_int64 bs) = bs"
  using be_bytes_cong [of "be_int64 bs" 8 "be_value bs"] sint_mod [of "be_value bs", where ?'a = 64]
  by (simp add: be_int64_def be_bytes_value)

lemma be_int32_range: "- 2147483648 \<le> be_int32 bs" "be_int32 bs < 2147483648"
  using sint_ge [of "word_of_int (be_value bs) :: 32 word"]
    sint_lt [of "word_of_int (be_value bs) :: 32 word"]
  by (simp_all add: be_int32_def)

section \<open>Frames\<close>

record frame =
  f_kind :: byte
  f_itag :: int
  f_seq :: int
  f_payload :: "byte list"

definition header_of :: "frame \<Rightarrow> frame_header" where
  "header_of f = \<lparr>fh_kind = f_kind f, fh_itag = f_itag f, fh_sequence = f_seq f,
                  fh_length = int (length (f_payload f))\<rparr>"

definition frame_valid :: "frame \<Rightarrow> bool" where
  "frame_valid f \<longleftrightarrow> - 2147483648 \<le> f_itag f \<and> f_itag f < 2147483648
     \<and> - 2147483648 \<le> f_seq f \<and> f_seq f < 2147483648
     \<and> int (length (f_payload f)) \<le> max_frame_bytes"

definition encode_header :: "frame_header \<Rightarrow> byte list" where
  "encode_header h = fh_kind h # be_bytes 4 (fh_itag h) @ be_bytes 4 (fh_sequence h)
     @ be_bytes 8 (fh_length h)"

definition encode_frame :: "frame \<Rightarrow> byte list" where
  "encode_frame f = encode_header (header_of f) @ f_payload f"

definition encode_complete :: "byte list" where
  "encode_complete = encode_header \<lparr>fh_kind = frame_complete, fh_itag = 0, fh_sequence = 0, fh_length = 0\<rparr>"

definition encode_stream :: "frame list \<Rightarrow> byte list" where
  "encode_stream fs = download_magic @ concat (map encode_frame fs) @ encode_complete"

lemma encode_header_length [simp]: "length (encode_header h) = 17"
  by (simp add: encode_header_def)

lemma max_frame_bytes_value: "max_frame_bytes = 67108864"
  by (simp add: max_frame_bytes_def push_bit_eq_mult)

lemma decode_encode:
  assumes "- 2147483648 \<le> fh_itag h" "fh_itag h < 2147483648"
    and "- 2147483648 \<le> fh_sequence h" "fh_sequence h < 2147483648"
    and "0 \<le> fh_length h" "fh_length h \<le> max_frame_bytes"
  shows "decode_frame_header (encode_header h) = Inr h"
proof -
  have d5: "drop 4 (be_bytes 4 a @ b) = b" for a b by simp
  have d9: "drop 8 (be_bytes 4 a @ be_bytes 4 b @ c) = c" for a b c by simp
  have "raw_header (encode_header h) = h"
    using assms
    by (simp add: raw_header_def encode_header_def be_int32_bytes be_int64_bytes
        max_frame_bytes_value d5 d9)
  with assms show ?thesis by (simp add: decode_frame_header_def)
qed

lemma encode_decode:
  assumes "length raw = 17" and "decode_frame_header raw = Inr h"
  shows "raw = encode_header h" and "0 \<le> fh_length h" and "fh_length h \<le> max_frame_bytes"
    and "h = raw_header raw"
proof -
  from assms(2) show h: "h = raw_header raw" and "0 \<le> fh_length h" and "fh_length h \<le> max_frame_bytes"
    by (auto simp: decode_frame_header_def Let_def split: if_splits)
  obtain k r where raw: "raw = k # r" "length r = 16" using assms(1) by (cases raw) auto
  have parts: "r = take 4 r @ take 4 (drop 4 r) @ take 8 (drop 8 r)"
    using raw(2) by (metis add_numeral_left append.assoc append_take_drop_id drop_drop
        numeral_Bit0 semiring_norm(2) take_add take_all_iff order_refl length_drop
        arith_simps(63) add_One_commute take_all numeral_plus_one length_take)
  have l: "length (take 4 r) = 4" "length (take 4 (drop 4 r)) = 4" "length (take 8 (drop 8 r)) = 8"
    using raw(2) by simp_all
  have "encode_header (raw_header raw) = k # take 4 r @ take 4 (drop 4 r) @ take 8 (drop 8 r)"
    using be_bytes_int32 [OF l(1)] be_bytes_int32 [OF l(2)] be_bytes_int64 [OF l(3)] raw(1)
    by (simp add: encode_header_def raw_header_def)
  then show "raw = encode_header h" using parts raw(1) h by simp
qed

section \<open>Copying a payload\<close>

definition takes :: "writer \<Rightarrow> nat \<Rightarrow> bool" where
  "takes out n \<longleftrightarrow>
     (case out of
        Discard \<Rightarrow> True
      | Closed \<Rightarrow> n = 0
      | To s \<Rightarrow> (case out_room s of None \<Rightarrow> True | Some k \<Rightarrow> n \<le> k))"

definition appended :: "writer \<Rightarrow> byte list \<Rightarrow> writer" where
  "appended out bs =
     (case out of
        To s \<Rightarrow> To (s\<lparr>out_data := out_data s @ bs, out_room := map_option (\<lambda>k. k - length bs) (out_room s)\<rparr>)
      | _ \<Rightarrow> out)"

lemma appended_Nil [simp]: "appended out [] = out"
  by (auto simp: appended_def option.map_ident split: writer.split)

lemma appended_append: "appended (appended out xs) ys = appended out (xs @ ys)"
  by (auto simp: appended_def option.map_comp o_def split: writer.split)

lemma takes_appended: "takes out (length xs) \<Longrightarrow> takes (appended out xs) n \<longleftrightarrow> takes out (length xs + n)"
  by (auto simp: appended_def takes_def split: writer.split option.split)

lemma writer_write_takes:
  "takes out (length bs) \<Longrightarrow> bs \<noteq> [] \<Longrightarrow> writer_write out bs = (appended out bs, length bs, None)"
  by (auto simp: takes_def writer_write_def sink_write_def appended_def Let_def
      split: writer.split option.split)

lemma writer_write_full:
  "\<not> takes out (length bs) \<Longrightarrow> \<exists>out' n e. writer_write out bs = (out', n, Some e)"
  by (auto simp: takes_def writer_write_def sink_write_def Let_def split: writer.splits option.splits)

lemma copy_frame_result:
  assumes "written \<le> len"
  shows "if nat (len - written) \<le> length (r_data r) \<and> takes out (nat (len - written))
    then copy_frame out r len written
      = (appended out (take (nat (len - written)) (r_data r)),
         r\<lparr>r_data := drop (nat (len - written)) (r_data r)\<rparr>, len, None)
    else \<exists>out' r' w e. copy_frame out r len written = (out', r', w, Some e)"
  using assms
proof (induction out r len written rule: copy_frame.induct)
  case (1 out r len written)
  let ?chunk = "if len - written < stream_copy_buffer_size then len - written else stream_copy_buffer_size"
  let ?n = "nat ?chunk" and ?need = "nat (len - written)"
  show ?case
  proof (cases "written < len")
    case False
    with 1(2) show ?thesis
      by (subst (1) copy_frame.simps) (auto simp: takes_def split: writer.split option.split)
  next
    case True
    then have n0: "0 < ?n" and nle: "?n \<le> ?need" and c: "int ?n = ?chunk" "written + ?chunk \<le> len"
      by (auto simp: stream_copy_buffer_size_def)
    have mono: "\<not> takes out ?n \<Longrightarrow> \<not> takes out ?need"
      using nle n0 by (auto simp: takes_def split: writer.splits option.splits)
    show ?thesis
    proof (cases "?n \<le> length (r_data r)")
      case False
      with True nle show ?thesis
        by (subst copy_frame.simps) (auto simp: read_full_def Let_def)
    next
      case len: True
      let ?bs = "take ?n (r_data r)"
      have read: "read_full r ?n = (r\<lparr>r_data := drop ?n (r_data r)\<rparr>, Inr ?bs)"
        using len by (simp add: read_full_def)
      have lbs: "length ?bs = ?n" using len by simp
      show ?thesis
      proof (cases "takes out ?n")
        case False
        with writer_write_full [of out ?bs] lbs obtain out' n e
          where w: "writer_write out ?bs = (out', n, Some e)" by auto
        from True read w False mono show ?thesis
          by (subst copy_frame.simps) (simp add: Let_def del: take_all_iff)
      next
        case tk: True
        have w: "writer_write out ?bs = (appended out ?bs, ?n, None)"
          using writer_write_takes [of out ?bs] tk lbs n0 by force
        have step: "copy_frame out r len written
            = copy_frame (appended out ?bs) (r\<lparr>r_data := drop ?n (r_data r)\<rparr>) len (written + int ?n)"
          using True read w c(1) by (subst copy_frame.simps) (simp add: Let_def)
        have need: "nat (len - (written + int ?n)) = ?need - ?n" using c by linarith
        have take2: "?bs @ take (?need - ?n) (drop ?n (r_data r)) = take ?need (r_data r)"
          using nle by (metis le_add_diff_inverse take_add)
        have drop2: "drop (?need - ?n) (drop ?n (r_data r)) = drop ?need (r_data r)"
          using nle by simp
        have len2: "?need - ?n \<le> length (drop ?n (r_data r)) \<longleftrightarrow> ?need \<le> length (r_data r)"
          using nle len by auto
        have tk2: "takes (appended out ?bs) (?need - ?n) \<longleftrightarrow> takes out ?need"
          using takes_appended [of out ?bs "?need - ?n"] tk lbs nle by simp
        define n where "n = ?n"
        define need where "need = ?need"
        have written: "written + int ?n \<le> len" using c by linarith
        have rd: "r_data (r\<lparr>r_data := x\<rparr>) = x" "r\<lparr>r_data := x, r_data := y\<rparr> = r\<lparr>r_data := y\<rparr>" for x y
          by simp_all
        have prems: "\<not> \<not> written < len" "\<not> (None :: error option) \<noteq> None" "\<not> int ?n \<noteq> ?chunk"
          using True c(1) by (simp_all only: not_not)
        have ih: "if need - n \<le> length (drop n (r_data r)) \<and> takes (appended out (take n (r_data r))) (need - n)
          then copy_frame (appended out (take n (r_data r))) (r\<lparr>r_data := drop n (r_data r)\<rparr>) len (written + int n)
            = (appended (appended out (take n (r_data r))) (take (need - n) (drop n (r_data r))),
               r\<lparr>r_data := drop (need - n) (drop n (r_data r))\<rparr>, len, None)
          else \<exists>out' r' w e. copy_frame (appended out (take n (r_data r))) (r\<lparr>r_data := drop n (r_data r)\<rparr>)
            len (written + int n) = (out', r', w, Some e)"
          using 1(1) [OF prems(1) refl read [symmetric] refl w [symmetric] refl prems(2,3) written]
          unfolding need need_def n_def rd .
        show ?thesis
          unfolding step need_def [symmetric] n_def [symmetric]
          using ih take2 drop2 len2 tk2 unfolding need_def [symmetric] n_def [symmetric]
          by (simp only: appended_append)
      qed
    qed
  qed
qed

section \<open>Running frames\<close>

definition frame_step :: "bool \<Rightarrow> frame \<Rightarrow> stream_track \<Rightarrow> stream_track option" where
  "frame_step wi f t =
     (case begin_frame t (header_of f) of
        (t1, Some e) \<Rightarrow> None
      | (t1, None) \<Rightarrow>
          (let out = frame_writer wi t1 (header_of f)
           in if takes out (length (f_payload f))
              then Some (wrote_to t1 (appended out (f_payload f))) else None))"

fun run_frames :: "bool \<Rightarrow> frame list \<Rightarrow> stream_track list \<Rightarrow> stream_track list option" where
  "run_frames wi [] ts = Some ts"
| "run_frames wi (f # fs) ts =
     (if f_kind f = frame_complete then None
      else case find_track ts (f_itag f) of
        None \<Rightarrow> None
      | Some i \<Rightarrow> (case frame_step wi f (ts ! i) of
                     None \<Rightarrow> None
                   | Some t \<Rightarrow> run_frames wi fs (ts[i := t])))"

definition counted :: "bool \<Rightarrow> frame list \<Rightarrow> int list" where
  "counted wi fs = map (\<lambda>f. int (length (f_payload f))) (filter (\<lambda>f. \<not> discards wi (header_of f)) fs)"

lemma consume_frame_step:
  assumes "frame_valid f" and "length (f_payload f) \<le> length (r_data r)"
    and "take (length (f_payload f)) (r_data r) = f_payload f"
  shows "case frame_step wi f t of
      Some t' \<Rightarrow> consume_frame wi r t (header_of f)
        = (r\<lparr>r_data := drop (length (f_payload f)) (r_data r)\<rparr>, t', counted wi [f], None)
    | None \<Rightarrow> \<exists>r' t' c e. consume_frame wi r t (header_of f) = (r', t', c, Some e)"
proof -
  obtain t1 e where b: "begin_frame t (header_of f) = (t1, e)" by fastforce
  let ?out = "frame_writer wi t1 (header_of f)"
  have len: "fh_length (header_of f) = int (length (f_payload f))" by (simp add: header_of_def)
  note copy = copy_frame_result [of 0 "fh_length (header_of f)" r ?out, simplified len]
  show ?thesis
  proof (cases e)
    case (Some e')
    with b show ?thesis by (simp add: frame_step_def consume_frame_def)
  next
    case None
    show ?thesis
    proof (cases "takes ?out (length (f_payload f))")
      case True
      with copy assms have "copy_frame ?out r (int (length (f_payload f))) 0
          = (appended ?out (f_payload f), r\<lparr>r_data := drop (length (f_payload f)) (r_data r)\<rparr>,
             int (length (f_payload f)), None)" by simp
      with None True b show ?thesis
        by (simp add: frame_step_def consume_frame_def len Let_def counted_def)
    next
      case False
      with copy obtain out' r' w e' where "copy_frame ?out r (int (length (f_payload f))) 0 = (out', r', w, Some e')"
        by auto
      with None False b show ?thesis
        by (simp add: frame_step_def consume_frame_def len Let_def)
    qed
  qed
qed

lemma consume_frame_ok:
  assumes "consume_frame wi r t h = (r', t', c, None)" and "0 \<le> fh_length h"
  shows "nat (fh_length h) \<le> length (r_data r)"
proof -
  obtain t1 e where b: "begin_frame t h = (t1, e)" by fastforce
  note copy = copy_frame_result [OF assms(2), of r "frame_writer wi t1 h"]
  have "e = None" using assms(1) b by (cases e) (simp_all add: consume_frame_def)
  with assms b copy show ?thesis
    by (auto simp: consume_frame_def Let_def split: prod.splits option.splits if_splits)
qed

lemma encode_frame_reads:
  assumes "frame_valid f"
  shows "read_full (r\<lparr>r_data := encode_frame f @ rest\<rparr>) frame_header_size
      = (r\<lparr>r_data := f_payload f @ rest\<rparr>, Inr (encode_header (header_of f)))"
    and "decode_frame_header (encode_header (header_of f)) = Inr (header_of f)"
  using assms by (simp_all add: read_full_def frame_header_size_def encode_frame_def,
      intro decode_encode) (simp_all add: frame_valid_def header_of_def)

text \<open>Valid frames run as the code consumes them; the first that does not ends the stream with an
  error.\<close>

lemma consume_run:
  assumes "\<forall>f\<in>set fs. frame_valid f"
  shows "case run_frames wi fs ts of
      Some ts' \<Rightarrow> consume_frames wi (r\<lparr>r_data := concat (map encode_frame fs) @ rest\<rparr>) ts added
        = consume_frames wi (r\<lparr>r_data := rest\<rparr>) ts' (added @ counted wi fs)
    | None \<Rightarrow> True"
  using assms
proof (induction fs arbitrary: ts added)
  case Nil
  then show ?case by (simp add: counted_def)
next
  case (Cons f fs)
  let ?rest = "concat (map encode_frame fs) @ rest"
  let ?r1 = "r\<lparr>r_data := f_payload f @ ?rest\<rparr>"
  show ?case
  proof (cases "f_kind f = frame_complete")
    case True
    then show ?thesis by simp
  next
    case kind: False
    show ?thesis
    proof (cases "find_track ts (f_itag f)")
      case None
      with kind show ?thesis by simp
    next
      case (Some i)
      have v: "frame_valid f" using Cons.prems by simp
      show ?thesis
      proof (cases "frame_step wi f (ts ! i)")
        case None
        with kind Some show ?thesis by simp
      next
        case step: (Some t)
        from consume_frame_step [OF v, of ?r1 wi "ts ! i"] step
        have c: "consume_frame wi ?r1 (ts ! i) (header_of f) = (r\<lparr>r_data := ?rest\<rparr>, t, counted wi [f], None)"
          by simp
        have h: "fh_kind (header_of f) = f_kind f" "fh_itag (header_of f) = f_itag f"
          by (simp_all add: header_of_def)
        have "consume_frames wi (r\<lparr>r_data := encode_frame f @ ?rest\<rparr>) ts added
            = consume_frames wi (r\<lparr>r_data := ?rest\<rparr>) (ts[i := t]) (added @ counted wi [f])"
          using kind Some c h encode_frame_reads(1) [OF v, where r = r and rest = ?rest]
            encode_frame_reads(2) [OF v]
          by (subst consume_frames.simps) simp
        moreover have "(added @ counted wi [f]) @ counted wi fs = added @ counted wi (f # fs)"
          by (simp add: counted_def)
        ultimately show ?thesis
          using kind Some step Cons.IH [of "ts[i := t]" "added @ counted wi [f]"] Cons.prems
          by (simp split: option.splits)
      qed
    qed
  qed
qed

text \<open>Conversely, what the code accepts is the encoding of valid frames that run to complete tracks.\<close>

definition finished :: "stream_track list \<Rightarrow> bool" where
  "finished ts \<longleftrightarrow> (\<forall>t\<in>set ts. tk_initialized t \<and> tk_media_written t)"

lemma validate_complete_None:
  "validate_complete ts h = None \<longleftrightarrow>
     fh_itag h = 0 \<and> fh_sequence h = 0 \<and> fh_length h = 0 \<and> finished ts"
  unfolding validate_complete_def finished_def
  by (auto simp: find_None_iff find_Some_iff split: option.splits intro: nth_mem)

lemma consume_frames_sound:
  assumes "consume_frames wi r ts added = (r', ts', added', None)"
  shows "\<exists>fs. (\<forall>f\<in>set fs. frame_valid f) \<and> r_data r = concat (map encode_frame fs) @ encode_complete
    \<and> r_end r = Eof \<and> run_frames wi fs ts = Some ts' \<and> finished ts' \<and> added' = added @ counted wi fs"
  using assms
proof (induction wi r ts added arbitrary: r' ts' added' rule: consume_frames.induct)
  case (1 wi r ts added)
  from "1.prems" obtain raw where
    read: "read_full r frame_header_size = (r\<lparr>r_data := drop 17 (r_data r)\<rparr>, Inr raw)"
    and raw: "raw = take 17 (r_data r)" "length raw = 17"
    by (subst (asm) consume_frames.simps) (auto simp: read_full_def frame_header_size_def split: if_splits)
  let ?r1 = "r\<lparr>r_data := drop 17 (r_data r)\<rparr>"
  have data: "r_data r = raw @ drop 17 (r_data r)" using raw by simp
  from "1.prems" read obtain h where h: "decode_frame_header raw = Inr h"
    by (subst (asm) consume_frames.simps) (auto split: sum.splits)
  note enc = encode_decode [OF raw(2) h]
  show ?case
  proof (cases "fh_kind h = frame_complete")
    case True
    with "1.prems" read h have "validate_complete ts h = None" and "drop 17 (r_data r) = []"
      and e: "r_end r = Eof" "ts' = ts" "added' = added"
      by (auto simp: consume_frames.simps [of wi r ts added] split: option.splits if_splits)
    then have "fh_itag h = 0" "fh_sequence h = 0" "fh_length h = 0" and fin: "finished ts"
      by (auto simp: validate_complete_None)
    with True have "encode_header h = encode_complete" by (simp add: encode_complete_def encode_header_def)
    with data enc(1) \<open>drop 17 (r_data r) = []\<close> e fin show ?thesis
      by (intro exI [of _ "[]"]) (simp add: counted_def)
  next
    case kind: False
    with "1.prems" read h obtain i where i: "find_track ts (fh_itag h) = Some i"
      by (subst (asm) consume_frames.simps) (auto split: option.splits)
    obtain r2 t c e where c: "consume_frame wi ?r1 (ts ! i) h = (r2, t, c, e)"
      using prod_cases4 by blast
    with "1.prems" read h kind i have e: "e = None"
      by (subst (asm) consume_frames.simps) (auto split: option.splits)
    let ?n = "nat (fh_length h)"
    have n: "?n \<le> length (r_data ?r1)"
      using consume_frame_ok [OF c [unfolded e] enc(2)] .
    define f where "f = \<lparr>f_kind = fh_kind h, f_itag = fh_itag h, f_seq = fh_sequence h,
                         f_payload = take ?n (drop 17 (r_data r))\<rparr>"
    have lenf: "length (f_payload f) = ?n" using n by (simp add: f_def)
    have hf: "header_of f = h" using enc(2) lenf by (simp add: header_of_def) (simp add: f_def)
    have range: "- 2147483648 \<le> fh_itag h" "fh_itag h < 2147483648"
      "- 2147483648 \<le> fh_sequence h" "fh_sequence h < 2147483648"
      using be_int32_range unfolding enc(4) raw_header_def by simp_all
    have v: "frame_valid f" using range enc(2,3) lenf by (simp add: frame_valid_def) (simp add: f_def)
    have n': "length (f_payload f) \<le> length (r_data ?r1)"
      "take (length (f_payload f)) (r_data ?r1) = f_payload f"
      using n lenf by (simp_all add: f_def)
    from consume_frame_step [OF v n', of wi "ts ! i", unfolded hf] c [unfolded e]
    have step: "frame_step wi f (ts ! i) = Some t"
      and r2: "r2 = r\<lparr>r_data := drop ?n (drop 17 (r_data r))\<rparr>" and cc: "c = counted wi [f]"
      by (auto simp: lenf split: option.splits)
    have rec: "consume_frames wi r2 (ts[i := t]) (added @ c) = (r', ts', added', None)"
      using "1.prems" read h kind i c e by (subst (asm) consume_frames.simps) simp
    from "1.IH" [OF read [symmetric] refl h kind i c [symmetric] refl refl e rec]
    obtain fs where fs: "\<forall>f\<in>set fs. frame_valid f"
      "r_data r2 = concat (map encode_frame fs) @ encode_complete" "r_end r2 = Eof"
      "run_frames wi fs (ts[i := t]) = Some ts'" "finished ts'" "added' = (added @ c) @ counted wi fs"
      by blast
    have "r_data r = encode_frame f @ r_data r2"
      using data enc(1) r2 hf by (simp add: encode_frame_def f_def del: drop_drop)
    moreover have "run_frames wi (f # fs) ts = Some ts'"
      using kind i step fs(4) by (simp add: f_def)
    moreover have "added' = added @ counted wi (f # fs)" using fs(6) cc by (simp add: counted_def)
    ultimately show ?thesis
      using v fs r2 by (intro exI [of _ "f # fs"]) simp
  qed
qed

section \<open>One track\<close>

text \<open>The frames of one track, as the format has them: the initialization, and then media frames with
  consecutive positive sequence numbers.\<close>

definition track_format :: "frame list \<Rightarrow> bool" where
  "track_format fs \<longleftrightarrow>
     (\<exists>i ms s. fs = i # ms \<and> f_kind i = frame_initialization \<and> f_seq i = 0 \<and> 0 < s \<and> ms \<noteq> []
        \<and> (\<forall>k<length ms. f_kind (ms ! k) = frame_media \<and> f_seq (ms ! k) = s + int k))"

definition payloads :: "bool \<Rightarrow> frame list \<Rightarrow> byte list" where
  "payloads wi fs = concat (map f_payload (filter (\<lambda>f. \<not> discards wi (header_of f)) fs))"

fun run_track :: "bool \<Rightarrow> frame list \<Rightarrow> stream_track \<Rightarrow> stream_track option" where
  "run_track wi [] t = Some t"
| "run_track wi (f # fs) t =
     (case frame_step wi f t of None \<Rightarrow> None | Some t' \<Rightarrow> run_track wi fs t')"

text \<open>An open part file on a disk with room.\<close>

definition open_output :: "stream_track \<Rightarrow> byte list \<Rightarrow> bool" where
  "open_output t d \<longleftrightarrow> tk_output t = Some \<lparr>out_data = d, out_room = None\<rparr>"

definition fresh_track :: "stream_track \<Rightarrow> bool" where
  "fresh_track t \<longleftrightarrow> open_output t [] \<and> tk_next t = 0 \<and> \<not> tk_initialized t \<and> \<not> tk_media_written t"

lemmas frame_kinds = frame_initialization_def frame_media_def frame_complete_def

lemma step_init:
  assumes "\<not> tk_initialized t" and "open_output t d"
  shows "frame_step wi f t =
    (if f_kind f = frame_initialization \<and> f_seq f = 0
     then Some (t\<lparr>tk_initialized := True,
                 tk_output := Some \<lparr>out_data = d @ payloads wi [f], out_room = None\<rparr>\<rparr>)
     else None)"
  using assms
  by (auto simp: frame_step_def begin_frame_def header_of_def Let_def frame_kinds frame_writer_def
      takes_def open_output_def wrote_to_def appended_def payloads_def discards_def)

lemma step_media:
  assumes "tk_initialized t" and "open_output t d" and "tk_next t = 0 \<or> tk_next t = n \<and> 0 < n"
    and "frame_valid f"
  shows "frame_step wi f t =
    (if f_kind f = frame_media \<and> 0 < f_seq f \<and> (tk_next t = 0 \<or> f_seq f = n)
     then Some (t\<lparr>tk_next := f_seq f + 1, tk_media_written := True,
                 tk_output := Some \<lparr>out_data = d @ f_payload f, out_room = None\<rparr>\<rparr>)
     else None)"
proof -
  have "wrap64 (f_seq f + 1) = f_seq f + 1"
    using assms(4) by (intro wrap64_id) (simp_all add: frame_valid_def)
  with assms show ?thesis
    by (auto simp: frame_step_def begin_frame_def header_of_def Let_def frame_kinds frame_writer_def
        takes_def open_output_def wrote_to_def appended_def discards_def)
qed

lemma payload_media: "f_kind f = frame_media \<Longrightarrow> payloads wi (f # fs) = f_payload f @ payloads wi fs"
  by (simp add: payloads_def discards_def header_of_def frame_kinds)

text \<open>Media frames from a known next sequence number.\<close>

definition media_from :: "int \<Rightarrow> frame list \<Rightarrow> bool" where
  "media_from s ms \<longleftrightarrow> (\<forall>k<length ms. f_kind (ms ! k) = frame_media \<and> f_seq (ms ! k) = s + int k)"

lemma media_from_Cons:
  "media_from s (f # fs) \<longleftrightarrow> f_kind f = frame_media \<and> f_seq f = s \<and> media_from (s + 1) fs"
proof -
  have "(\<forall>k<Suc (length fs). P k) \<longleftrightarrow> P 0 \<and> (\<forall>k<length fs. P (Suc k))" for P
    by (metis not0_implies_Suc not_less_eq zero_less_Suc)
  then show ?thesis by (auto simp: media_from_def algebra_simps)
qed

lemma run_media:
  assumes "\<forall>f\<in>set ms. frame_valid f" and "tk_initialized t" and "open_output t d"
    and "tk_next t = s" and "0 < s"
  shows "run_track wi ms t =
    (if media_from s ms
     then Some (t\<lparr>tk_next := s + int (length ms), tk_media_written := tk_media_written t \<or> ms \<noteq> [],
                 tk_output := Some \<lparr>out_data = d @ payloads wi ms, out_room = None\<rparr>\<rparr>)
     else None)"
  using assms
proof (induction ms arbitrary: t d s)
  case Nil
  then show ?case by (auto simp: media_from_def payloads_def open_output_def)
next
  case (Cons f fs)
  have v: "frame_valid f" using Cons.prems by simp
  from Cons.prems(5) have step: "frame_step wi f t =
    (if f_kind f = frame_media \<and> f_seq f = s
     then Some (t\<lparr>tk_next := s + 1, tk_media_written := True,
                 tk_output := Some \<lparr>out_data = d @ f_payload f, out_room = None\<rparr>\<rparr>) else None)"
    using step_media [OF Cons.prems(2,3) _ v, of s] Cons.prems(4) by auto
  show ?case
  proof (cases "f_kind f = frame_media \<and> f_seq f = s")
    case False
    with step show ?thesis by (auto simp: media_from_Cons)
  next
    case True
    let ?t = "t\<lparr>tk_next := s + 1, tk_media_written := True,
                 tk_output := Some \<lparr>out_data = d @ f_payload f, out_room = None\<rparr>\<rparr>"
    have "run_track wi fs ?t = (if media_from (s + 1) fs
      then Some (?t\<lparr>tk_next := s + 1 + int (length fs), tk_media_written := tk_media_written ?t \<or> fs \<noteq> [],
        tk_output := Some \<lparr>out_data = (d @ f_payload f) @ payloads wi fs, out_room = None\<rparr>\<rparr>) else None)"
      using Cons.prems by (intro Cons.IH) (simp_all add: open_output_def)
    with step True show ?thesis
      by (auto simp: media_from_Cons payload_media algebra_simps)
  qed
qed

lemma run_first_media:
  assumes valid: "\<forall>f\<in>set (m # ms). frame_valid f" and t: "tk_initialized t" "open_output t d" "tk_next t = 0"
  shows "run_track wi (m # ms) t =
    (if 0 < f_seq m \<and> media_from (f_seq m) (m # ms)
     then Some (t\<lparr>tk_next := f_seq m + 1 + int (length ms), tk_media_written := True,
                 tk_output := Some \<lparr>out_data = d @ payloads wi (m # ms), out_room = None\<rparr>\<rparr>)
     else None)"
proof -
  let ?t = "t\<lparr>tk_next := f_seq m + 1, tk_media_written := True,
              tk_output := Some \<lparr>out_data = d @ f_payload m, out_room = None\<rparr>\<rparr>"
  have step: "frame_step wi m t = (if f_kind m = frame_media \<and> 0 < f_seq m then Some ?t else None)"
    using step_media [of t d "f_seq m" m wi] valid t by simp
  have run: "run_track wi ms ?t = (if media_from (f_seq m + 1) ms
      then Some (?t\<lparr>tk_next := f_seq m + 1 + int (length ms), tk_media_written := tk_media_written ?t \<or> ms \<noteq> [],
        tk_output := Some \<lparr>out_data = (d @ f_payload m) @ payloads wi ms, out_room = None\<rparr>\<rparr>) else None)"
    if "0 < f_seq m"
    using valid t that by (intro run_media) (simp_all add: open_output_def)
  show ?thesis
    using step run by (auto simp: media_from_Cons payload_media)
qed

lemma run_fresh:
  assumes valid: "\<forall>f\<in>set fs. frame_valid f" and fresh: "fresh_track t" and run: "run_track wi fs t = Some t'"
  shows "open_output t' (payloads wi fs) \<and> (finished [t'] \<longleftrightarrow> track_format fs)"
proof (cases fs)
  case Nil
  with run fresh show ?thesis by (auto simp: payloads_def fresh_track_def finished_def track_format_def)
next
  case (Cons i ms)
  let ?t = "t\<lparr>tk_initialized := True, tk_output := Some \<lparr>out_data = payloads wi [i], out_room = None\<rparr>\<rparr>"
  have "f_kind i = frame_initialization \<and> f_seq i = 0 \<and> frame_step wi i t = Some ?t"
    using step_init [of t "[]" wi i] fresh run Cons by (auto simp: fresh_track_def split: if_splits)
  then have i: "f_kind i = frame_initialization" "f_seq i = 0" and run2: "run_track wi ms ?t = Some t'"
    using run Cons by auto
  show ?thesis
  proof (cases ms)
    case Nil
    with run2 have "t' = ?t" by simp
    then show ?thesis
      using Cons Nil fresh by (simp add: open_output_def finished_def fresh_track_def track_format_def)
  next
    case ms: (Cons m ms')
    have pay: "payloads wi (i # ms) = payloads wi [i] @ payloads wi ms" by (simp add: payloads_def)
    from run_first_media [of m ms' ?t "payloads wi [i]" wi] run2 valid fresh Cons ms
    have "0 < f_seq m" "media_from (f_seq m) ms"
      and t': "t' = ?t\<lparr>tk_next := f_seq m + 1 + int (length ms'), tk_media_written := True,
                 tk_output := Some \<lparr>out_data = payloads wi [i] @ payloads wi ms, out_room = None\<rparr>\<rparr>"
      by (auto simp: fresh_track_def open_output_def split: if_splits)
    then have "track_format fs"
      using i ms Cons unfolding track_format_def media_from_def by blast
    with t' pay Cons show ?thesis by (simp add: open_output_def finished_def)
  qed
qed

lemma run_format:
  assumes valid: "\<forall>f\<in>set fs. frame_valid f" and fresh: "fresh_track t" and fmt: "track_format fs"
  shows "\<exists>t'. run_track wi fs t = Some t'"
proof -
  from fmt obtain i ms s where fs: "fs = i # ms" and i: "f_kind i = frame_initialization" "f_seq i = 0"
    and s: "0 < s" "ms \<noteq> []" "media_from s ms" unfolding track_format_def media_from_def by blast
  let ?t = "t\<lparr>tk_initialized := True, tk_output := Some \<lparr>out_data = payloads wi [i], out_room = None\<rparr>\<rparr>"
  have step: "frame_step wi i t = Some ?t"
    using step_init [of t "[]" wi i] fresh i by (simp add: fresh_track_def)
  obtain m ms' where ms: "ms = m # ms'" using s(2) by (cases ms) auto
  from s(3) have "f_seq m = s" by (simp add: ms media_from_Cons)
  with run_first_media [of m ms' ?t "payloads wi [i]" wi] step s fs ms valid fresh show ?thesis
    by (simp add: fresh_track_def open_output_def)
qed

section \<open>All tracks\<close>

lemma find_track_Some:
  "find_track ts n = Some i \<Longrightarrow> i < length ts \<and> tk_itag (ts ! i) = n"
  by (induction ts arbitrary: i) (auto split: if_splits)

lemma find_track_None: "find_track ts n = None \<longleftrightarrow> n \<notin> tk_itag ` set ts"
  by (induction ts) auto

lemma frame_step_itag: "frame_step wi f t = Some t' \<Longrightarrow> tk_itag t' = tk_itag t"
  by (auto simp: frame_step_def begin_frame_def wrote_to_def Let_def
      split: prod.splits option.splits if_splits writer.splits)

definition frames_for :: "stream_track \<Rightarrow> frame list \<Rightarrow> frame list" where
  "frames_for t fs = filter (\<lambda>f. f_itag f = tk_itag t) fs"

lemma itags_update: "i < length ts \<Longrightarrow> tk_itag t = tk_itag (ts ! i) \<Longrightarrow> map tk_itag (ts[i := t]) = map tk_itag ts"
  by (metis list_update_id map_update nth_map)

text \<open>The demultiplexer runs each track on its own frames.\<close>

lemma run_frames_tracks:
  assumes "distinct (map tk_itag ts)"
  shows "run_frames wi fs ts = Some ts' \<longleftrightarrow>
    (\<forall>f\<in>set fs. f_kind f \<noteq> frame_complete \<and> f_itag f \<in> tk_itag ` set ts) \<and> length ts' = length ts
    \<and> (\<forall>i<length ts. run_track wi (frames_for (ts ! i) fs) (ts ! i) = Some (ts' ! i))"
  using assms
proof (induction fs arbitrary: ts)
  case Nil
  then show ?case by (auto simp: frames_for_def list_eq_iff_nth_eq)
next
  case (Cons f fs)
  show ?case
  proof (cases "f_kind f \<noteq> frame_complete \<and> f_itag f \<in> tk_itag ` set ts")
    case False
    then have "f_kind f = frame_complete \<or> find_track ts (f_itag f) = None"
      by (simp add: find_track_None)
    then have "run_frames wi (f # fs) ts = None" by auto
    with False show ?thesis by auto
  next
    case True
    then obtain i where i: "find_track ts (f_itag f) = Some i"
      using find_track_None [of ts "f_itag f"] by auto
    note il = find_track_Some [OF i]
    have mine: "frames_for (ts ! j) (f # fs) = (if j = i then f # frames_for (ts ! j) fs else frames_for (ts ! j) fs)"
      if "j < length ts" for j
    proof -
      have "f_itag f = tk_itag (ts ! j) \<longleftrightarrow> j = i"
        using nth_eq_iff_index_eq [OF Cons.prems, of i j] that il by auto
      then show ?thesis by (simp add: frames_for_def)
    qed
    show ?thesis
    proof (cases "frame_step wi f (ts ! i)")
      case None
      then have "run_track wi (frames_for (ts ! i) (f # fs)) (ts ! i) = None" using mine il by simp
      with True i None il show ?thesis by auto
    next
      case (Some t)
      note it = frame_step_itag [OF Some]
      have tags: "map tk_itag (ts[i := t]) = map tk_itag ts" using itags_update [of i ts t] it il by simp
      then have "tk_itag ` set (ts[i := t]) = tk_itag ` set ts" by (metis list.set_map)
      moreover have "frames_for (ts[i := t] ! j) fs = frames_for (ts ! j) fs" if "j < length ts" for j
        using that it by (cases "j = i") (simp_all add: frames_for_def)
      moreover have "run_track wi (frames_for (ts ! j) (f # fs)) (ts ! j)
          = run_track wi (frames_for (ts ! j) fs) (ts[i := t] ! j)" if "j < length ts" for j
        using that mine [OF that] Some by (cases "j = i") simp_all
      ultimately show ?thesis
        using True i Some Cons.IH [of "ts[i := t]"] Cons.prems tags by simp
    qed
  qed
qed

section \<open>The stream as a whole\<close>

definition selected :: "stream_track list \<Rightarrow> bool" where
  "selected ts \<longleftrightarrow> distinct (map tk_itag ts) \<and> (\<forall>t\<in>set ts. fresh_track t)"

text \<open>The format: frames of the selected tracks, each track complete and in order.\<close>

definition stream_format :: "stream_track list \<Rightarrow> frame list \<Rightarrow> bool" where
  "stream_format ts fs \<longleftrightarrow>
     (\<forall>f\<in>set fs. frame_valid f \<and> f_kind f \<noteq> frame_complete \<and> f_itag f \<in> tk_itag ` set ts)
     \<and> (\<forall>t\<in>set ts. track_format (frames_for t fs))"

lemma frames_for_valid: "\<forall>f\<in>set fs. frame_valid f \<Longrightarrow> \<forall>f\<in>set (frames_for t fs). frame_valid f"
  by (simp add: frames_for_def)

lemma run_selected:
  assumes "selected ts" and "\<forall>f\<in>set fs. frame_valid f" and "run_frames wi fs ts = Some ts'"
  shows "finished ts' \<longleftrightarrow> stream_format ts fs"
    and "length ts' = length ts"
    and "i < length ts \<Longrightarrow> open_output (ts' ! i) (payloads wi (frames_for (ts ! i) fs))"
proof -
  from assms have d: "distinct (map tk_itag ts)" and fr: "fresh_track t" if "t \<in> set ts" for t
    using that by (simp_all add: selected_def)
  have run: "(\<forall>f\<in>set fs. f_kind f \<noteq> frame_complete \<and> f_itag f \<in> tk_itag ` set ts)
      \<and> length ts' = length ts
      \<and> (\<forall>i<length ts. run_track wi (frames_for (ts ! i) fs) (ts ! i) = Some (ts' ! i))"
    using assms run_frames_tracks [of ts wi fs ts'] by (simp add: selected_def)
  then show len: "length ts' = length ts" by simp
  have each: "open_output (ts' ! i) (payloads wi (frames_for (ts ! i) fs))
      \<and> (finished [ts' ! i] \<longleftrightarrow> track_format (frames_for (ts ! i) fs))" if "i < length ts" for i
    using run that fr [of "ts ! i"] frames_for_valid [OF assms(2)] by (intro run_fresh) auto
  then show "i < length ts \<Longrightarrow> open_output (ts' ! i) (payloads wi (frames_for (ts ! i) fs))" by simp
  have "finished ts' \<longleftrightarrow> (\<forall>i<length ts. finished [ts' ! i])"
    using len by (auto simp: finished_def all_set_conv_all_nth)
  also have "\<dots> \<longleftrightarrow> (\<forall>t\<in>set ts. track_format (frames_for t fs))"
    using each by (auto simp: all_set_conv_all_nth)
  finally show "finished ts' \<longleftrightarrow> stream_format ts fs"
    using run assms(2) by (auto simp: stream_format_def)
qed

lemma run_of_format:
  assumes "selected ts" and "stream_format ts fs"
  shows "\<exists>ts'. run_frames wi fs ts = Some ts'"
proof -
  have valid: "\<forall>f\<in>set fs. frame_valid f" using assms(2) by (simp add: stream_format_def)
  have "\<exists>t'. run_track wi (frames_for t fs) t = Some t'" if "t \<in> set ts" for t
    using assms that frames_for_valid [OF valid]
    by (intro run_format) (simp_all add: selected_def stream_format_def)
  then obtain g where g: "\<And>t. t \<in> set ts \<Longrightarrow> run_track wi (frames_for t fs) t = Some (g t)" by metis
  have "run_frames wi fs ts = Some (map g ts)"
    using assms g run_frames_tracks [of ts wi fs "map g ts"] by (simp add: selected_def stream_format_def)
  then show ?thesis ..
qed

lemma magic_length: "length download_magic = download_magic_size"
  by (simp add: download_magic_def download_magic_size_def)

lemma consume_stream_magic:
  "consume_download_stream wi r ts =
     (if take download_magic_size (r_data r) = download_magic
      then consume_frames wi (r\<lparr>r_data := drop download_magic_size (r_data r)\<rparr>) ts []
      else (r\<lparr>r_data := drop download_magic_size (r_data r)\<rparr>, ts, [],
            snd (snd (snd (consume_download_stream wi r ts)))))"
  by (auto simp: consume_download_stream_def read_full_def simp flip: magic_length)

lemma complete_reads:
  "read_full (r\<lparr>r_data := encode_complete @ rest\<rparr>) frame_header_size
     = (r\<lparr>r_data := rest\<rparr>, Inr encode_complete)"
  "decode_frame_header encode_complete = Inr \<lparr>fh_kind = frame_complete, fh_itag = 0, fh_sequence = 0, fh_length = 0\<rparr>"
  by (simp_all add: read_full_def frame_header_size_def encode_complete_def decode_encode max_frame_bytes_value)

lemma consume_complete:
  "finished ts \<Longrightarrow> consume_frames wi (r\<lparr>r_data := encode_complete @ rest\<rparr>) ts added
     = (r\<lparr>r_data := rest\<rparr>, ts, added,
        if rest = [] \<and> r_end r = Eof then None
        else Some (Err ''SABR download stream has trailing data''))"
  using validate_complete_None [of ts "\<lparr>fh_kind = frame_complete, fh_itag = 0, fh_sequence = 0, fh_length = 0\<rparr>"]
  by (subst consume_frames.simps) (simp add: complete_reads)

lemma stream_encoded:
  assumes sel: "selected ts" and fmt: "stream_format ts fs"
  shows "\<exists>ts'. consume_download_stream wi \<lparr>r_data = encode_stream fs @ rest, r_end = e\<rparr> ts
      = (\<lparr>r_data = rest, r_end = e\<rparr>, ts', counted wi fs,
         if rest = [] \<and> e = Eof then None else Some (Err ''SABR download stream has trailing data''))
    \<and> length ts' = length ts
    \<and> (\<forall>i<length ts. open_output (ts' ! i) (payloads wi (frames_for (ts ! i) fs)))"
proof -
  let ?r = "\<lparr>r_data = rest, r_end = e\<rparr>"
  have valid: "\<forall>f\<in>set fs. frame_valid f" using fmt by (simp add: stream_format_def)
  from run_of_format [OF assms] obtain ts' where run: "run_frames wi fs ts = Some ts'" by blast
  note res = run_selected [OF sel valid run]
  from consume_run [OF valid, where wi = wi and ts = ts and r = ?r
      and rest = "encode_complete @ rest" and added = "[]"] run
  have "consume_frames wi (?r\<lparr>r_data := concat (map encode_frame fs) @ encode_complete @ rest\<rparr>) ts []
      = consume_frames wi (?r\<lparr>r_data := encode_complete @ rest\<rparr>) ts' (counted wi fs)" by simp
  also have "\<dots> = (?r, ts', counted wi fs,
      if rest = [] \<and> e = Eof then None else Some (Err ''SABR download stream has trailing data''))"
    using consume_complete [where ts = ts' and wi = wi and r = ?r and rest = rest
        and added = "counted wi fs"] res(1) fmt by simp
  finally have "consume_download_stream wi \<lparr>r_data = encode_stream fs @ rest, r_end = e\<rparr> ts = \<dots>"
    by (subst consume_stream_magic) (simp add: encode_stream_def flip: magic_length)
  with res show ?thesis by blast
qed

text \<open>The bytes counted are the bytes in the files.\<close>

lemma sum_one: "distinct (map g xs) \<Longrightarrow> k \<in> g ` set xs \<Longrightarrow> (\<Sum>x\<leftarrow>xs. if g x = k then n else (0::int)) = n"
proof (induction xs)
  case Nil
  then show ?case by simp
next
  case (Cons x xs)
  show ?case
  proof (cases "g x = k")
    case True
    moreover have "g x \<notin> g ` set xs" using Cons.prems by simp
    ultimately have "\<forall>y\<in>set xs. g y \<noteq> k" by (metis imageI)
    then have "(\<Sum>x\<leftarrow>xs. if g x = k then n else (0::int)) = (\<Sum>x\<leftarrow>xs. 0)"
      by (intro arg_cong [where f = sum_list] map_cong) auto
    with True show ?thesis by simp
  next
    case False
    with Cons show ?thesis by auto
  qed
qed

lemma counted_bytes:
  assumes "distinct (map tk_itag ts)" and "\<forall>f\<in>set fs. f_itag f \<in> tk_itag ` set ts"
  shows "sum_list (counted wi fs) = (\<Sum>t\<leftarrow>ts. int (length (payloads wi (frames_for t fs))))"
  using assms(2)
proof (induction fs)
  case Nil
  then show ?case by (simp add: counted_def payloads_def frames_for_def)
next
  case (Cons f fs)
  let ?n = "if discards wi (header_of f) then 0 else int (length (f_payload f))"
  have "int (length (payloads wi (frames_for t (f # fs))))
      = (if tk_itag t = f_itag f then ?n else 0) + int (length (payloads wi (frames_for t fs)))" for t
    by (auto simp: payloads_def frames_for_def)
  then have "(\<Sum>t\<leftarrow>ts. int (length (payloads wi (frames_for t (f # fs)))))
      = (\<Sum>t\<leftarrow>ts. if tk_itag t = f_itag f then ?n else 0) + sum_list (counted wi fs)"
    using Cons by (simp add: sum_list_addf)
  also have "\<dots> = ?n + sum_list (counted wi fs)"
    using sum_one [OF assms(1), of "f_itag f" ?n] Cons.prems by simp
  finally show ?case by (simp add: counted_def)
qed

text \<open>On a disk with little room, what is accepted is what would be accepted with more.\<close>

definition roomy :: "stream_track \<Rightarrow> stream_track" where
  "roomy t = t\<lparr>tk_output := map_option (\<lambda>s. s\<lparr>out_room := None\<rparr>) (tk_output t)\<rparr>"

lemma open_roomy: "open_output (roomy t) d \<longleftrightarrow> (\<exists>s. tk_output t = Some s \<and> out_data s = d)"
proof -
  have "s\<lparr>out_room := None\<rparr> = \<lparr>out_data = d, out_room = None\<rparr> \<longleftrightarrow> out_data s = d" for s :: sink
    by (cases s) simp
  then show ?thesis by (auto simp: open_output_def roomy_def)
qed

lemma roomy_itag [simp]: "tk_itag (roomy t) = tk_itag t" "tk_path (roomy t) = tk_path t"
  by (simp_all add: roomy_def)

lemma begin_roomy: "begin_frame (roomy t) h = (roomy (fst (begin_frame t h)), snd (begin_frame t h))"
  by (simp add: begin_frame_def roomy_def Let_def)

lemma put_roomy:
  assumes "takes (frame_writer wi t h) (length bs)"
  shows "takes (frame_writer wi (roomy t) h) (length bs)"
    and "wrote_to (roomy t) (appended (frame_writer wi (roomy t) h) bs)
      = roomy (wrote_to t (appended (frame_writer wi t h) bs))"
  using assms
  by (auto simp: frame_writer_def takes_def wrote_to_def appended_def roomy_def split: option.splits)

lemma frame_step_roomy: "frame_step wi f t = Some t' \<Longrightarrow> frame_step wi f (roomy t) = Some (roomy t')"
  using put_roomy [of wi "fst (begin_frame t (header_of f))" "header_of f" "f_payload f"]
  by (auto simp: frame_step_def begin_roomy Let_def split: prod.splits option.splits if_splits)

lemma find_track_roomy [simp]: "find_track (map roomy ts) n = find_track ts n"
  by (induction ts) simp_all

lemma run_frames_roomy:
  "run_frames wi fs ts = Some ts' \<Longrightarrow> run_frames wi fs (map roomy ts) = Some (map roomy ts')"
proof (induction fs arbitrary: ts)
  case Nil
  then show ?case by simp
next
  case (Cons f fs)
  then obtain i t where i: "find_track ts (f_itag f) = Some i" and t: "frame_step wi f (ts ! i) = Some t"
    and k: "f_kind f \<noteq> frame_complete" and run: "run_frames wi fs (ts[i := t]) = Some ts'"
    by (auto split: if_splits option.splits)
  from find_track_Some [OF i] have "frame_step wi f (map roomy ts ! i) = Some (roomy t)"
    using frame_step_roomy [OF t] by simp
  with Cons.IH [OF run] i k show ?case by (simp add: map_update)
qed

lemma stream_accepted:
  assumes sel: "selected (map roomy ts)" and ok: "consume_download_stream wi r ts = (r', ts', added, None)"
  shows "\<exists>fs. stream_format ts fs \<and> r_data r = encode_stream fs \<and> r_end r = Eof
    \<and> added = counted wi fs \<and> length ts' = length ts
    \<and> (\<forall>i<length ts. open_output (roomy (ts' ! i)) (payloads wi (frames_for (ts ! i) fs)))"
proof -
  have magic: "take download_magic_size (r_data r) = download_magic"
    using ok by (auto simp: consume_download_stream_def read_full_def split: if_splits)
  with ok have "consume_frames wi (r\<lparr>r_data := drop download_magic_size (r_data r)\<rparr>) ts [] = (r', ts', added, None)"
    by (simp add: consume_stream_magic)
  from consume_frames_sound [OF this] obtain fs where fs: "\<forall>f\<in>set fs. frame_valid f"
    "drop download_magic_size (r_data r) = concat (map encode_frame fs) @ encode_complete"
    "r_end r = Eof" "run_frames wi fs ts = Some ts'" "finished ts'" "added = counted wi fs"
    by auto
  have "r_data r = encode_stream fs"
    using append_take_drop_id [of download_magic_size "r_data r"] magic fs(2)
    by (simp add: encode_stream_def)
  moreover have "finished (map roomy ts')" using fs(5) by (simp add: finished_def roomy_def)
  moreover have "frames_for (roomy t) fs = frames_for t fs" for t by (simp add: frames_for_def)
  ultimately show ?thesis
    using fs run_selected [OF sel fs(1) run_frames_roomy [OF fs(4)]]
    by (intro exI [of _ fs]) (auto simp: stream_format_def image_image)
qed

lemma selected_roomy: "selected ts \<Longrightarrow> selected (map roomy ts)"
  by (auto simp: selected_def fresh_track_def open_output_def roomy_def o_def)

section \<open>Properties\<close>

text \<open>C18: What the download stream consumer accepts is the magic, frames of the selected tracks that
  each begin with the initialization and go on with consecutive media, the completion frame and
  the end; then every part file holds exactly the payloads of its track, in order (without the
  initialization, unless this is the first part), however little room the disk has.\<close>

theorem stream_sound:
  assumes "selected (map roomy ts)" and "consume_download_stream wi r ts = (r', ts', added, None)"
  shows "\<exists>fs. stream_format ts fs \<and> r_data r = encode_stream fs \<and> r_end r = Eof
    \<and> added = counted wi fs \<and> length ts' = length ts
    \<and> (\<forall>i<length ts. open_output (roomy (ts' ! i)) (payloads wi (frames_for (ts ! i) fs)))"
  by (rule stream_accepted [OF assms])

definition sample_track :: "string \<Rightarrow> int \<Rightarrow> stream_track" where
  "sample_track kind itag = \<lparr>tk_kind = kind, tk_itag = itag, tk_path = kind,
     tk_output = Some \<lparr>out_data = [], out_room = None\<rparr>, tk_next = 0, tk_initialized = False,
     tk_media_written = False\<rparr>"

definition sample_tracks :: "stream_track list" where
  "sample_tracks = [sample_track ''audio'' 140, sample_track ''video'' 137]"

definition sample_frames :: "frame list" where
  "sample_frames =
     [\<lparr>f_kind = 1, f_itag = 140, f_seq = 0, f_payload = [10]\<rparr>,
      \<lparr>f_kind = 1, f_itag = 137, f_seq = 0, f_payload = [20, 21]\<rparr>,
      \<lparr>f_kind = 2, f_itag = 137, f_seq = 7, f_payload = [22]\<rparr>,
      \<lparr>f_kind = 2, f_itag = 140, f_seq = 4, f_payload = [11, 12]\<rparr>,
      \<lparr>f_kind = 2, f_itag = 137, f_seq = 8, f_payload = [23]\<rparr>]"

lemma sample_selected: "selected sample_tracks"
  by (simp add: selected_def sample_tracks_def sample_track_def fresh_track_def open_output_def)

lemma less_Suc_nat: "(\<forall>k<Suc n. P k) \<longleftrightarrow> (\<forall>k<n. P k) \<and> P n"
  by (auto simp: less_Suc_eq)

lemma sample_format: "stream_format sample_tracks sample_frames"
proof -
  have a: "frames_for (sample_track ''audio'' 140) sample_frames = [sample_frames ! 0, sample_frames ! 3]"
    and v: "frames_for (sample_track ''video'' 137) sample_frames
      = [sample_frames ! 1, sample_frames ! 2, sample_frames ! 4]"
    by (simp_all add: frames_for_def sample_track_def sample_frames_def)
  have "track_format [sample_frames ! 0, sample_frames ! 3]"
    unfolding track_format_def
    by (intro exI [of _ "sample_frames ! 0"] exI [of _ "[sample_frames ! 3]"] exI [of _ 4])
       (simp add: sample_frames_def frame_kinds)
  moreover have "track_format [sample_frames ! 1, sample_frames ! 2, sample_frames ! 4]"
    unfolding track_format_def
    by (intro exI [of _ "sample_frames ! 1"] exI [of _ "[sample_frames ! 2, sample_frames ! 4]"] exI [of _ 7])
       (simp add: sample_frames_def frame_kinds less_Suc_nat)
  ultimately show ?thesis
    using a v unfolding stream_format_def sample_tracks_def
    by (simp add: sample_frames_def frame_valid_def frame_kinds max_frame_bytes_value sample_track_def)
qed

lemma stream_sound_witness:
  "\<exists>ts' added fs. consume_download_stream True \<lparr>r_data = encode_stream sample_frames, r_end = Eof\<rparr> sample_tracks
      = (\<lparr>r_data = [], r_end = Eof\<rparr>, ts', added, None)
    \<and> encode_stream sample_frames = encode_stream fs
    \<and> open_output (roomy (ts' ! 1)) (payloads True (frames_for (sample_tracks ! 1) fs))"
proof -
  from stream_encoded [OF sample_selected sample_format, where wi = True and rest = "[]" and e = Eof]
  obtain ts' where run: "consume_download_stream True \<lparr>r_data = encode_stream sample_frames, r_end = Eof\<rparr> sample_tracks
      = (\<lparr>r_data = [], r_end = Eof\<rparr>, ts', counted True sample_frames, None)" by auto
  from stream_sound [OF selected_roomy [OF sample_selected] run] run show ?thesis
    by (fastforce simp: sample_tracks_def)
qed

text \<open>Every stream in the format is accepted, in whatever order the tracks' frames are interleaved:
  the consumer reads it to its end, writes the tracks' payloads, and the bytes it reports as
  progress are exactly the bytes in the part files.\<close>

theorem stream_round_trip:
  assumes "selected ts" and "stream_format ts fs"
  shows "\<exists>ts' added. consume_download_stream wi \<lparr>r_data = encode_stream fs, r_end = Eof\<rparr> ts
      = (\<lparr>r_data = [], r_end = Eof\<rparr>, ts', added, None)
    \<and> length ts' = length ts
    \<and> (\<forall>i<length ts. open_output (ts' ! i) (payloads wi (frames_for (ts ! i) fs)))
    \<and> sum_list added = (\<Sum>t\<leftarrow>ts. int (length (payloads wi (frames_for t fs))))"
proof -
  have "sum_list (counted wi fs) = (\<Sum>t\<leftarrow>ts. int (length (payloads wi (frames_for t fs))))"
    using assms by (intro counted_bytes) (simp_all add: selected_def stream_format_def)
  with stream_encoded [OF assms, where wi = wi and rest = "[]" and e = Eof] show ?thesis by auto
qed

lemma stream_round_trip_witness:
  "\<exists>ts' added. consume_download_stream False \<lparr>r_data = encode_stream sample_frames, r_end = Eof\<rparr> sample_tracks
      = (\<lparr>r_data = [], r_end = Eof\<rparr>, ts', added, None)
    \<and> open_output (ts' ! 1) [22, 23] \<and> sum_list added = 4"
proof -
  have p: "payloads False (frames_for (sample_tracks ! 1) sample_frames) = [22, 23]"
    "payloads False (frames_for (sample_tracks ! 0) sample_frames) = [11, 12]"
    by (simp_all add: payloads_def frames_for_def sample_tracks_def sample_track_def sample_frames_def
        discards_def header_of_def frame_kinds)
  then have s: "(\<Sum>t\<leftarrow>sample_tracks. int (length (payloads False (frames_for t sample_frames)))) = 4"
    by (simp add: sample_tracks_def)
  have l: "1 < length sample_tracks" by (simp add: sample_tracks_def)
  from stream_round_trip [OF sample_selected sample_format, of False] s p l show ?thesis by metis
qed

text \<open>A stream that breaks off anywhere, even between two frames, or that goes on after the
  completion frame, is never taken for a complete one, however the connection ended.\<close>

theorem stream_truncation:
  assumes "selected ts" and "stream_format ts fs"
    and "p @ q = encode_stream fs \<and> q \<noteq> [] \<or> p = encode_stream fs @ q \<and> q \<noteq> []"
  shows "\<exists>r' ts' added e. consume_download_stream wi \<lparr>r_data = p, r_end = en\<rparr> ts = (r', ts', added, Some e)"
proof (rule ccontr)
  assume none: "\<not> ?thesis"
  obtain r' ts' added o' where run: "consume_download_stream wi \<lparr>r_data = p, r_end = en\<rparr> ts = (r', ts', added, o')"
    using prod_cases4 by blast
  with none have "o' = None" by (cases o') auto
  with run stream_accepted [OF selected_roomy [OF assms(1)], of wi "\<lparr>r_data = p, r_end = en\<rparr>"]
  obtain gs where gs: "stream_format ts gs" "p = encode_stream gs" by force
  show False
    using assms(3)
  proof
    assume pq: "p @ q = encode_stream fs \<and> q \<noteq> []"
    then show False
      using stream_encoded [OF assms(1) gs(1), where wi = wi and rest = q and e = Eof]
        stream_encoded [OF assms(1,2), where wi = wi and rest = "[]" and e = Eof] gs(2) by force
  next
    assume "p = encode_stream fs @ q \<and> q \<noteq> []"
    then show False
      using stream_encoded [OF assms(1,2), where wi = wi and rest = q and e = en] run \<open>o' = None\<close> by force
  qed
qed

lemma stream_truncation_witness:
  "\<exists>r' ts' added e. consume_download_stream True
      \<lparr>r_data = download_magic @ concat (map encode_frame sample_frames), r_end = Eof\<rparr> sample_tracks
    = (r', ts', added, Some e)"
  by (rule stream_truncation [OF sample_selected sample_format, where q = encode_complete])
     (simp add: encode_stream_def encode_complete_def encode_header_def)

end
