(* ===== verification/Sabr_Download.thy ===== *)
theory Sabr_Download
  imports Sabr_Stream_Spec Go_Http
begin

text \<open>
  Package \<open>internal/sabr\<close>, the files around the stream: a download in up to twelve parts
  (\<open>download.go\<close>), three at a time (\<open>multipart.go\<close>), each part in its own files that are
  concatenated at the end (\<open>part_files.go\<close>), with progress that is rolled back when a part is
  retried (\<open>progress.go\<close>), under a watchdog (\<open>idle_timeout.go\<close>).
\<close>

section \<open>Options and plans\<close>

record sabr_options =
  sb_manifest_url :: string
  sb_authorization :: string
  sb_video_itag :: int
  sb_audio_itag :: int
  sb_audio_track_id :: string
  sb_audio_only :: bool
  sb_video_path :: string
  sb_audio_path :: string
  sb_expected_bytes :: int
  sb_parts :: int
  sb_idle_timeout :: int

definition max_download_parts :: int where "max_download_parts = 12"
definition max_concurrent_part_downloads :: int where "max_concurrent_part_downloads = 3"
definition part_attempts :: int where "part_attempts = 3"

definition download_part_count :: "sabr_options \<Rightarrow> int" where
  "download_part_count opts =
     (if sb_parts opts > 0
      then if sb_parts opts > max_download_parts then max_download_parts else sb_parts opts
      else if sb_audio_only opts
      then if sb_expected_bytes opts \<ge> push_bit 20 16 then 4
           else if sb_expected_bytes opts \<ge> push_bit 20 4 then 2 else 1
      else if sb_expected_bytes opts \<ge> push_bit 20 256 then 12
      else if sb_expected_bytes opts \<ge> push_bit 20 128 then 6
      else if sb_expected_bytes opts \<ge> push_bit 20 16 then 4
      else if sb_expected_bytes opts \<ge> push_bit 20 4 then 2 else 1)"

definition track_spec :: "string \<Rightarrow> int \<Rightarrow> string \<Rightarrow> stream_track" where
  "track_spec kind itag path = \<lparr>tk_kind = kind, tk_itag = itag, tk_path = path, tk_output = None,
     tk_next = 0, tk_initialized = False, tk_media_written = False\<rparr>"

definition track_specs :: "sabr_options \<Rightarrow> stream_track list" where
  "track_specs opts =
     track_spec ''audio'' (sb_audio_itag opts) (sb_audio_path opts) #
     (if sb_audio_only opts then []
      else [track_spec ''video'' (sb_video_itag opts) (sb_video_path opts)])"

text \<open>\<open>fmt.Sprintf("%02d", part)\<close> of a part number.\<close>

definition pad2 :: "int \<Rightarrow> string" where
  "pad2 n = (if 0 \<le> n \<and> n < 10 then CHR ''0'' # itoa n else itoa n)"

definition part_path :: "string \<Rightarrow> int \<Rightarrow> string" where
  "part_path target part = target @ ''.download.part-'' @ pad2 part"

definition download_path :: "string \<Rightarrow> string" where
  "download_path path = path @ ''.download''"

section \<open>Requests\<close>

definition download_query :: "sabr_options \<Rightarrow> int \<Rightarrow> int \<Rightarrow> (string \<Rightarrow> string list option) \<Rightarrow> string \<Rightarrow> string list option" where
  "download_query opts part parts q0 =
     (let q1 = query_set ''audioItag'' (itoa (sb_audio_itag opts)) q0;
          q2 = (if sb_video_itag opts > 0 then query_set ''videoItag'' (itoa (sb_video_itag opts)) q1 else q1);
          q3 = (if sb_audio_track_id opts \<noteq> [] then query_set ''audioTrackId'' (sb_audio_track_id opts) q2 else q2);
          q4 = (if sb_audio_only opts then query_set ''audioOnly'' ''true'' q3 else q3)
      in query_set ''parts'' (itoa parts) (query_set ''part'' (itoa part) q4))"

definition build_download_url :: "'u url_lib \<Rightarrow> sabr_options \<Rightarrow> int \<Rightarrow> int \<Rightarrow> string result" where
  "build_download_url lib opts part parts =
     (case url_parse lib (sb_manifest_url opts) of
        Inl e \<Rightarrow> Inl e
      | Inr u \<Rightarrow>
          (let q = download_query opts part parts (url_query lib u);
               u1 = url_set_path lib u
                      (replace_first (url_path lib u) ''/sabr/manifest/'' ''/sabr/download/'')
           in Inr (url_string lib (url_set_query lib u1 q))))"

definition request_download ::
    "'u url_lib \<Rightarrow> (request \<Rightarrow> http_response result) \<Rightarrow> string \<Rightarrow> string \<Rightarrow> http_response result" where
  "request_download lib client raw_url authorization =
     (case new_request lib raw_url of
        Inl e \<Rightarrow> Inl e
      | Inr req0 \<Rightarrow>
          (let value = trim_space authorization;
               req = (if value \<noteq> [] then set_header ''Authorization'' value req0 else req0)
           in case client req of
                Inl e \<Rightarrow> Inl e
              | Inr resp \<Rightarrow>
                  if rs_status resp \<noteq> 200
                  then Inl (Err (''GET '' @ request_path lib req @ '' returned '' @ rs_status_line resp))
                  else
                    (let media_type = trim_space (hd (split_at (CHR '';'')
                                        (header_get (rs_headers resp) ''Content-Type'')))
                     in if media_type \<noteq> download_media_type
                        then Inl (Err (''GET '' @ request_path lib req
                                       @ '' returned unexpected content type '' @ media_type))
                        else Inr resp)))"

section \<open>Part files\<close>

definition close_error :: "faults \<Rightarrow> stream_track \<Rightarrow> error option" where
  "close_error fl t =
     (case tk_output t of
        None \<Rightarrow> None
      | Some _ \<Rightarrow>
          (case f_close fl (tk_path t) of
             None \<Rightarrow> None
           | Some e \<Rightarrow> Some (Wrap (''close SABR '' @ tk_kind t @ '' part: '') e [])))"

fun close_tracks :: "faults \<Rightarrow> stream_track list \<Rightarrow> error option" where
  "close_tracks fl [] = None"
| "close_tracks fl (t # ts) =
     (case close_error fl t of Some e \<Rightarrow> Some e | None \<Rightarrow> close_tracks fl ts)"

text \<open>The loop of \<open>openPartTracks\<close>; \<open>room\<close> is the space the disk has left for each file.\<close>

fun open_specs :: "faults \<Rightarrow> (string \<Rightarrow> nat option) \<Rightarrow> int \<Rightarrow> stream_track list \<Rightarrow> disk
    \<Rightarrow> disk \<times> stream_track list result" where
  "open_specs fl room part [] d = (d, Inr [])"
| "open_specs fl room part (spec # specs) d =
     (if tk_itag spec \<le> 0 \<or> trim_space (tk_path spec) = []
      then (d, Inl (Err (''missing SABR '' @ tk_kind spec @ '' selection or target path'')))
      else
        (let path = part_path (tk_path spec) part
         in case os_create fl path d of
              (d1, Some e) \<Rightarrow> (d1, Inl (Wrap (''create SABR '' @ tk_kind spec @ '' part: '') e []))
            | (d1, None) \<Rightarrow>
                (case open_specs fl room part specs d1 of
                   (d2, Inl e) \<Rightarrow> (d2, Inl e)
                 | (d2, Inr tracks) \<Rightarrow>
                     (d2, Inr (spec\<lparr>tk_path := path,
                                    tk_output := Some \<lparr>out_data = [], out_room = room path\<rparr>\<rparr>
                               # tracks)))))"

definition open_part_tracks :: "faults \<Rightarrow> (string \<Rightarrow> nat option) \<Rightarrow> sabr_options \<Rightarrow> int \<Rightarrow> disk
    \<Rightarrow> disk \<times> stream_track list result" where
  "open_part_tracks fl room opts part d = open_specs fl room part (track_specs opts) d"

text \<open>The parts of a track, appended in order to its \<open>.download\<close> file.\<close>

fun append_parts :: "faults \<Rightarrow> stream_track \<Rightarrow> int list \<Rightarrow> disk \<Rightarrow> disk \<times> error option" where
  "append_parts fl track [] d = (d, None)"
| "append_parts fl track (part # parts) d =
     (case os_open fl (part_path (tk_path track) part) d of
        Inl e \<Rightarrow> (d, Some (Wrap (''open SABR '' @ tk_kind track @ '' part: '') e []))
      | Inr input \<Rightarrow>
          (case io_copy fl (part_path (tk_path track) part) input (download_path (tk_path track)) d of
             (d1, Some e) \<Rightarrow> (d1, Some (Wrap (''assemble SABR '' @ tk_kind track @ '' track: '') e []))
           | (d1, None) \<Rightarrow>
               (case f_close fl (part_path (tk_path track) part) of
                  Some e \<Rightarrow> (d1, Some (Wrap (''close SABR '' @ tk_kind track @ '' part: '') e []))
                | None \<Rightarrow> append_parts fl track parts d1)))"

definition assemble_track :: "faults \<Rightarrow> stream_track \<Rightarrow> int \<Rightarrow> disk \<Rightarrow> disk \<times> error option" where
  "assemble_track fl track parts d =
     (case os_create fl (download_path (tk_path track)) d of
        (d1, Some e) \<Rightarrow> (d1, Some (Wrap (''create SABR '' @ tk_kind track @ '' track: '') e []))
      | (d1, None) \<Rightarrow>
          (case append_parts fl track [0..parts - 1] d1 of
             (d2, Some e) \<Rightarrow> (fst (os_remove fl (download_path (tk_path track)) d2), Some e)
           | (d2, None) \<Rightarrow>
               (case f_close fl (download_path (tk_path track)) of
                  Some e \<Rightarrow> (fst (os_remove fl (download_path (tk_path track)) d2),
                             Some (Wrap (''close SABR '' @ tk_kind track @ '' track: '') e []))
                | None \<Rightarrow> (d2, None))))"

fun assemble_all :: "faults \<Rightarrow> stream_track list \<Rightarrow> int \<Rightarrow> disk \<Rightarrow> disk \<times> error option" where
  "assemble_all fl [] parts d = (d, None)"
| "assemble_all fl (t # ts) parts d =
     (case assemble_track fl t parts d of
        (d1, Some e) \<Rightarrow> (d1, Some e)
      | (d1, None) \<Rightarrow> assemble_all fl ts parts d1)"

fun commit_all :: "faults \<Rightarrow> stream_track list \<Rightarrow> disk \<Rightarrow> disk \<times> error option" where
  "commit_all fl [] d = (d, None)"
| "commit_all fl (t # ts) d =
     (case os_rename fl (download_path (tk_path t)) (tk_path t) d of
        (d1, Some e) \<Rightarrow> (d1, Some (Wrap (''commit SABR '' @ tk_kind t @ '' track: '') e []))
      | (d1, None) \<Rightarrow> commit_all fl ts d1)"

definition assemble_download :: "faults \<Rightarrow> sabr_options \<Rightarrow> int \<Rightarrow> disk \<Rightarrow> disk \<times> error option" where
  "assemble_download fl opts parts d =
     (case assemble_all fl (track_specs opts) parts d of
        (d1, Some e) \<Rightarrow> (d1, Some e)
      | (d1, None) \<Rightarrow> commit_all fl (track_specs opts) d1)"

definition remove_paths :: "faults \<Rightarrow> string list \<Rightarrow> disk \<Rightarrow> disk" where
  "remove_paths fl ps d = foldl (\<lambda>d p. fst (os_remove fl p d)) d ps"

definition cleanup_download_files :: "faults \<Rightarrow> sabr_options \<Rightarrow> int \<Rightarrow> disk \<Rightarrow> disk" where
  "cleanup_download_files fl opts parts d =
     remove_paths fl
       (concat (map (\<lambda>t. download_path (tk_path t) # map (part_path (tk_path t)) [0..parts - 1])
                    (track_specs opts))) d"

section \<open>One part\<close>

text \<open>What a try of a part meets: the server, the disk, and \<open>context.Cause\<close> of the part's context when
  the request or the stream failed (an idle timeout or a cancellation).\<close>

record part_env =
  pe_client :: "request \<Rightarrow> http_response result"
  pe_faults :: faults
  pe_room :: "string \<Rightarrow> nat option"
  pe_cause :: "error option"

definition flush_tracks :: "stream_track list \<Rightarrow> disk \<Rightarrow> disk" where
  "flush_tracks ts d =
     foldl (\<lambda>d t. case tk_output t of None \<Rightarrow> d | Some s \<Rightarrow> d(tk_path t \<mapsto> out_data s)) d ts"

definition part_error :: "string \<Rightarrow> int \<Rightarrow> int \<Rightarrow> error \<Rightarrow> part_env \<Rightarrow> error" where
  "part_error verb part parts e env =
     Wrap (verb @ '' SABR part '' @ itoa (part + 1) @ ''/'' @ itoa parts @ '': '')
          (case pe_cause env of None \<Rightarrow> e | Some c \<Rightarrow> c) []"

text \<open>The result is the disk, the bytes added to the progress, and the error.\<close>

definition download_part ::
    "'u url_lib \<Rightarrow> part_env \<Rightarrow> sabr_options \<Rightarrow> int \<Rightarrow> int \<Rightarrow> disk \<Rightarrow> disk \<times> int list \<times> error option" where
  "download_part lib env opts part parts d =
     (case build_download_url lib opts part parts of
        Inl e \<Rightarrow> (d, [], Some e)
      | Inr raw_url \<Rightarrow>
          (case request_download lib (pe_client env) raw_url (sb_authorization opts) of
             Inl e \<Rightarrow> (d, [], Some (part_error ''download'' part parts e env))
           | Inr resp \<Rightarrow>
               (case open_part_tracks (pe_faults env) (pe_room env) opts part d of
                  (d1, Inl e) \<Rightarrow> (d1, [], Some e)
                | (d1, Inr tracks) \<Rightarrow>
                    (case consume_download_stream (part = 0) (rs_body resp) tracks of
                       (r', tracks', added, Some e) \<Rightarrow>
                         (flush_tracks tracks' d1, added, Some (part_error ''consume'' part parts e env))
                     | (r', tracks', added, None) \<Rightarrow>
                         (flush_tracks tracks' d1, added, close_tracks (pe_faults env) tracks')))))"

text \<open>The tries of a part; \<open>rollback\<close> takes back what a failed one counted. \<open>te_ctx\<close> is \<open>ctx.Err()\<close> after
  the try, \<open>te_delay\<close> the result of \<open>retryDelay\<close>.\<close>

record try_env =
  te_part :: part_env
  te_ctx :: "error option"
  te_delay :: "error option"

definition part_bytes :: "int list \<Rightarrow> int" where
  "part_bytes added = foldl (\<lambda>s v. wrap64 (s + v)) 0 added"

definition rolled_back :: "int list \<Rightarrow> int list" where
  "rolled_back added = added @ [wrap64 (- part_bytes added)]"

fun part_tries ::
    "(int \<Rightarrow> disk \<Rightarrow> disk \<times> int list \<times> error option) \<Rightarrow> (int \<Rightarrow> try_env) \<Rightarrow> int list \<Rightarrow> error option \<Rightarrow> disk
      \<Rightarrow> disk \<times> int list \<times> error option" where
  "part_tries try envs [] err d = (d, [], err)"
| "part_tries try envs (attempt # attempts) err d =
     (case try attempt d of
        (d1, added, None) \<Rightarrow> (d1, added, None)
      | (d1, added, Some e) \<Rightarrow>
          if te_ctx (envs attempt) \<noteq> None \<or> attempt = part_attempts
          then (d1, rolled_back added, Some e)
          else case te_delay (envs attempt) of
                 Some w \<Rightarrow> (d1, rolled_back added, Some w)
               | None \<Rightarrow>
                   (case part_tries try envs attempts (Some e) d1 of
                      (d2, later, r) \<Rightarrow> (d2, rolled_back added @ later, r)))"

definition download_part_with_retry ::
    "'u url_lib \<Rightarrow> (int \<Rightarrow> try_env) \<Rightarrow> sabr_options \<Rightarrow> int \<Rightarrow> int \<Rightarrow> disk \<Rightarrow> disk \<times> int list \<times> error option"
    where
  "download_part_with_retry lib envs opts part parts d =
     part_tries (\<lambda>attempt. download_part lib (te_part (envs attempt)) opts part parts) envs
       [1..part_attempts] None d"

section \<open>The workers\<close>

text \<open>The parts wait in a closed channel. A worker takes the next one unless the context is done, or
  leaves; a part that fails is put among the failures, cancels the context and ends its worker. A
  schedule is the order in which the workers act; \<open>Parent_done\<close> is a cancellation from outside.\<close>

datatype worker = Idle | Busy int | Gone

datatype pool_action = Act nat | Parent_done error

record pool =
  pl_queue :: "int list"
  pl_workers :: "worker list"
  pl_failures :: "error list"
  pl_ctx :: "error option"
  pl_disk :: disk
  pl_added :: "int list"

definition cancel_ctx :: "error \<Rightarrow> error option \<Rightarrow> error option" where
  "cancel_ctx e ctx = (case ctx of None \<Rightarrow> Some e | Some _ \<Rightarrow> ctx)"

definition worker_take :: "nat \<Rightarrow> pool \<Rightarrow> pool" where
  "worker_take i p =
     (case pl_queue p of
        [] \<Rightarrow> p\<lparr>pl_workers := (pl_workers p)[i := Gone]\<rparr>
      | part # rest \<Rightarrow>
          p\<lparr>pl_queue := rest,
            pl_workers := (pl_workers p)[i := if pl_ctx p \<noteq> None then Gone else Busy part]\<rparr>)"

definition worker_finish ::
    "(int \<Rightarrow> error option \<Rightarrow> disk \<Rightarrow> disk \<times> int list \<times> error option) \<Rightarrow> int \<Rightarrow> nat \<Rightarrow> int \<Rightarrow> pool \<Rightarrow> pool" where
  "worker_finish run parts i part p =
     (case run part (pl_ctx p) (pl_disk p) of
        (d, added, None) \<Rightarrow>
          p\<lparr>pl_disk := d, pl_added := pl_added p @ added, pl_workers := (pl_workers p)[i := Idle]\<rparr>
      | (d, added, Some e) \<Rightarrow>
          p\<lparr>pl_disk := d, pl_added := pl_added p @ added, pl_workers := (pl_workers p)[i := Gone],
            pl_failures := (if length (pl_failures p) < nat parts then pl_failures p @ [e]
                            else pl_failures p),
            pl_ctx := cancel_ctx Canceled (pl_ctx p)\<rparr>)"

definition pool_act ::
    "(int \<Rightarrow> error option \<Rightarrow> disk \<Rightarrow> disk \<times> int list \<times> error option) \<Rightarrow> int \<Rightarrow> pool_action \<Rightarrow> pool \<Rightarrow> pool" where
  "pool_act run parts a p =
     (case a of
        Parent_done e \<Rightarrow> p\<lparr>pl_ctx := cancel_ctx e (pl_ctx p)\<rparr>
      | Act i \<Rightarrow>
          if i < length (pl_workers p)
          then case pl_workers p ! i of
                 Idle \<Rightarrow> worker_take i p
               | Busy part \<Rightarrow> worker_finish run parts i part p
               | Gone \<Rightarrow> p
          else p)"

definition new_pool :: "int \<Rightarrow> disk \<Rightarrow> pool" where
  "new_pool parts d =
     \<lparr>pl_queue = [0..parts - 1],
      pl_workers = replicate (nat (min parts max_concurrent_part_downloads)) Idle,
      pl_failures = [], pl_ctx = None, pl_disk = d, pl_added = []\<rparr>"

definition pool_error :: "pool \<Rightarrow> error option" where
  "pool_error p =
     (case find (\<lambda>e. \<not> errors_is e Canceled) (pl_failures p) of Some e \<Rightarrow> Some e | None \<Rightarrow> pl_ctx p)"

text \<open>\<open>None\<close>: after this schedule workers are still running.\<close>

definition download_parts ::
    "(int \<Rightarrow> error option \<Rightarrow> disk \<Rightarrow> disk \<times> int list \<times> error option) \<Rightarrow> pool_action list \<Rightarrow> int \<Rightarrow> disk
      \<Rightarrow> (disk \<times> int list \<times> error option) option" where
  "download_parts run schedule parts d =
     (let p = foldl (\<lambda>p a. pool_act run parts a p) (new_pool parts d) schedule
      in if \<forall>w\<in>set (pl_workers p). w = Gone
         then Some (pl_disk p, pl_added p, pool_error p) else None)"

section \<open>The download\<close>

text \<open>The progress calls of a download, in the order they reach the reporter.\<close>

datatype report = Begin_attempt | Add int | Finish

record attempt_env =
  ae_try :: "int \<Rightarrow> error option \<Rightarrow> int \<Rightarrow> try_env"
  ae_schedule :: "pool_action list"
  ae_faults :: faults
  ae_ctx :: "error option"
  ae_delay :: "error option"

definition download_attempt ::
    "'u url_lib \<Rightarrow> attempt_env \<Rightarrow> sabr_options \<Rightarrow> int \<Rightarrow> disk \<Rightarrow> (disk \<times> int list \<times> error option) option" where
  "download_attempt lib env opts parts d =
     (case download_parts (\<lambda>part ctx. download_part_with_retry lib (ae_try env part ctx) opts part parts)
             (ae_schedule env) parts d of
        None \<Rightarrow> None
      | Some (d1, added, Some e) \<Rightarrow>
          Some (cleanup_download_files (ae_faults env) opts parts d1, added, Some e)
      | Some (d1, added, None) \<Rightarrow>
          (case assemble_download (ae_faults env) opts parts d1 of
             (d2, r) \<Rightarrow> Some (cleanup_download_files (ae_faults env) opts parts d2, added, r)))"

definition download_plans :: "sabr_options \<Rightarrow> int list" where
  "download_plans opts =
     (if download_part_count opts > 1 then [download_part_count opts, 1] else [download_part_count opts])"

fun download_loop ::
    "'u url_lib \<Rightarrow> (int \<Rightarrow> attempt_env) \<Rightarrow> sabr_options \<Rightarrow> int \<Rightarrow> int \<Rightarrow> int list \<Rightarrow> error \<Rightarrow> disk
      \<Rightarrow> (disk \<times> report list \<times> error option) option" where
  "download_loop lib envs opts plan_count attempt [] lst d =
     Some (d, [], Some (Wrap (''SABR download failed after '' @ itoa plan_count @ '' attempts: '') lst []))"
| "download_loop lib envs opts plan_count attempt (parts # plans) lst d =
     (case download_attempt lib (envs attempt) opts parts d of
        None \<Rightarrow> None
      | Some (d1, added, None) \<Rightarrow> Some (d1, Begin_attempt # map Add added @ [Finish], None)
      | Some (d1, added, Some e) \<Rightarrow>
          (case ae_ctx (envs attempt) of
             Some c \<Rightarrow> Some (d1, Begin_attempt # map Add added, Some c)
           | None \<Rightarrow>
               if attempt + 1 < plan_count \<and> ae_delay (envs attempt) \<noteq> None
               then Some (d1, Begin_attempt # map Add added, ae_delay (envs attempt))
               else map_option (\<lambda>(d2, reports, r). (d2, Begin_attempt # map Add added @ reports, r))
                      (download_loop lib envs opts plan_count (attempt + 1) plans e d1)))"

definition download ::
    "'u url_lib \<Rightarrow> (int \<Rightarrow> attempt_env) \<Rightarrow> sabr_options \<Rightarrow> disk \<Rightarrow> (disk \<times> report list \<times> error option) option"
    where
  "download lib envs opts d =
     download_loop lib envs opts (int (length (download_plans opts))) 0 (download_plans opts)
       (Err []) d"

section \<open>Progress\<close>

text \<open>\<open>reporter\<close>: \<open>rp_calls\<close> are the arguments of the calls of the progress function. The counter is
  atomic; the report is made under the mutex, later, with the value the counter had.\<close>

record reporter =
  rp_downloaded :: int
  rp_progress :: bool
  rp_reported :: int
  rp_last :: time
  rp_calls :: "int list"

definition new_reporter :: "bool \<Rightarrow> time \<Rightarrow> reporter" where
  "new_reporter progress now =
     \<lparr>rp_downloaded = 0, rp_progress = progress, rp_reported = 0, rp_last = now, rp_calls = []\<rparr>"

definition begin_attempt :: "time \<Rightarrow> reporter \<Rightarrow> reporter" where
  "begin_attempt now r = r\<lparr>rp_downloaded := 0, rp_last := now\<rparr>"

definition reporter_count :: "int \<Rightarrow> reporter \<Rightarrow> reporter" where
  "reporter_count bytes r = r\<lparr>rp_downloaded := add64 (rp_downloaded r) bytes\<rparr>"

definition reporter_report :: "int \<Rightarrow> time \<Rightarrow> reporter \<Rightarrow> reporter" where
  "reporter_report downloaded now r =
     (if \<not> rp_progress r \<or> downloaded \<le> rp_reported r \<or> sub_time now (rp_last r) < 250 * 1000000 then r
      else r\<lparr>rp_reported := downloaded, rp_last := now, rp_calls := rp_calls r @ [downloaded]\<rparr>)"

definition reporter_add :: "int \<Rightarrow> time \<Rightarrow> reporter \<Rightarrow> reporter" where
  "reporter_add bytes now r =
     (let r1 = reporter_count bytes r in reporter_report (rp_downloaded r1) now r1)"

definition reporter_finish :: "reporter \<Rightarrow> reporter" where
  "reporter_finish r =
     (if \<not> rp_progress r \<or> rp_downloaded r \<le> rp_reported r then r
      else r\<lparr>rp_reported := rp_downloaded r, rp_calls := rp_calls r @ [rp_downloaded r]\<rparr>)"

definition apply_report :: "report \<Rightarrow> time \<Rightarrow> reporter \<Rightarrow> reporter" where
  "apply_report e now r =
     (case e of Begin_attempt \<Rightarrow> begin_attempt now r | Add n \<Rightarrow> reporter_add n now r
      | Finish \<Rightarrow> reporter_finish r)"

section \<open>The watchdog\<close>

text \<open>One firing of the timer at \<open>now\<close>, with the last activity: the error the part is cancelled with, or
  the time to wait on.\<close>

definition default_download_idle_timeout :: int where
  "default_download_idle_timeout = 60 * 1000000000"

definition idle_timeout :: "int \<Rightarrow> int" where
  "idle_timeout timeout = (if timeout \<le> 0 then default_download_idle_timeout else timeout)"

definition watchdog_fire :: "(int \<Rightarrow> string) \<Rightarrow> int \<Rightarrow> time \<Rightarrow> time \<Rightarrow> error + int" where
  "watchdog_fire show_duration timeout now touched =
     (let inactive = sub_time now touched
      in if inactive \<ge> timeout
         then Inl (Wrap [] (Err ''SABR download stream timed out'') ('' after '' @ show_duration timeout))
         else Inr (timeout - inactive))"

end
