(* ===== verification/Sabr_Download_Spec.thy ===== *)
theory Sabr_Download_Spec
  imports Sabr_Download Fair_Rounds
begin

text \<open>
  What a successful SABR download leaves on the disk, from the single part through the pool of
  workers to the assembled tracks; how many parts there are; and what the progress shows.
\<close>

section \<open>File names\<close>

lemma digits_value_zero: "digits_value (CHR ''0'' # s) = digits_value s"
  by (simp add: digits_value_def)

lemma pad2_inj: "pad2 p = pad2 q \<Longrightarrow> p = q"
proof -
  have nz: "digits n \<noteq> CHR ''-'' # t" for n t
    by (metis digits_hd is_digit_not_sign list.inject)
  have val: "(if p < 0 then p else int (digits_value (pad2 p))) = p" for p
    by (auto simp: pad2_def itoa_def digits_value_zero digits_value_digits)
  assume eq: "pad2 p = pad2 q"
  have neg: "p < 0 \<longleftrightarrow> hd (pad2 p) = CHR ''-''" for p
    using digits_hd [of "nat p"] by (auto simp: pad2_def itoa_def dest: is_digit_not_sign)
  show "p = q"
  proof (cases "p < 0")
    case True
    with eq neg [of p] neg [of q] have "q < 0" by simp
    with True eq show ?thesis by (simp add: pad2_def itoa_inj)
  next
    case False
    with eq neg [of p] neg [of q] have "\<not> q < 0" by simp
    with False eq val [of p] val [of q] show ?thesis by simp
  qed
qed

text \<open>Two paths neither of which begins with the other's working files.\<close>

definition apart :: "string \<Rightarrow> string \<Rightarrow> bool" where
  "apart a b \<longleftrightarrow> a \<noteq> b \<and> \<not> has_prefix a (download_path b) \<and> \<not> has_prefix b (download_path a)"

lemma apart_sym: "apart a b \<Longrightarrow> apart b a"
  by (auto simp: apart_def)

lemma download_letters: "0 < k \<Longrightarrow> k < 9 \<Longrightarrow> (''.download'' @ s) ! k \<noteq> CHR ''.''"
proof -
  assume "0 < k" "k < 9"
  then have "k \<in> {1, 2, 3, 4, 5, 6, 7, 8}" by auto
  then show ?thesis by auto
qed

lemma apart_extend:
  assumes u: "u \<noteq> []" and p: "\<not> has_prefix u ''.download''"
  shows "''.download'' @ s \<noteq> u @ ''.download'' @ t"
proof
  assume eq: "''.download'' @ s = u @ ''.download'' @ t"
  show False
  proof (cases "length u < 9")
    case True
    have "(u @ ''.download'' @ t) ! length u = CHR ''.''" by (simp add: nth_append)
    with eq download_letters [of "length u" s] True u show False by simp
  next
    case False
    then have "take 9 (u @ ''.download'' @ t) = take 9 u" by simp
    moreover have "take 9 (''.download'' @ s) = ''.download''" by simp
    ultimately have "take 9 u = ''.download''" using eq by metis
    then show False using p by (simp add: has_prefix_def numeral_eq_Suc)
  qed
qed

lemma apart_append: "apart a b \<Longrightarrow> a @ ''.download'' @ s \<noteq> b @ ''.download'' @ t"
proof
  assume ap: "apart a b" and eq: "a @ ''.download'' @ s = b @ ''.download'' @ t"
  from eq consider u where "b = a @ u" "''.download'' @ s = u @ ''.download'' @ t"
    | u where "a = b @ u" "''.download'' @ t = u @ ''.download'' @ s"
    by (auto simp: append_eq_append_conv2)
  then show False
  proof cases
    case (1 u)
    then have "u \<noteq> []" "\<not> has_prefix u ''.download''"
      using ap by (auto simp: apart_def download_path_def has_prefix_iff)
    from apart_extend [OF this] 1(2) show False by blast
  next
    case (2 u)
    then have "u \<noteq> []" "\<not> has_prefix u ''.download''"
      using ap by (auto simp: apart_def download_path_def has_prefix_iff)
    from apart_extend [OF this] 2(2) show False by blast
  qed
qed

lemma part_path_eq:
  assumes "a = b \<or> apart a b"
  shows "part_path a p = part_path b q \<longleftrightarrow> a = b \<and> p = q"
proof
  assume eq: "part_path a p = part_path b q"
  have "a = b"
    using assms eq apart_append [of a b "''.part-'' @ pad2 p" "''.part-'' @ pad2 q"]
    by (auto simp: part_path_def)
  with eq show "a = b \<and> p = q" by (auto simp: part_path_def dest: pad2_inj)
qed simp

lemma part_path_not_download: "a = b \<or> apart a b \<Longrightarrow> part_path a p \<noteq> download_path b"
  using apart_append [of a b "''.part-'' @ pad2 p" "[]"] by (auto simp: part_path_def download_path_def)

lemma download_path_eq: "a = b \<or> apart a b \<Longrightarrow> download_path a = download_path b \<longleftrightarrow> a = b"
  using apart_append [of a b "[]" "[]"] by (auto simp: download_path_def)

lemma part_path_not_final: "a = b \<or> apart a b \<Longrightarrow> part_path a p \<noteq> b"
  by (auto simp: part_path_def apart_def download_path_def has_prefix_iff)

lemma download_path_not_final: "a = b \<or> apart a b \<Longrightarrow> download_path a \<noteq> b"
  by (auto simp: apart_def download_path_def has_prefix_iff)

text \<open>Options as the pipeline makes them: with video, two different tracks in two files.\<close>

definition sabr_wf :: "sabr_options \<Rightarrow> bool" where
  "sabr_wf opts \<longleftrightarrow> sb_audio_only opts
     \<or> sb_audio_itag opts \<noteq> sb_video_itag opts \<and> apart (sb_audio_path opts) (sb_video_path opts)"

lemma sabr_paths:
  assumes "sabr_wf opts" and "s \<in> set (track_specs opts)" and "t \<in> set (track_specs opts)"
  shows "tk_path s = tk_path t \<or> apart (tk_path s) (tk_path t)"
  using assms by (auto simp: sabr_wf_def track_specs_def track_spec_def apart_sym split: if_splits)

lemma sabr_path_inj:
  assumes "sabr_wf opts" and "s \<in> set (track_specs opts)" and "t \<in> set (track_specs opts)"
    and "tk_path s = tk_path t"
  shows "s = t"
  using assms by (auto simp: sabr_wf_def track_specs_def track_spec_def apart_def split: if_splits)

section \<open>Writing a part\<close>

lemma open_specs_ok:
  "open_specs fl room part specs d = (d', Inr tracks) \<Longrightarrow>
     tracks = map (\<lambda>s. s\<lparr>tk_path := part_path (tk_path s) part,
       tk_output := Some \<lparr>out_data = [], out_room = room (part_path (tk_path s) part)\<rparr>\<rparr>) specs"
proof (induction specs arbitrary: d d' tracks)
  case Nil
  then show ?case by simp
next
  case (Cons s specs)
  then show ?case by (auto simp: Let_def split: if_splits prod.splits option.splits sum.splits)
qed

lemma open_specs_disk:
  "q \<notin> (\<lambda>s. part_path (tk_path s) part) ` set specs \<Longrightarrow> fst (open_specs fl room part specs d) q = d q"
proof (induction specs arbitrary: d)
  case Nil
  then show ?case by simp
next
  case (Cons s specs)
  let ?p = "part_path (tk_path s) part"
  have "fst (os_create fl ?p d) q = d q" using Cons.prems by (simp add: os_create_def split: option.split)
  with Cons show ?case by (auto simp: Let_def split: prod.split option.split sum.split) (metis fst_conv)+
qed

lemma flush_disk: "q \<notin> tk_path ` set ts \<Longrightarrow> flush_tracks ts d q = d q"
  by (induction ts arbitrary: d) (auto simp: flush_tracks_def split: option.split)

lemma flush_tracks_at:
  "distinct (map tk_path ts) \<Longrightarrow> i < length ts \<Longrightarrow> tk_output (ts ! i) = Some s \<Longrightarrow>
     flush_tracks ts d (tk_path (ts ! i)) = Some (out_data s)"
proof (induction ts arbitrary: d i)
  case Nil
  then show ?case by simp
next
  case (Cons t ts)
  show ?case
  proof (cases i)
    case 0
    with Cons.prems have "tk_path t \<notin> tk_path ` set ts" by simp
    with 0 Cons.prems flush_disk [of "tk_path t" ts "d(tk_path t \<mapsto> out_data s)"] show ?thesis
      by (simp add: flush_tracks_def)
  next
    case (Suc j)
    with Cons show ?thesis by (simp add: flush_tracks_def)
  qed
qed

text \<open>The consumer never changes a track's file name.\<close>

lemma consume_frame_path: "tk_path (fst (snd (consume_frame wi r t h))) = tk_path t"
proof -
  have b: "tk_path (fst (begin_frame t h)) = tk_path t" by (simp add: begin_frame_def Let_def)
  have w: "tk_path (wrote_to u out) = tk_path u" for u out by (simp add: wrote_to_def split: writer.split)
  show ?thesis using b w by (simp add: consume_frame_def Let_def case_prod_beta split: option.split)
qed

lemma consume_frames_paths:
  "map tk_path (fst (snd (consume_frames wi r ts added))) = map tk_path ts"
proof (induction wi r ts added rule: consume_frames.induct)
  case (1 wi r ts added)
  show ?case
  proof (cases "\<exists>r1 raw header i. read_full r frame_header_size = (r1, Inr raw)
      \<and> decode_frame_header raw = Inr header \<and> fh_kind header \<noteq> frame_complete
      \<and> find_track ts (fh_itag header) = Some i")
    case False
    then show ?thesis
      by (subst consume_frames.simps) (auto split: prod.split sum.split option.split)
  next
    case True
    then obtain r1 raw h i where c: "read_full r frame_header_size = (r1, Inr raw)"
      "decode_frame_header raw = Inr h" "fh_kind h \<noteq> frame_complete" "find_track ts (fh_itag h) = Some i"
      by blast
    obtain r2 t more e where f: "consume_frame wi r1 (ts ! i) h = (r2, t, more, e)"
      using prod_cases4 by blast
    have "tk_path t = tk_path (ts ! i)" using consume_frame_path [of wi r1 "ts ! i" h] f by simp
    then have upd: "map tk_path (ts[i := t]) = map tk_path ts"
      by (metis list_update_beyond list_update_id map_update nth_map linorder_not_less length_map)
    show ?thesis
    proof (cases e)
      case None
      with c f "1.IH" [OF c(1) [symmetric] refl c(2,3,4) f [symmetric] refl refl None] upd show ?thesis
        by (subst consume_frames.simps) simp
    next
      case (Some x)
      with c f upd show ?thesis by (subst consume_frames.simps) simp
    qed
  qed
qed

lemma consume_stream_paths:
  "map tk_path (fst (snd (consume_download_stream wi r ts))) = map tk_path ts"
  using consume_frames_paths by (auto simp: consume_download_stream_def split: prod.split sum.split)

text \<open>What part \<open>p\<close> has to leave: the payloads of a complete stream.\<close>

definition part_done :: "sabr_options \<Rightarrow> int \<Rightarrow> disk \<Rightarrow> bool" where
  "part_done opts p d \<longleftrightarrow>
     (\<exists>fs. stream_format (track_specs opts) fs
        \<and> (\<forall>t\<in>set (track_specs opts).
              d (part_path (tk_path t) p) = Some (payloads (p = 0) (frames_for t fs))))"

definition part_files :: "sabr_options \<Rightarrow> int \<Rightarrow> string set" where
  "part_files opts p = (\<lambda>t. part_path (tk_path t) p) ` set (track_specs opts)"

lemma part_done_cong: "(\<And>q. q \<in> part_files opts p \<Longrightarrow> d q = d' q) \<Longrightarrow> part_done opts p d \<longleftrightarrow> part_done opts p d'"
  by (simp add: part_done_def part_files_def)

lemma part_files_apart: "sabr_wf opts \<Longrightarrow> p \<noteq> q \<Longrightarrow> part_files opts p \<inter> part_files opts q = {}"
  using sabr_paths by (fastforce simp: part_files_def part_path_eq)

lemma tracks_paths: "open_specs fl room part (track_specs opts) d = (d', Inr tracks) \<Longrightarrow>
    tk_path ` set tracks = part_files opts part"
  by (auto dest!: open_specs_ok simp: part_files_def image_image)

lemma download_part_frame:
  assumes "q \<notin> part_files opts part"
  shows "fst (download_part lib env opts part parts d) q = d q"
proof -
  obtain d1 res where o: "open_part_tracks (pe_faults env) (pe_room env) opts part d = (d1, res)" by fastforce
  have d1: "d1 q = d q"
    using assms open_specs_disk [of q part "track_specs opts" "pe_faults env" "pe_room env" d] o
    by (simp add: open_part_tracks_def part_files_def)
  show ?thesis
  proof (cases res)
    case (Inl e)
    with o d1 show ?thesis by (simp add: download_part_def split: sum.split)
  next
    case (Inr tracks)
    have q: "q \<notin> tk_path ` set tracks" using o Inr assms tracks_paths by (simp add: open_part_tracks_def)
    have "flush_tracks (fst (snd (consume_download_stream wi r tracks))) d1 q = d1 q" for wi r
      using q consume_stream_paths [of wi r tracks] by (intro flush_disk) (metis list.set_map)
    with o Inr d1 show ?thesis
      by (auto simp: download_part_def split: sum.split prod.split option.split) (metis fst_conv snd_conv)+
  qed
qed

lemma download_part_done:
  assumes wf: "sabr_wf opts" and ok: "download_part lib env opts part parts d = (d', added, None)"
  shows "part_done opts part d'"
proof -
  from ok obtain d1 tracks r r' tracks' where
    o: "open_specs (pe_faults env) (pe_room env) part (track_specs opts) d = (d1, Inr tracks)"
    and c: "consume_download_stream (part = 0) r tracks = (r', tracks', added, None)"
    and d': "d' = flush_tracks tracks' d1"
    by (auto simp: download_part_def open_part_tracks_def split: sum.splits prod.splits option.splits)
  have tracks: "tracks = map (\<lambda>s. s\<lparr>tk_path := part_path (tk_path s) part,
       tk_output := Some \<lparr>out_data = [], out_room = pe_room env (part_path (tk_path s) part)\<rparr>\<rparr>) (track_specs opts)"
    by (rule open_specs_ok [OF o])
  then have len: "length tracks = length (track_specs opts)" by simp
  have sel: "selected (map roomy tracks)"
    using wf by (auto simp: tracks selected_def o_def track_specs_def track_spec_def sabr_wf_def
        fresh_track_def open_output_def roomy_def)
  from stream_accepted [OF sel c] obtain fs where fmt: "stream_format tracks fs"
    and l': "length tracks' = length tracks"
    and out: "\<And>i. i < length tracks \<Longrightarrow>
        open_output (roomy (tracks' ! i)) (payloads (part = 0) (frames_for (tracks ! i) fs))"
    by blast
  have ff: "frames_for (t\<lparr>tk_path := a, tk_output := b\<rparr>) fs = frames_for t fs" for t :: stream_track and a b
    by (simp add: frames_for_def)
  have fmt': "stream_format (track_specs opts) fs"
    using fmt by (simp add: tracks stream_format_def image_image ff)
  have paths: "map tk_path tracks' = map tk_path tracks"
    using consume_stream_paths [of "part = 0" r tracks] c by simp
  have dist: "distinct (map tk_path tracks')"
    using wf unfolding paths by (auto simp: tracks o_def track_specs_def track_spec_def sabr_wf_def
        part_path_eq apart_def)
  have "d' (part_path (tk_path t) part) = Some (payloads (part = 0) (frames_for t fs))"
    if t: "t \<in> set (track_specs opts)" for t
  proof -
    from t obtain i where i: "i < length tracks" "track_specs opts ! i = t" using len by (auto simp: in_set_conv_nth)
    from out [OF i(1)] obtain s where s: "tk_output (tracks' ! i) = Some s"
      and data: "out_data s = payloads (part = 0) (frames_for (tracks ! i) fs)"
      by (auto simp: open_roomy)
    have "tk_path (tracks' ! i) = part_path (tk_path t) part"
      using paths i l' len by (metis (no_types, lifting) nth_map tracks simps(4) roomy_itag(2) stream_track.select_convs(3)
          stream_track.surjective stream_track.update_convs(3) stream_track.update_convs(4))
    moreover have "frames_for (tracks ! i) fs = frames_for t fs" using i len by (simp add: tracks ff)
    ultimately show ?thesis
      using flush_tracks_at [OF dist _ s, of d1] i l' data by (simp add: d')
  qed
  with fmt' show ?thesis by (auto simp: part_done_def)
qed

lemma part_tries_frame:
  assumes "\<And>a d. fst (try a d) q = d q"
  shows "fst (part_tries try envs attempts err d) q = d q"
proof (induction attempts arbitrary: err d)
  case Nil
  then show ?case by simp
next
  case (Cons a as)
  show ?case
    using assms [of a d] Cons.IH by (auto split: prod.split option.split) (metis fst_conv)+
qed

lemma part_tries_done:
  assumes "\<And>a d d' added. try a d = (d', added, None) \<Longrightarrow> P d'"
    and "part_tries try envs attempts err d = (d', added, None)" and "attempts \<noteq> []"
    and "last attempts = part_attempts"
  shows "P d'"
  using assms(2-)
proof (induction attempts arbitrary: err d added)
  case Nil
  then show ?case by simp
next
  case (Cons a as)
  obtain d1 more e where t: "try a d = (d1, more, e)" using prod_cases3 by blast
  show ?case
  proof (cases e)
    case None
    with t Cons.prems assms(1) show ?thesis by auto
  next
    case (Some x)
    with t Cons.prems have "a \<noteq> part_attempts" by (auto split: if_splits)
    with Cons.prems(3) have "as \<noteq> []" "last as = part_attempts"
      by (auto split: if_splits)
    moreover from Some t Cons.prems obtain more' where "part_tries try envs as (Some x) d1 = (d', more', None)"
      by (auto split: if_splits option.splits prod.splits)
    ultimately show ?thesis using Cons.IH by blast
  qed
qed

section \<open>All parts\<close>

text \<open>The contract of the pool: a part that succeeds is done, and parts leave each other alone.\<close>

locale part_pool =
  fixes run :: "int \<Rightarrow> error option \<Rightarrow> disk \<Rightarrow> disk \<times> int list \<times> error option"
    and ok :: "int \<Rightarrow> disk \<Rightarrow> bool"
  assumes run_done: "run p c d = (d', added, None) \<Longrightarrow> ok p d'"
    and run_frame: "p \<noteq> q \<Longrightarrow> ok p d \<Longrightarrow> ok p (fst (run q c d))"
begin

definition busy :: "worker list \<Rightarrow> int list" where
  "busy ws = concat (map (\<lambda>w. case w of Busy p \<Rightarrow> [p] | _ \<Rightarrow> []) ws)"

definition pool_inv :: "int \<Rightarrow> pool \<Rightarrow> bool" where
  "pool_inv parts p \<longleftrightarrow>
     distinct (busy (pl_workers p) @ pl_queue p)
     \<and> length (pl_workers p) = nat (min parts max_concurrent_part_downloads)
     \<and> (pl_failures p \<noteq> [] \<longrightarrow> pl_ctx p \<noteq> None)
     \<and> (pl_ctx p = None \<and> Gone \<in> set (pl_workers p) \<longrightarrow> pl_queue p = [])
     \<and> (pl_ctx p = None \<longrightarrow>
          (\<forall>part\<in>{0..<parts}. part \<in> set (busy (pl_workers p) @ pl_queue p) \<or> ok part (pl_disk p)))"

lemma busy_update:
  "i < length ws \<Longrightarrow> mset (busy (ws[i := w])) + mset (busy [ws ! i]) = mset (busy ws) + mset (busy [w])"
proof (induction ws arbitrary: i)
  case Nil
  then show ?case by simp
next
  case (Cons v ws)
  then show ?case by (cases i) (simp_all add: busy_def ac_simps)
qed

lemma busy_idle: "i < length ws \<Longrightarrow> ws ! i = Idle \<Longrightarrow> mset (busy (ws[i := w])) = mset (busy ws) + mset (busy [w])"
  using busy_update [of i ws w] by (simp add: busy_def)

lemma busy_end: "i < length ws \<Longrightarrow> ws ! i = Busy part \<Longrightarrow> w = Idle \<or> w = Gone \<Longrightarrow>
    mset (busy ws) = add_mset part (mset (busy (ws[i := w])))"
  using busy_update [of i ws w] by (auto simp: busy_def)

lemma distinct_perm: "mset xs = mset ys \<Longrightarrow> distinct xs \<longleftrightarrow> distinct ys"
  by (metis mset_eq_imp_distinct_iff)

lemma gone_update: "w \<noteq> Gone \<Longrightarrow> Gone \<in> set (ws[i := w]) \<Longrightarrow> Gone \<in> set ws"
  using set_update_subset_insert [of ws i w] by auto

lemma inv_take:
  assumes inv: "pool_inv parts p" and i: "i < length (pl_workers p)" "pl_workers p ! i = Idle"
  shows "pool_inv parts (worker_take i p)"
proof (cases "pl_queue p")
  case Nil
  have "mset (busy ((pl_workers p)[i := Gone])) = mset (busy (pl_workers p))"
    using busy_idle [OF i, of Gone] by (simp add: busy_def)
  from distinct_perm [OF this] mset_eq_setD [OF this] Nil inv show ?thesis
    by (simp add: worker_take_def pool_inv_def)
next
  case (Cons part rest)
  show ?thesis
  proof (cases "pl_ctx p")
    case None
    have b: "mset (busy ((pl_workers p)[i := Busy part]) @ rest) = mset (busy (pl_workers p) @ pl_queue p)"
      using busy_idle [OF i, of "Busy part"] Cons by (simp add: busy_def)
    from distinct_perm [OF b] mset_eq_setD [OF b] None Cons inv gone_update [of "Busy part" "pl_workers p" i]
    show ?thesis by (auto simp: worker_take_def pool_inv_def)
  next
    case (Some e)
    have "mset (busy ((pl_workers p)[i := Gone])) = mset (busy (pl_workers p))"
      using busy_idle [OF i, of Gone] by (simp add: busy_def)
    from distinct_perm [OF this] mset_eq_setD [OF this] Some Cons inv show ?thesis
      by (auto simp: worker_take_def pool_inv_def)
  qed
qed

lemma inv_finish:
  assumes inv: "pool_inv parts p" and i: "i < length (pl_workers p)" "pl_workers p ! i = Busy part"
  shows "pool_inv parts (worker_finish run n i part p)"
proof -
  obtain d added e where r: "run part (pl_ctx p) (pl_disk p) = (d, added, e)" using prod_cases3 by blast
  have perm: "mset (busy (pl_workers p)) = add_mset part (mset (busy ((pl_workers p)[i := w])))"
    if "w = Idle \<or> w = Gone" for w by (rule busy_end [OF i that])
  have dist: "distinct (busy ((pl_workers p)[i := w]) @ pl_queue p)"
    and set: "set (busy (pl_workers p)) = insert part (set (busy ((pl_workers p)[i := w])))"
    and new: "part \<notin> set (busy ((pl_workers p)[i := w]) @ pl_queue p)" if "w = Idle \<or> w = Gone" for w
  proof -
    have m: "mset (busy (pl_workers p) @ pl_queue p) = mset (part # busy ((pl_workers p)[i := w]) @ pl_queue p)"
      using perm [OF that] by simp
    from distinct_perm [OF m] inv show "distinct (busy ((pl_workers p)[i := w]) @ pl_queue p)"
      and "part \<notin> set (busy ((pl_workers p)[i := w]) @ pl_queue p)"
      by (simp_all add: pool_inv_def)
    show "set (busy (pl_workers p)) = insert part (set (busy ((pl_workers p)[i := w])))"
      using perm [OF that] by (metis set_mset_add_mset_insert set_mset_mset)
  qed
  show ?thesis
  proof (cases e)
    case None
    have "ok q d" if "ok q (pl_disk p)" for q
      using that run_done [of part "pl_ctx p" "pl_disk p" d added] run_frame [of q part "pl_disk p" "pl_ctx p"] r None
      by (cases "q = part") auto
    moreover have "ok part d" using r None run_done by blast
    ultimately show ?thesis
      using r None inv dist [of Idle] set [of Idle] gone_update [of Idle "pl_workers p" i]
      by (auto simp: worker_finish_def pool_inv_def)
  next
    case (Some x)
    with r inv dist [of Gone] show ?thesis
      by (auto simp: worker_finish_def pool_inv_def cancel_ctx_def split: option.splits)
  qed
qed

lemma inv_act: "pool_inv parts p \<Longrightarrow> pool_inv parts (pool_act run n a p)"
  by (auto simp: pool_act_def inv_take inv_finish split: pool_action.split worker.split)
     (auto simp: pool_inv_def cancel_ctx_def split: option.splits)

lemma inv_schedule:
  "pool_inv parts p \<Longrightarrow> pool_inv parts (foldl (\<lambda>p a. pool_act run n a p) p schedule)"
  by (induction schedule arbitrary: p) (simp_all add: inv_act)

lemma inv_new: "pool_inv parts (new_pool parts d)"
proof -
  have "busy (replicate n Idle) = []" for n by (induction n) (simp_all add: busy_def)
  then show ?thesis by (auto simp: pool_inv_def new_pool_def)
qed

text \<open>When the workers have left and there is no error, every part is done.\<close>

lemma parts_done:
  assumes "download_parts run schedule parts d = Some (d', added, None)" and "0 \<le> part" and "part < parts"
  shows "ok part d'"
proof -
  define p where "p = foldl (\<lambda>p a. pool_act run parts a p) (new_pool parts d) schedule"
  have inv: "pool_inv parts p" unfolding p_def by (rule inv_schedule [OF inv_new])
  from assms(1) have gone: "\<forall>w\<in>set (pl_workers p). w = Gone" and d': "d' = pl_disk p" and e: "pool_error p = None"
    by (auto simp: download_parts_def Let_def p_def split: if_splits)
  from gone have nobusy: "busy (pl_workers p) = []" by (auto simp: busy_def)
  from e have ctx: "pl_ctx p = None" by (simp add: pool_error_def split: option.splits)
  have "pl_workers p \<noteq> []"
    using inv assms(2,3) by (auto simp: pool_inv_def max_concurrent_part_downloads_def)
  with gone have "Gone \<in> set (pl_workers p)" by (cases "pl_workers p") auto
  with inv ctx have "pl_queue p = []" by (simp add: pool_inv_def)
  with inv ctx nobusy assms(2,3) show ?thesis by (auto simp: pool_inv_def d')
qed

end

interpretation sabr_parts: part_pool
  "\<lambda>part ctx. download_part_with_retry lib (env part ctx) opts part parts"
  "\<lambda>p d. sabr_wf opts \<longrightarrow> part_done opts p d" for lib env opts parts
proof unfold_locales
  fix p c d d' added
  assume run: "download_part_with_retry lib (env p c) opts p parts d = (d', added, None)"
  show "sabr_wf opts \<longrightarrow> part_done opts p d'"
  proof
    assume wf: "sabr_wf opts"
    have "part_done opts p d'"
      by (rule part_tries_done [OF _ run [unfolded download_part_with_retry_def]])
         (simp_all add: download_part_done [OF wf] part_attempts_def upto.simps)
    then show "part_done opts p d'" .
  qed
next
  fix p q :: int and d c
  assume ne: "p \<noteq> q" and ok: "sabr_wf opts \<longrightarrow> part_done opts p d"
  have frame: "fst (download_part_with_retry lib (env q c) opts q parts d) r = d r" if "r \<notin> part_files opts q" for r
    unfolding download_part_with_retry_def by (intro part_tries_frame download_part_frame that)
  show "sabr_wf opts \<longrightarrow> part_done opts p (fst (download_part_with_retry lib (env q c) opts q parts d))"
  proof
    assume wf: "sabr_wf opts"
    from part_files_apart [OF wf ne] have "r \<notin> part_files opts q" if "r \<in> part_files opts p" for r
      using that by blast
    with frame ok wf show "part_done opts p (fst (download_part_with_retry lib (env q c) opts q parts d))"
      using part_done_cong [of opts p d "fst (download_part_with_retry lib (env q c) opts q parts d)"] by auto
  qed
qed

text \<open>The workers write nothing but the files of the parts.\<close>

lemma pool_frame:
  assumes "\<And>part c d. part \<in> {0..<parts} \<Longrightarrow> fst (run part c d) q = d q"
    and "download_parts run schedule parts d = Some (d', added, e)"
  shows "d' q = d q"
proof -
  define fine where "fine ws \<longleftrightarrow> (\<forall>part. Busy part \<in> set ws \<longrightarrow> part \<in> {0..<parts})" for ws
  have upd: "fine ws \<Longrightarrow> (\<And>part. w = Busy part \<Longrightarrow> part \<in> {0..<parts}) \<Longrightarrow> fine (ws[i := w])" for i w ws
    unfolding fine_def using set_update_subset_insert [of ws i w] by blast
  define inv where "inv p \<longleftrightarrow> pl_disk p q = d q \<and> set (pl_queue p) \<subseteq> {0..<parts} \<and> fine (pl_workers p)"
    for p :: pool
  have "inv (worker_take i p)" if "inv p" for i p
    using that by (auto simp: inv_def worker_take_def intro!: upd split: list.split if_splits)
  moreover have "inv (worker_finish run n i part p)" if "inv p" "part \<in> {0..<parts}" for i p part n
  proof -
    obtain d1 more r where r: "run part (pl_ctx p) (pl_disk p) = (d1, more, r)" using prod_cases3 by blast
    have "fst (run part (pl_ctx p) (pl_disk p)) q = pl_disk p q" using assms(1) that(2) by blast
    with r that(1) show ?thesis
      by (cases r) (auto simp: inv_def worker_finish_def intro!: upd)
  qed
  moreover have "part \<in> {0..<parts}" if "inv p" "i < length (pl_workers p)" "pl_workers p ! i = Busy part" for p i part
    using that nth_mem [of i "pl_workers p"] by (simp add: inv_def fine_def)
  ultimately have act: "inv p \<Longrightarrow> inv (pool_act run parts a p)" for a p
    by (cases a; cases "pl_workers p ! (case a of Act i \<Rightarrow> i)") (simp_all add: pool_act_def, simp_all add: inv_def)
  have "inv p \<Longrightarrow> inv (foldl (\<lambda>p a. pool_act run parts a p) p schedule)" for p
    by (induction schedule arbitrary: p) (simp_all add: act)
  moreover have "inv (new_pool parts d)" by (auto simp: inv_def fine_def new_pool_def)
  ultimately have "inv (foldl (\<lambda>p a. pool_act run parts a p) (new_pool parts d) schedule)" by blast
  with assms(2) show ?thesis by (auto simp: inv_def download_parts_def Let_def split: if_splits)
qed

section \<open>The workers finish\<close>

definition worker_work :: "worker \<Rightarrow> nat" where
  "worker_work w = (case w of Idle \<Rightarrow> 1 | Busy _ \<Rightarrow> 2 | Gone \<Rightarrow> 0)"

definition pool_work :: "pool \<Rightarrow> nat" where
  "pool_work p = 2 * length (pl_queue p) + sum_list (map worker_work (pl_workers p))"

lemma act_work:
  assumes "i < length (pl_workers p)" and "pl_workers p ! i \<noteq> Gone"
  shows "pool_work (pool_act run n (Act i) p) < pool_work p"
proof -
  have u: "sum_list (map worker_work ((pl_workers p)[i := w])) + worker_work (pl_workers p ! i)
     = sum_list (map worker_work (pl_workers p)) + worker_work w" for w by (rule work_update [OF assms(1)])
  show ?thesis
  proof (cases "pl_workers p ! i")
    case Idle
    with assms(1) u [of Gone] show ?thesis
      using u [of "Busy (hd (pl_queue p))"]
      by (auto simp: pool_act_def worker_take_def pool_work_def worker_work_def split: list.split)
  next
    case (Busy part)
    with assms(1) u [of Idle] u [of Gone] show ?thesis
      by (auto simp: pool_act_def worker_finish_def pool_work_def worker_work_def
          split: prod.split option.split)
  next
    case Gone
    with assms(2) show ?thesis by simp
  qed
qed

lemma act_work_le: "pool_work (pool_act run n a p) \<le> pool_work p"
proof (cases a)
  case (Act i)
  show ?thesis
  proof (cases "i < length (pl_workers p) \<and> pl_workers p ! i \<noteq> Gone")
    case True
    with act_work [of i p run n] Act show ?thesis by simp
  next
    case False
    with Act show ?thesis by (auto simp: pool_act_def)
  qed
next
  case (Parent_done e)
  then show ?thesis by (simp add: pool_act_def pool_work_def)
qed

lemma act_workers: "length (pl_workers (pool_act run n a p)) = length (pl_workers p)"
  by (simp add: pool_act_def worker_take_def worker_finish_def split: pool_action.split worker.split list.split
      prod.split option.split)

lemma gone_stays: "i < length (pl_workers p) \<Longrightarrow> pl_workers p ! i = Gone \<Longrightarrow>
    pl_workers (pool_act run n a p) ! i = Gone"
  by (auto simp: pool_act_def worker_take_def worker_finish_def nth_list_update
      split: pool_action.split worker.split list.split prod.split option.split)

definition at_work :: "nat \<Rightarrow> pool \<Rightarrow> bool" where
  "at_work i p \<longleftrightarrow> i < length (pl_workers p) \<and> pl_workers p ! i \<noteq> Gone"

lemma at_work_kept:
  assumes "at_work i p" and "pool_work (pool_act run n a p) = pool_work p"
  shows "at_work i (pool_act run n a p)"
proof -
  have "pl_workers (pool_act run n a p) = pl_workers p"
  proof (cases "\<exists>j. a = Act j \<and> j < length (pl_workers p) \<and> pl_workers p ! j \<noteq> Gone")
    case True
    then obtain j where "a = Act j" "j < length (pl_workers p)" "pl_workers p ! j \<noteq> Gone" by blast
    with act_work [of j p run n] assms(2) show ?thesis by simp
  next
    case False
    then show ?thesis by (auto simp: pool_act_def split: pool_action.split worker.split)
  qed
  with assms(1) show ?thesis by (simp add: at_work_def)
qed

lemma at_work_pays: "at_work i p \<Longrightarrow> 0 < pool_work p"
proof -
  assume b: "at_work i p"
  then have "worker_work (pl_workers p ! i) \<le> sum_list (map worker_work (pl_workers p))"
    by (intro member_le_sum_list) (simp_all add: at_work_def)
  moreover have "0 < worker_work (pl_workers p ! i)"
    using b by (simp add: at_work_def worker_work_def split: worker.split)
  ultimately show ?thesis by (simp add: pool_work_def)
qed

lemma at_rest_kept: "\<not> at_work i p \<Longrightarrow> \<not> at_work i (pool_act run n a p)"
  using gone_stays [of i p run n a] by (auto simp: at_work_def act_workers)

interpretation pool_hands: workforce "pool_act run n" "\<lambda>i a. a = Act i" at_work pool_work "\<lambda>_. True" for run n
  by unfold_locales
    (simp_all add: act_work_le at_work_kept at_rest_kept at_work_pays, simp add: at_work_def act_work)

lemma pool_finishes:
  assumes "0 < parts" and "\<forall>round\<in>set rounds. \<forall>i<3. Act i \<in> set round"
    and "2 * nat parts + 3 \<le> length rounds"
  shows "download_parts run (concat rounds) parts d \<noteq> None"
proof -
  have "sum_list (map worker_work (replicate k Idle)) = k" for k
    by (induction k) (simp_all add: worker_work_def)
  then have w: "pool_work (new_pool parts d) \<le> length rounds" and n: "length (pl_workers (new_pool parts d)) \<le> 3"
    using assms by (simp_all add: pool_work_def new_pool_def max_concurrent_part_downloads_def)
  have l: "length (pl_workers (foldl (\<lambda>p a. pool_act run parts a p) p as)) = length (pl_workers p)" for p as
    by (induction as arbitrary: p) (simp_all add: act_workers)
  have "\<not> at_work i (foldl (\<lambda>p a. pool_act run parts a p) (new_pool parts d) (concat rounds))" if "i < 3" for i
    using assms(2) that by (intro pool_hands.rounds_finish [OF TrueI _ w]) auto
  then have "\<forall>w\<in>set (pl_workers (foldl (\<lambda>p a. pool_act run parts a p) (new_pool parts d) (concat rounds))). w = Gone"
    using n by (auto simp: at_work_def l in_set_conv_nth)
  then show ?thesis by (simp add: download_parts_def Let_def)
qed

section \<open>Assembling\<close>

definition all_parts :: "string \<Rightarrow> int \<Rightarrow> disk \<Rightarrow> byte list" where
  "all_parts path parts d = concat (map (\<lambda>p. contents (part_path path p) d) [0..parts - 1])"

lemma append_parts_other: "q \<noteq> download_path (tk_path t) \<Longrightarrow> fst (append_parts fl t parts d) q = d q"
proof (induction parts arbitrary: d)
  case Nil
  then show ?case by simp
next
  case (Cons p parts)
  show ?case
  proof (cases "os_open fl (part_path (tk_path t) p) d")
    case (Inl e)
    then show ?thesis by simp
  next
    case (Inr input)
    obtain d1 e where c: "io_copy fl (part_path (tk_path t) p) input (download_path (tk_path t)) d = (d1, e)"
      by fastforce
    then have "d1 q = d q" using Cons.prems by (auto simp: io_copy_def split: option.splits)
    with Inr c Cons show ?thesis by (simp split: option.split)
  qed
qed

lemma append_parts_ok:
  assumes "append_parts fl t parts d = (d', None)"
  shows "contents (download_path (tk_path t)) d'
    = contents (download_path (tk_path t)) d @ concat (map (\<lambda>p. contents (part_path (tk_path t) p) d) parts)"
  using assms
proof (induction parts arbitrary: d)
  case Nil
  then show ?case by simp
next
  case (Cons p parts)
  let ?dl = "download_path (tk_path t)"
  from Cons.prems obtain input where o: "os_open fl (part_path (tk_path t) p) d = Inr input"
    by (auto split: sum.splits)
  then have input: "contents (part_path (tk_path t) p) d = input"
    by (auto simp: os_open_def contents_def split: option.splits)
  define d1 where "d1 = d(?dl \<mapsto> contents ?dl d @ input)"
  from Cons.prems o have rec: "append_parts fl t parts d1 = (d', None)"
    by (auto simp: io_copy_def d1_def split: option.splits)
  have "contents (part_path (tk_path t) q) d1 = contents (part_path (tk_path t) q) d" for q
    using part_path_not_download [of "tk_path t" "tk_path t" q] by (simp add: d1_def contents_def)
  with Cons.IH [OF rec] input show ?case by (simp add: d1_def contents_def)
qed

lemma append_parts_exists:
  "append_parts fl t parts d = (d', None) \<Longrightarrow> d (download_path (tk_path t)) \<noteq> None \<Longrightarrow>
    d' (download_path (tk_path t)) \<noteq> None"
proof (induction parts arbitrary: d)
  case Nil
  then show ?case by simp
next
  case (Cons p parts)
  from Cons.prems obtain d1 where "append_parts fl t parts d1 = (d', None)"
    "d1 (download_path (tk_path t)) \<noteq> None"
    by (auto simp: io_copy_def split: sum.splits option.splits)
  then show ?case by (rule Cons.IH)
qed

lemma assemble_track_other: "q \<noteq> download_path (tk_path t) \<Longrightarrow> fst (assemble_track fl t parts d) q = d q"
  using append_parts_other [of q t fl "[0..parts - 1]"]
  by (auto simp: assemble_track_def os_create_def os_remove_other split: option.splits prod.splits)
     (metis fst_conv fun_upd_other)+

lemma assemble_track_ok:
  assumes "assemble_track fl t parts d = (d', None)"
  shows "d' (download_path (tk_path t)) = Some (all_parts (tk_path t) parts d)"
proof -
  let ?dl = "download_path (tk_path t)"
  from assms have app: "append_parts fl t [0..parts - 1] (d(?dl \<mapsto> [])) = (d', None)"
    by (auto simp: assemble_track_def os_create_def split: option.splits prod.splits)
  have "contents (part_path (tk_path t) q) (d(?dl \<mapsto> [])) = contents (part_path (tk_path t) q) d" for q
    using part_path_not_download [of "tk_path t" "tk_path t" q] by (simp add: contents_def)
  with append_parts_ok [OF app] append_parts_exists [OF app] show ?thesis
    by (auto simp: all_parts_def contents_def)
qed

lemma assemble_all_other:
  "q \<notin> (\<lambda>t. download_path (tk_path t)) ` set ts \<Longrightarrow> fst (assemble_all fl ts parts d) q = d q"
proof (induction ts arbitrary: d)
  case Nil
  then show ?case by simp
next
  case (Cons t ts)
  have "fst (assemble_track fl t parts d) q = d q" using Cons.prems by (intro assemble_track_other) auto
  with Cons show ?case by (auto split: prod.split option.split)
qed

lemma commit_all_other:
  "q \<notin> (\<lambda>t. download_path (tk_path t)) ` set ts \<Longrightarrow> q \<notin> tk_path ` set ts \<Longrightarrow> fst (commit_all fl ts d) q = d q"
proof (induction ts arbitrary: d)
  case Nil
  then show ?case by simp
next
  case (Cons t ts)
  have "fst (os_rename fl (download_path (tk_path t)) (tk_path t) d) q = d q"
    using Cons.prems by (intro os_rename_other) auto
  with Cons show ?case by (auto split: prod.split option.split)
qed

text \<open>Tracks in files that do not meet.\<close>

definition apart_tracks :: "stream_track list \<Rightarrow> bool" where
  "apart_tracks ts \<longleftrightarrow> distinct (map tk_path ts)
     \<and> (\<forall>s\<in>set ts. \<forall>t\<in>set ts. tk_path s = tk_path t \<or> apart (tk_path s) (tk_path t))"

lemma apart_tracks_Cons:
  assumes "apart_tracks (t # ts)"
  shows "apart_tracks ts" and "u \<in> set ts \<Longrightarrow> apart (tk_path t) (tk_path u)"
    and "u \<in> set ts \<Longrightarrow> download_path (tk_path t) \<noteq> download_path (tk_path u)"
    and "u \<in> set ts \<Longrightarrow> tk_path t \<noteq> tk_path u"
    and "u \<in> set ts \<Longrightarrow> tk_path t \<noteq> download_path (tk_path u)"
    and "u \<in> set ts \<Longrightarrow> download_path (tk_path t) \<noteq> tk_path u"
    and "tk_path t \<noteq> download_path (tk_path t)"
proof -
  have ap: "u \<in> set ts \<Longrightarrow> apart (tk_path t) (tk_path u)" and ne: "u \<in> set ts \<Longrightarrow> tk_path t \<noteq> tk_path u" for u
    using assms by (auto simp: apart_tracks_def)
  then show "apart_tracks ts" "u \<in> set ts \<Longrightarrow> apart (tk_path t) (tk_path u)" "u \<in> set ts \<Longrightarrow> tk_path t \<noteq> tk_path u"
    "u \<in> set ts \<Longrightarrow> download_path (tk_path t) \<noteq> download_path (tk_path u)"
    "u \<in> set ts \<Longrightarrow> download_path (tk_path t) \<noteq> tk_path u"
    "u \<in> set ts \<Longrightarrow> tk_path t \<noteq> download_path (tk_path u)" "tk_path t \<noteq> download_path (tk_path t)"
    using assms download_path_eq [of "tk_path t" "tk_path u"] download_path_not_final [of "tk_path t" "tk_path u"]
      download_path_not_final [of "tk_path u" "tk_path t"] apart_sym [of "tk_path t" "tk_path u"]
    by (auto simp: apart_tracks_def download_path_def)
qed

lemma assemble_all_ok:
  "assemble_all fl ts parts d = (d', None) \<Longrightarrow> apart_tracks ts \<Longrightarrow> t \<in> set ts \<Longrightarrow>
    d' (download_path (tk_path t)) = Some (all_parts (tk_path t) parts d)"
proof (induction ts arbitrary: d)
  case Nil
  then show ?case by simp
next
  case (Cons u ts)
  note ap = apart_tracks_Cons [OF Cons.prems(2)]
  from Cons.prems(1) obtain d1 where a: "assemble_track fl u parts d = (d1, None)"
    and rec: "assemble_all fl ts parts d1 = (d', None)" by (auto split: prod.splits option.splits)
  show ?case
  proof (cases "t \<in> set ts")
    case True
    have "d1 (part_path (tk_path t) p) = d (part_path (tk_path t) p)" for p
      using assemble_track_other [of "part_path (tk_path t) p" u fl parts d] a
        part_path_not_download [of "tk_path t" "tk_path u" p] ap(2) [OF True] by (simp add: apart_sym)
    then have "all_parts (tk_path t) parts d1 = all_parts (tk_path t) parts d"
      by (simp add: all_parts_def contents_def)
    with Cons.IH [OF rec ap(1) True] show ?thesis by simp
  next
    case False
    with Cons.prems have t: "t = u" by simp
    have "fst (assemble_all fl ts parts d1) (download_path (tk_path u)) = d1 (download_path (tk_path u))"
      using ap(3) by (intro assemble_all_other) auto
    with assemble_track_ok [OF a] rec t show ?thesis by simp
  qed
qed

lemma commit_all_ok:
  "commit_all fl ts d = (d', None) \<Longrightarrow> apart_tracks ts \<Longrightarrow> t \<in> set ts \<Longrightarrow>
    d' (tk_path t) = d (download_path (tk_path t))"
proof (induction ts arbitrary: d)
  case Nil
  then show ?case by simp
next
  case (Cons u ts)
  note ap = apart_tracks_Cons [OF Cons.prems(2)]
  from Cons.prems(1) obtain d1 where a: "os_rename fl (download_path (tk_path u)) (tk_path u) d = (d1, None)"
    and rec: "commit_all fl ts d1 = (d', None)" by (auto split: prod.splits option.splits)
  show ?case
  proof (cases "t \<in> set ts")
    case True
    have "d1 (download_path (tk_path t)) = d (download_path (tk_path t))"
      using os_rename_other [of "download_path (tk_path t)" "download_path (tk_path u)" "tk_path u" fl d] a
        ap(3) [OF True] ap(5) [OF True] by simp
    with Cons.IH [OF rec ap(1) True] show ?thesis by simp
  next
    case False
    with Cons.prems have t: "t = u" by simp
    have "fst (commit_all fl ts d1) (tk_path u) = d1 (tk_path u)"
      using ap(4,5) by (intro commit_all_other) auto
    moreover have "d1 (tk_path u) = d (download_path (tk_path u))"
      using a by (auto simp: os_rename_def split: option.splits)
    ultimately show ?thesis using rec t by simp
  qed
qed

section \<open>The download\<close>

lemma specs_apart: "sabr_wf opts \<Longrightarrow> apart_tracks (track_specs opts)"
  by (auto simp: apart_tracks_def sabr_wf_def track_specs_def track_spec_def apart_sym apart_def)

definition work_files :: "sabr_options \<Rightarrow> int \<Rightarrow> string list" where
  "work_files opts parts =
     concat (map (\<lambda>t. download_path (tk_path t) # map (part_path (tk_path t)) [0..parts - 1]) (track_specs opts))"

definition targets :: "sabr_options \<Rightarrow> string set" where
  "targets opts = tk_path ` set (track_specs opts)"

lemma remove_paths_other: "q \<notin> set ps \<Longrightarrow> remove_paths fl ps d q = d q"
  by (induction ps arbitrary: d) (simp_all add: remove_paths_def os_remove_other)

lemma remove_paths_gone: "f_remove fl = (\<lambda>_. None) \<Longrightarrow> q \<in> set ps \<Longrightarrow> remove_paths fl ps d q = None"
proof (induction ps arbitrary: d)
  case Nil
  then show ?case by simp
next
  case (Cons p ps)
  show ?case
  proof (cases "q \<in> set ps")
    case True
    with Cons show ?thesis by (simp add: remove_paths_def)
  next
    case False
    with Cons.prems remove_paths_other [OF False, of fl "fst (os_remove fl p d)"] show ?thesis
      by (simp add: remove_paths_def os_remove_gone)
  qed
qed

lemma cleanup_work: "cleanup_download_files fl opts parts d = remove_paths fl (work_files opts parts) d"
  by (simp add: cleanup_download_files_def work_files_def)

lemma target_not_work:
  assumes "sabr_wf opts" and "t \<in> set (track_specs opts)"
  shows "tk_path t \<notin> set (work_files opts parts)"
proof -
  have "download_path (tk_path u) \<noteq> tk_path t \<and> part_path (tk_path u) p \<noteq> tk_path t"
    if "u \<in> set (track_specs opts)" for u p
    using sabr_paths [OF assms(1) that assms(2)] part_path_not_final download_path_not_final by blast
  then show ?thesis by (fastforce simp: work_files_def)
qed

text \<open>The contents of a finished track: its parts' payloads, the initialization from the first.\<close>

definition track_payload :: "(int \<Rightarrow> frame list) \<Rightarrow> int \<Rightarrow> stream_track \<Rightarrow> byte list" where
  "track_payload fs parts t = concat (map (\<lambda>p. payloads (p = 0) (frames_for t (fs p))) [0..parts - 1])"

definition tracks_complete :: "sabr_options \<Rightarrow> int \<Rightarrow> disk \<Rightarrow> bool" where
  "tracks_complete opts parts d \<longleftrightarrow>
     (\<exists>fs. (\<forall>p\<in>{0..<parts}. stream_format (track_specs opts) (fs p))
        \<and> (\<forall>t\<in>set (track_specs opts). d (tk_path t) = Some (track_payload fs parts t)))"

lemma attempt_done:
  assumes wf: "sabr_wf opts" and ok: "download_attempt lib env opts parts d = Some (d', added, None)"
  shows "tracks_complete opts parts d'"
proof -
  let ?run = "\<lambda>part ctx. download_part_with_retry lib (ae_try env part ctx) opts part parts"
  from ok obtain d1 d2 where p: "download_parts ?run (ae_schedule env) parts d = Some (d1, added, None)"
    and a: "assemble_download (ae_faults env) opts parts d1 = (d2, None)"
    and d': "d' = cleanup_download_files (ae_faults env) opts parts d2"
    by (auto simp: download_attempt_def split: option.splits prod.splits)
  have "part_done opts part d1" if "part \<in> {0..<parts}" for part
    using sabr_parts.parts_done [OF p] that wf by simp
  then obtain fs where fs: "\<And>p. p \<in> {0..<parts} \<Longrightarrow> stream_format (track_specs opts) (fs p)"
    and files: "\<And>p t. p \<in> {0..<parts} \<Longrightarrow> t \<in> set (track_specs opts) \<Longrightarrow>
        d1 (part_path (tk_path t) p) = Some (payloads (p = 0) (frames_for t (fs p)))"
    unfolding part_done_def by metis
  from a obtain d3 where as: "assemble_all (ae_faults env) (track_specs opts) parts d1 = (d3, None)"
    and c: "commit_all (ae_faults env) (track_specs opts) d3 = (d2, None)"
    by (auto simp: assemble_download_def split: prod.splits option.splits)
  have "d' (tk_path t) = Some (track_payload fs parts t)" if t: "t \<in> set (track_specs opts)" for t
  proof -
    have "d' (tk_path t) = d2 (tk_path t)"
      unfolding d' cleanup_work by (rule remove_paths_other [OF target_not_work [OF wf t]])
    also have "\<dots> = Some (all_parts (tk_path t) parts d1)"
      using commit_all_ok [OF c specs_apart [OF wf] t] assemble_all_ok [OF as specs_apart [OF wf] t] by simp
    also have "all_parts (tk_path t) parts d1 = track_payload fs parts t"
      unfolding all_parts_def track_payload_def
      using files t by (intro arg_cong [where f = concat] map_cong) (auto simp: contents_def)
    finally show ?thesis .
  qed
  with fs show ?thesis unfolding tracks_complete_def by blast
qed

lemma attempt_frame:
  assumes att: "download_attempt lib env opts parts d = Some (d', added, e)"
    and q: "q \<notin> set (work_files opts parts)" "q \<notin> targets opts"
  shows "d' q = d q"
proof -
  let ?run = "\<lambda>part ctx. download_part_with_retry lib (ae_try env part ctx) opts part parts"
  have "q \<notin> part_files opts part" if "part \<in> {0..<parts}" for part
    using q(1) that by (auto simp: work_files_def part_files_def)
  then have frame: "part \<in> {0..<parts} \<Longrightarrow> fst (?run part c d) q = d q" for part c d
    unfolding download_part_with_retry_def by (intro part_tries_frame download_part_frame) blast
  have dl: "q \<notin> (\<lambda>t. download_path (tk_path t)) ` set (track_specs opts)"
    using q(1) by (auto simp: work_files_def)
  have "fst (assemble_download fl opts parts d1) q = d1 q" for fl d1
    using assemble_all_other [OF dl] commit_all_other [OF dl] q(2)
    by (auto simp: assemble_download_def targets_def split: prod.splits option.splits) (metis fst_conv)+
  with att pool_frame [where run = ?run and parts = parts and q = q and d = d, OF frame] show ?thesis
    by (auto simp: download_attempt_def cleanup_work remove_paths_other [OF q(1)]
        split: option.splits prod.splits) (metis fst_conv)+
qed

lemma attempt_clean:
  assumes "download_attempt lib env opts parts d = Some (d', added, e)"
    and "f_remove (ae_faults env) = (\<lambda>_. None)" and "q \<in> set (work_files opts parts)"
  shows "d' q = None"
  using assms(1) remove_paths_gone [OF assms(2,3)]
  by (auto simp: download_attempt_def cleanup_work split: option.splits prod.splits)

lemma work_files_mono: "m \<le> n \<Longrightarrow> set (work_files opts m) \<subseteq> set (work_files opts n)"
  by (auto simp: work_files_def)

lemma part_count_range: "1 \<le> download_part_count opts \<and> download_part_count opts \<le> 12"
  by (simp add: download_part_count_def max_download_parts_def)

lemma loop_done:
  assumes wf: "sabr_wf opts"
  shows "download_loop lib envs opts n k plans lst d = Some (d', reports, None) \<Longrightarrow>
    \<exists>parts\<in>set plans. tracks_complete opts parts d'"
proof (induction plans arbitrary: k lst d reports)
  case Nil
  then show ?case by simp
next
  case (Cons parts plans)
  from Cons.prems consider added where "download_attempt lib (envs k) opts parts d = Some (d', added, None)"
    | d1 e reports' where "download_loop lib envs opts n (k + 1) plans e d1 = Some (d', reports', None)"
    by (auto split: option.splits prod.splits if_splits)
  then show ?case
    using attempt_done [OF wf] Cons.IH by cases auto
qed

lemma loop_frame:
  "download_loop lib envs opts n k plans lst d = Some (d', reports, r) \<Longrightarrow>
    \<forall>parts\<in>set plans. q \<notin> set (work_files opts parts) \<Longrightarrow> q \<notin> targets opts \<Longrightarrow> d' q = d q"
proof (induction plans arbitrary: k lst d reports r)
  case Nil
  then show ?case by simp
next
  case (Cons parts plans)
  from Cons.prems(1) obtain d1 added e where a: "download_attempt lib (envs k) opts parts d = Some (d1, added, e)"
    by (auto split: option.splits)
  have d1: "d1 q = d q" using attempt_frame [OF a] Cons.prems by simp
  from Cons.prems(1) a have "d' = d1 \<or> (\<exists>e reports' r'. download_loop lib envs opts n (k + 1) plans e d1 = Some (d', reports', r'))"
    by (auto split: option.splits if_splits)
  with Cons.IH Cons.prems d1 show ?case by fastforce
qed

lemma loop_clean:
  assumes nt: "q \<notin> targets opts" and rm: "\<And>k. f_remove (ae_faults (envs k)) = (\<lambda>_. None)"
    and mono: "\<And>parts. parts \<in> set plans \<Longrightarrow> parts \<le> m"
    and plans: "plans = m # rest"
    and run: "download_loop lib envs opts n k plans lst d = Some (d', reports, r)"
    and q: "q \<in> set (work_files opts m)"
  shows "d' q = None"
proof -
  have keep: "download_loop lib envs opts n k plans' lst d = Some (d', reports, r) \<Longrightarrow>
      \<forall>parts\<in>set plans'. parts \<le> m \<Longrightarrow> d q = None \<Longrightarrow> d' q = None" for k plans' lst d reports r
  proof (induction plans' arbitrary: k lst d reports r)
    case Nil
    then show ?case by simp
  next
    case (Cons parts plans')
    from Cons.prems(1) obtain d1 added e where a: "download_attempt lib (envs k) opts parts d = Some (d1, added, e)"
      by (auto split: option.splits)
    have d1: "d1 q = None"
      using attempt_frame [OF a _ nt] attempt_clean [OF a rm] Cons.prems(3) by metis
    from Cons.prems(1) a have "d' = d1 \<or> (\<exists>e reports' r'. download_loop lib envs opts n (k + 1) plans' e d1 = Some (d', reports', r'))"
      by (auto split: option.splits if_splits)
    with Cons.IH Cons.prems d1 show ?case by fastforce
  qed
  from run plans obtain d1 added e where a: "download_attempt lib (envs k) opts m d = Some (d1, added, e)"
    by (auto split: option.splits)
  have d1: "d1 q = None" by (rule attempt_clean [OF a rm q])
  from run plans a have "d' = d1 \<or> (\<exists>e reports' r'. download_loop lib envs opts n (k + 1) rest e d1 = Some (d', reports', r'))"
    by (auto split: option.splits if_splits)
  with keep mono plans d1 show ?thesis by fastforce
qed

lemma part_bytes_range: "is_i64 (part_bytes xs)"
proof (cases xs rule: rev_cases)
  case Nil
  then show ?thesis by (simp add: part_bytes_def is_i64_iff)
next
  case (snoc ys y)
  then show ?thesis by (simp add: part_bytes_def wrap64_range)
qed

lemma wrap64_idem: "is_i64 x \<Longrightarrow> wrap64 x = x"
  by (simp add: is_i64_iff wrap64_id)

lemma part_bytes_append: "part_bytes (xs @ ys) = wrap64 (part_bytes xs + part_bytes ys)"
proof (induction ys rule: rev_induct)
  case Nil
  have "wrap64 (part_bytes xs) = part_bytes xs" by (rule wrap64_idem [OF part_bytes_range])
  then show ?case by (simp add: part_bytes_def)
next
  case (snoc y ys)
  have "part_bytes (xs @ ys @ [y]) = wrap64 (part_bytes (xs @ ys) + y)" by (simp add: part_bytes_def)
  also have "\<dots> = wrap64 (part_bytes xs + part_bytes ys + y)" by (simp add: snoc wrap64_add_left)
  also have "\<dots> = wrap64 (part_bytes xs + part_bytes (ys @ [y]))"
    by (simp add: part_bytes_def wrap64_add_right ac_simps)
  finally show ?case by simp
qed

lemma rolled_back_zero: "part_bytes (rolled_back added) = 0"
proof -
  have "part_bytes (rolled_back added) = wrap64 (part_bytes added + wrap64 (- part_bytes added))"
    by (simp add: rolled_back_def part_bytes_def)
  then show ?thesis by (simp only: wrap64_add_right) (simp add: wrap64_def)
qed

lemma tries_counted:
  assumes "part_tries try envs attempts err d = (d', added, r)" and "attempts \<noteq> []" and "last attempts = part_attempts"
  shows "if r = None then \<exists>a d0 last_added. try a d0 = (d', last_added, None) \<and> part_bytes added = part_bytes last_added
         else part_bytes added = 0"
  using assms
proof (induction attempts arbitrary: err d added)
  case Nil
  then show ?case by simp
next
  case (Cons a as)
  obtain d1 first e where t: "try a d = (d1, first, e)" using prod_cases3 by blast
  show ?case
  proof (cases e)
    case None
    with t Cons.prems show ?thesis by auto
  next
    case (Some x)
    show ?thesis
    proof (cases "te_ctx (envs a) \<noteq> None \<or> a = part_attempts")
      case True
      with Cons.prems(1) t Some have "added = rolled_back first" "r = Some x" by auto
      then show ?thesis by (simp add: rolled_back_zero)
    next
      case stay: False
      show ?thesis
      proof (cases "te_delay (envs a)")
        case (Some w)
        with Cons.prems(1) t \<open>e = Some x\<close> stay have "added = rolled_back first" "r = Some w" by auto
        then show ?thesis by (simp add: rolled_back_zero)
      next
        case None
        with Cons.prems(1) t \<open>e = Some x\<close> stay obtain later where
          rec: "part_tries try envs as (Some x) d1 = (d', later, r)" and added: "added = rolled_back first @ later"
          by (auto split: prod.splits)
        have "as \<noteq> []" "last as = part_attempts" using Cons.prems(3) stay by (auto split: if_splits)
        from Cons.IH [OF rec this] show ?thesis
          by (simp add: added part_bytes_append rolled_back_zero wrap64_idem part_bytes_range)
      qed
    qed
  qed
qed

section \<open>The reporter\<close>

text \<open>The sections of the reporter, which may interleave in any order: the counter moves, and reports
  are made with any value, as the counter may have had it before.\<close>

inductive reporter_step :: "reporter \<Rightarrow> reporter \<Rightarrow> bool" where
  step_begin: "reporter_step r (begin_attempt now r)"
| step_count: "reporter_step r (reporter_count n r)"
| step_report: "reporter_step r (reporter_report v now r)"
| step_finish: "reporter_step r (reporter_finish r)"

inductive_cases reporter_stepE: "reporter_step r r'"

interpretation sabr_log: progress_log rp_calls rp_reported reporter_step
proof unfold_locales
  fix s s'
  assume "reporter_step s s'"
  then show "rp_reported s \<le> rp_reported s' \<and> (rp_calls s' = rp_calls s
      \<or> (\<exists>v. rp_reported s < v \<and> v \<le> rp_reported s' \<and> rp_calls s' = rp_calls s @ [v]))"
    by (rule reporter_stepE)
       (simp_all add: begin_attempt_def reporter_count_def reporter_report_def reporter_finish_def)
qed

section \<open>Properties\<close>


text \<open>A file that is not one of the two targets is gone when it is a working file, and kept otherwise.\<close>

lemma sabr_download_tidy:
  assumes "q \<notin> targets opts" and "\<And>k. f_remove (ae_faults (envs k)) = (\<lambda>_. None)"
    and "download lib envs opts d = Some (d', reports, r)"
  shows "d' q = (if q \<in> set (work_files opts (download_part_count opts)) then None else d q)"
proof (cases "q \<in> set (work_files opts (download_part_count opts))")
  case True
  have "d' q = None"
    by (rule loop_clean [OF assms(1,2) _ _ assms(3) [unfolded download_def] True,
          where rest = "if download_part_count opts > 1 then [1] else []"])
       (use part_count_range [of opts] in \<open>auto simp: download_plans_def split: if_splits\<close>)
  with True show ?thesis by simp
next
  case False
  have "q \<notin> set (work_files opts parts)" if "parts \<in> set (download_plans opts)" for parts
    using that False work_files_mono [of parts "download_part_count opts" opts] part_count_range [of opts]
    by (auto simp: download_plans_def split: if_splits)
  with loop_frame [OF assms(3) [unfolded download_def], of q] False assms(1) show ?thesis by auto
qed

text \<open>Whether it succeeds or fails, a SABR download leaves none of its working files behind and
  touches no file but its targets.\<close>

theorem sabr_download_clean:
  assumes "sabr_wf opts" and "\<And>k. f_remove (ae_faults (envs k)) = (\<lambda>_. None)"
    and "download lib envs opts d = Some (d', reports, r)"
  shows "(q \<in> set (work_files opts (download_part_count opts)) \<longrightarrow> d' q = None)
    \<and> (q \<notin> set (work_files opts (download_part_count opts)) \<union> targets opts \<longrightarrow> d' q = d q)"
proof -
  have "q \<in> set (work_files opts (download_part_count opts)) \<Longrightarrow> q \<notin> targets opts"
    using target_not_work [OF assms(1)] by (auto simp: targets_def)
  with sabr_download_tidy [OF _ assms(2,3), of q] show ?thesis by auto
qed

text \<open>The workers always come to an end: if each of the three gets its turn often enough, whatever
  the parts do and whoever cancels, all of them leave and the download of the parts returns.\<close>

theorem sabr_workers_finish:
  assumes "0 < parts" and "\<forall>round\<in>set rounds. \<forall>i<3. Act i \<in> set round"
    and "2 * nat parts + 3 \<le> length rounds"
  shows "download_parts run (concat rounds) parts d \<noteq> None"
  by (rule pool_finishes [OF assms])

text \<open>Retrying a part leaves no trace in the progress: what a part has added to the counter is, in
  the end, the bytes of its successful try, or nothing when it fails.\<close>

theorem sabr_retry_progress:
  assumes "download_part_with_retry lib envs opts part parts d = (d', added, r)"
  shows "if r = None
    then \<exists>attempt d0 last_added. download_part lib (te_part (envs attempt)) opts part parts d0 = (d', last_added, None)
       \<and> part_bytes added = part_bytes last_added
    else part_bytes added = 0"
  using tries_counted [OF assms [unfolded download_part_with_retry_def]]
  by (simp add: part_attempts_def upto.simps)

text \<open>However adding, rolling back, retrying and finishing interleave, the progress function is
  called with strictly increasing positive values: the shown progress never goes back.\<close>

theorem sabr_progress_increases:
  assumes "reporter_step\<^sup>*\<^sup>* (new_reporter b now) r"
  shows "sorted_wrt (<) (rp_calls r)"
proof -
  have "sabr_log.rising (new_reporter b now)" by (simp add: sabr_log.rising_def new_reporter_def)
  with sabr_log.rising_steps [OF assms] show ?thesis by (simp add: sabr_log.rising_def)
qed

lemma sabr_progress_increases_witness:
  "rp_calls (reporter_finish (reporter_count 40 (begin_attempt 400000000
     (reporter_report 30 300000000 (reporter_count 30 (new_reporter True 0)))))) = [30, 40]
   \<and> sorted_wrt (<) [30, 40 :: int]"
proof -
  let ?r = "reporter_finish (reporter_count 40 (begin_attempt 400000000
     (reporter_report 30 300000000 (reporter_count 30 (new_reporter True 0)))))"
  have "reporter_step\<^sup>*\<^sup>* (new_reporter True 0) ?r"
    by (meson reporter_step.intros rtranclp.rtrancl_into_rtrancl rtranclp.rtrancl_refl)
  from sabr_progress_increases [OF this] have "sorted_wrt (<) (rp_calls ?r)" .
  moreover have "rp_calls ?r = [30, 40]"
    by (simp add: reporter_finish_def reporter_count_def begin_attempt_def reporter_report_def
        new_reporter_def wrap64_def sub_time_def max_i64_def min_i64_def)
  ultimately show ?thesis by simp
qed

lemma sabr_workers_finish_witness:
  "download_parts (\<lambda>_ _ d. (d, [], None)) (concat (replicate 11 [Act 0, Act 1, Act 2])) 4 Map.empty \<noteq> None"
  by (rule sabr_workers_finish) (auto simp: less_Suc_eq numeral_3_eq_3)

text \<open>A download of one audio track in one part.\<close>

definition sample_sabr :: sabr_options where
  "sample_sabr = \<lparr>sb_manifest_url = ''u'', sb_authorization = [], sb_video_itag = 0, sb_audio_itag = 140,
     sb_audio_track_id = [], sb_audio_only = True, sb_video_path = [], sb_audio_path = ''a'',
     sb_expected_bytes = 3, sb_parts = 0, sb_idle_timeout = 0\<rparr>"

definition sample_audio_frames :: "frame list" where
  "sample_audio_frames =
     [\<lparr>f_kind = 1, f_itag = 140, f_seq = 0, f_payload = [10]\<rparr>,
      \<lparr>f_kind = 2, f_itag = 140, f_seq = 4, f_payload = [11, 12]\<rparr>]"

definition sample_attempt :: attempt_env where
  "sample_attempt =
     \<lparr>ae_try = \<lambda>_ _ _. \<lparr>te_part = \<lparr>pe_client = \<lambda>_. Inr \<lparr>rs_status = 200, rs_status_line = ''200 OK'',
          rs_headers = [''Content-Type'' \<mapsto> download_media_type], rs_length = - 1,
          rs_body = \<lparr>r_data = encode_stream sample_audio_frames, r_end = Eof\<rparr>\<rparr>,
        pe_faults = no_faults, pe_room = \<lambda>_. None, pe_cause = None\<rparr>, te_ctx = None, te_delay = None\<rparr>,
      ae_schedule = [Act 0, Act 0, Act 0], ae_faults = no_faults, ae_ctx = None, ae_delay = None\<rparr>"

lemma sample_media_type: "trim_space (hd (split_at (CHR '';'') download_media_type)) = download_media_type"
  by code_simp

lemma sample_part_path: "part_path ''a'' 0 = ''a.download.part-00''"
  by code_simp

definition sample_open_track :: stream_track where
  "sample_open_track = (track_spec ''audio'' 140 ''a'')\<lparr>tk_path := part_path ''a'' 0,
     tk_output := Some \<lparr>out_data = [], out_room = None\<rparr>\<rparr>"

lemma sample_stream:
  "\<exists>t. consume_download_stream True \<lparr>r_data = encode_stream sample_audio_frames, r_end = Eof\<rparr> [sample_open_track]
      = (\<lparr>r_data = [], r_end = Eof\<rparr>, [t], [1, 2], None)
    \<and> tk_path t = part_path ''a'' 0 \<and> open_output t [10, 11, 12]"
proof -
  have sel: "selected [sample_open_track]"
    by (simp add: selected_def sample_open_track_def track_spec_def fresh_track_def open_output_def)
  have ff: "frames_for sample_open_track sample_audio_frames = sample_audio_frames"
    by (simp add: frames_for_def sample_open_track_def track_spec_def sample_audio_frames_def)
  have "track_format sample_audio_frames"
    unfolding track_format_def
    by (intro exI [of _ "sample_audio_frames ! 0"] exI [of _ "[sample_audio_frames ! 1]"] exI [of _ 4])
       (simp add: sample_audio_frames_def frame_kinds)
  then have fmt: "stream_format [sample_open_track] sample_audio_frames"
    unfolding stream_format_def
    by (simp add: ff) (simp add: sample_audio_frames_def frame_valid_def frame_kinds max_frame_bytes_value
        sample_open_track_def track_spec_def)
  have p: "payloads True sample_audio_frames = [10, 11, 12]" "counted True sample_audio_frames = [1, 2]"
    by (simp_all add: payloads_def counted_def sample_audio_frames_def discards_def)
  from stream_encoded [OF sel fmt, where wi = True and rest = "[]" and e = Eof] obtain ts' where
    c: "consume_download_stream True \<lparr>r_data = encode_stream sample_audio_frames, r_end = Eof\<rparr> [sample_open_track]
      = (\<lparr>r_data = [], r_end = Eof\<rparr>, ts', [1, 2], None)"
    and l: "length ts' = 1" and o: "open_output (ts' ! 0) [10, 11, 12]" by (auto simp: p ff)
  from l obtain t where t: "ts' = [t]" by (cases ts') auto
  have "tk_path t = part_path ''a'' 0"
    using consume_stream_paths [of True "\<lparr>r_data = encode_stream sample_audio_frames, r_end = Eof\<rparr>" "[sample_open_track]"] c
    by (simp add: t sample_open_track_def)
  with c o t show ?thesis by auto
qed

lemma sample_part:
  "download_part sample_lib (te_part (ae_try sample_attempt 0 ctx 1)) sample_sabr 0 1 d
     = (d(part_path ''a'' 0 \<mapsto> [10, 11, 12]), [1, 2], None)"
proof -
  from sample_stream obtain t where
    c: "consume_download_stream True \<lparr>r_data = encode_stream sample_audio_frames, r_end = Eof\<rparr> [sample_open_track]
      = (\<lparr>r_data = [], r_end = Eof\<rparr>, [t], [1, 2], None)"
    and t: "tk_path t = part_path ''a'' 0" "open_output t [10, 11, 12]" by blast
  have trim: "trim_space ''a'' = ''a''" by code_simp
  have o: "open_part_tracks no_faults (\<lambda>_. None) sample_sabr 0 d
      = (d(part_path ''a'' 0 \<mapsto> []), Inr [sample_open_track])"
    by (simp add: open_part_tracks_def track_specs_def track_spec_def sample_sabr_def sample_open_track_def
        trim Let_def)
  have r: "request_download sample_lib (pe_client (te_part (ae_try sample_attempt 0 ctx 1))) u []
     = Inr \<lparr>rs_status = 200, rs_status_line = ''200 OK'',
          rs_headers = [''Content-Type'' \<mapsto> download_media_type], rs_length = - 1,
          rs_body = \<lparr>r_data = encode_stream sample_audio_frames, r_end = Eof\<rparr>\<rparr>" for u
    by (simp add: request_download_def new_request_def sample_lib_def sample_attempt_def header_get_def
        sample_media_type Let_def)
  show ?thesis
    using r o c t
    by (simp add: download_part_def build_download_url_def sample_lib_def sample_sabr_def Let_def
        sample_attempt_def flush_tracks_def open_output_def close_error_def)
qed

lemma sample_download:
  "\<exists>d' reports. download sample_lib (\<lambda>_. sample_attempt) sample_sabr Map.empty = Some (d', reports, None)"
proof -
  let ?run = "\<lambda>part ctx. download_part_with_retry sample_lib (ae_try sample_attempt part ctx) sample_sabr part 1"
  have run: "?run 0 ctx d = (d(part_path ''a'' 0 \<mapsto> [10, 11, 12]), [1, 2], None)" for ctx d
    using sample_part [of ctx d]
    by (simp add: download_part_with_retry_def part_attempts_def upto.simps sample_attempt_def)
  have "download_parts ?run [Act 0, Act 0, Act 0] 1 Map.empty
      = Some ([part_path ''a'' 0 \<mapsto> [10, 11, 12]], [1, 2], None)"
    by (simp add: download_parts_def new_pool_def max_concurrent_part_downloads_def pool_act_def
        worker_take_def worker_finish_def run pool_error_def Let_def upto.simps)
  moreover have "part_path ''a'' 0 \<noteq> ''a.download''" by (simp add: sample_part_path)
  ultimately have "\<exists>d' added. download_attempt sample_lib sample_attempt sample_sabr 1 Map.empty = Some (d', added, None)"
    by (simp add: download_attempt_def sample_attempt_def assemble_download_def track_specs_def track_spec_def
        sample_sabr_def assemble_track_def download_path_def upto.simps os_open_def io_copy_def os_rename_def)
  then show ?thesis
    by (auto simp: download_def download_plans_def download_part_count_def sample_sabr_def push_bit_eq_mult)
qed

lemma sample_sabr_wf: "sabr_wf sample_sabr"
  by (simp add: sabr_wf_def sample_sabr_def)


lemma sabr_download_clean_witness:
  "\<exists>d' reports. download sample_lib (\<lambda>_. sample_attempt) sample_sabr Map.empty = Some (d', reports, None)
     \<and> d' (part_path ''a'' 0) = None \<and> d' ''other'' = None"
proof -
  from sample_download obtain d' reports where
    run: "download sample_lib (\<lambda>_. sample_attempt) sample_sabr Map.empty = Some (d', reports, None)" by blast
  have rm: "\<And>k :: int. f_remove (ae_faults sample_attempt) = (\<lambda>_. None)" by (simp add: sample_attempt_def no_faults_def)
  have n: "download_part_count sample_sabr = 1"
    by (simp add: download_part_count_def sample_sabr_def push_bit_eq_mult)
  have w: "part_path ''a'' 0 \<in> set (work_files sample_sabr 1)" "''other'' \<notin> targets sample_sabr"
    by (simp_all add: work_files_def track_specs_def track_spec_def sample_sabr_def targets_def)
  from sabr_download_clean [OF sample_sabr_wf rm run, of "part_path ''a'' 0"]
    sabr_download_clean [OF sample_sabr_wf rm run, of "''other''"] w n
  have "d' (part_path ''a'' 0) = None" "d' ''other'' = None" by (simp_all split: if_splits)
  with run show ?thesis by blast
qed

lemma sabr_retry_progress_witness:
  "part_bytes (fst (snd (download_part_with_retry sample_lib (ae_try sample_attempt 0 None) sample_sabr 0 1 Map.empty))) = 3"
proof -
  have run: "download_part_with_retry sample_lib (ae_try sample_attempt 0 None) sample_sabr 0 1 Map.empty
      = ([part_path ''a'' 0 \<mapsto> [10, 11, 12]], [1, 2], None)"
    using sample_part [of None Map.empty]
    by (simp add: download_part_with_retry_def part_attempts_def upto.simps sample_attempt_def)
  from sabr_retry_progress [OF run] show ?thesis
    by (simp add: run) (simp add: part_bytes_def wrap64_def)
qed

end
