(* ===== verification/Sabr_Watchdog.thy ===== *)
theory Sabr_Watchdog
  imports Sabr_Download
begin

text \<open>
  \<open>internal/sabr/idle_timeout.go\<close>: the watchdog that cancels a part whose stream gives nothing for too
  long, over the times of the reads. It cancels only after a silence as long as the timeout; with a
  timer that fires on time it cancels at the first such moment, after at most one firing for each read
  and one more.
\<close>

section \<open>The watchdog\<close>

record watchdog =
  wd_last :: time
  wd_timeout :: int

text \<open>The new watchdog has just been touched; its timer is set to its timeout.\<close>

definition new_idle_watchdog :: "int \<Rightarrow> time \<Rightarrow> watchdog" where
  "new_idle_watchdog timeout now = \<lparr>wd_last = now, wd_timeout = idle_timeout timeout\<rparr>"

text \<open>A read of the stream, at its time: it touches the watchdog when it has data.\<close>

definition activity_read :: "watchdog \<Rightarrow> time \<times> byte list \<Rightarrow> watchdog" where
  "activity_read w r = (if snd r \<noteq> [] then w\<lparr>wd_last := fst r\<rparr> else w)"

text \<open>The watchdog as its goroutine sees it at \<open>now\<close>.\<close>

definition watchdog_at :: "watchdog \<Rightarrow> (time \<times> byte list) list \<Rightarrow> time \<Rightarrow> watchdog" where
  "watchdog_at w reads now = foldl activity_read w (filter (\<lambda>r. fst r \<le> now) reads)"

datatype watch_event = Ended | Fired time

datatype watch_end = Watching | Stopped | Gave_up time error

text \<open>The loop of \<open>run\<close>, over the cases its \<open>select\<close> takes: how it ended, still watching when the events
  are used up, and what it set the timer to.\<close>

fun watchdog_run ::
  "(int \<Rightarrow> string) \<Rightarrow> watchdog \<Rightarrow> (time \<times> byte list) list \<Rightarrow> watch_event list \<Rightarrow> int list \<times> watch_end" where
  "watchdog_run show_duration w reads [] = ([], Watching)"
| "watchdog_run show_duration w reads (Ended # events) = ([], Stopped)"
| "watchdog_run show_duration w reads (Fired now # events) =
     (case watchdog_fire show_duration (wd_timeout w) now (wd_last (watchdog_at w reads now)) of
        Inl e \<Rightarrow> ([], Gave_up now e)
      | Inr delay \<Rightarrow>
          (case watchdog_run show_duration w reads events of (resets, verdict) \<Rightarrow> (delay # resets, verdict)))"

section \<open>When it gives up\<close>

text \<open>The reads come in the order of their times, after the start.\<close>

definition in_order :: "watchdog \<Rightarrow> (time \<times> byte list) list \<Rightarrow> bool" where
  "in_order w reads \<longleftrightarrow> sorted (map fst reads) \<and> (\<forall>r\<in>set reads. wd_last w \<le> fst r)"

definition active_times :: "(time \<times> byte list) list \<Rightarrow> time set" where
  "active_times reads = fst ` {r \<in> set reads. snd r \<noteq> []}"

text \<open>The timer fires when it is due, and the part does not end.\<close>

fun on_time :: "watchdog \<Rightarrow> (time \<times> byte list) list \<Rightarrow> time \<Rightarrow> watch_event list \<Rightarrow> bool" where
  "on_time w reads due [] = True"
| "on_time w reads due (Ended # events) = False"
| "on_time w reads due (Fired now # events) =
     (now = due \<and> on_time w reads (wd_last (watchdog_at w reads now) + wd_timeout w) events)"

lemma watchdog_at_simps:
  "wd_timeout (watchdog_at w reads now) = wd_timeout w"
  by (induction reads arbitrary: w) (simp_all add: watchdog_at_def activity_read_def)

lemma last_touch:
  assumes "in_order w reads"
  shows "wd_last (watchdog_at w reads now) = Max (insert (wd_last w) {t \<in> active_times reads. t \<le> now})"
  using assms
proof (induction reads arbitrary: w)
  case Nil
  then show ?case by (simp add: watchdog_at_def active_times_def)
next
  case (Cons r reads)
  let ?S = "{t \<in> active_times reads. t \<le> now}"
  have fin: "finite ?S" by (simp add: active_times_def)
  show ?case
  proof (cases "fst r \<le> now \<and> snd r \<noteq> []")
    case True
    have o: "in_order (w\<lparr>wd_last := fst r\<rparr>) reads" and le: "wd_last w \<le> fst r"
      using Cons.prems by (auto simp: in_order_def)
    have "{t \<in> active_times (r # reads). t \<le> now} = insert (fst r) ?S"
      using True by (auto simp: active_times_def)
    moreover have "wd_last (watchdog_at w (r # reads) now) = Max (insert (fst r) ?S)"
      using Cons.IH [OF o] True by (simp add: watchdog_at_def activity_read_def)
    moreover have "wd_last w \<le> Max (insert (fst r) ?S)"
      using fin by (intro order_trans [OF le] Max_ge) simp_all
    then have "Max (insert (wd_last w) (insert (fst r) ?S)) = Max (insert (fst r) ?S)"
      using fin by (simp only: Max_insert finite_insert insert_not_empty max.absorb2 not_False_eq_True)
    ultimately show ?thesis by simp
  next
    case False
    have o: "in_order w reads" using Cons.prems by (auto simp: in_order_def)
    have "{t \<in> active_times (r # reads). t \<le> now} = ?S"
      using False by (auto simp: active_times_def)
    moreover have "watchdog_at w (r # reads) now = watchdog_at w reads now"
      using False by (auto simp: watchdog_at_def activity_read_def)
    ultimately show ?thesis using Cons.IH [OF o] by simp
  qed
qed

lemma fire_iff:
  assumes "0 < timeout" and "timeout \<le> max_i64"
  shows "(\<exists>e. watchdog_fire show_duration timeout now touched = Inl e) \<longleftrightarrow> touched + timeout \<le> now"
    and "touched \<le> now \<Longrightarrow> now < touched + timeout \<Longrightarrow>
      watchdog_fire show_duration timeout now touched = Inr (touched + timeout - now)"
  using assms by (auto simp: watchdog_fire_def sub_time_def max_i64_def min_i64_def Let_def)

lemma idle_timeout_range: "is_i64 timeout \<Longrightarrow> 0 < idle_timeout timeout \<and> idle_timeout timeout \<le> max_i64"
  by (auto simp: idle_timeout_def default_download_idle_timeout_def is_i64_def max_i64_def)

text \<open>A silence of the length of the timeout ends at \<open>now\<close>.\<close>

definition silent :: "watchdog \<Rightarrow> (time \<times> byte list) list \<Rightarrow> time \<Rightarrow> bool" where
  "silent w reads now \<longleftrightarrow> wd_last w + wd_timeout w \<le> now
     \<and> (\<forall>t\<in>active_times reads. t \<le> now \<longrightarrow> t + wd_timeout w \<le> now)"

lemma silent_iff:
  assumes "in_order w reads"
  shows "silent w reads now \<longleftrightarrow> wd_last (watchdog_at w reads now) + wd_timeout w \<le> now"
proof -
  have fin: "finite {t \<in> active_times reads. t \<le> now}" by (simp add: active_times_def)
  have "wd_last (watchdog_at w reads now) + wd_timeout w \<le> now \<longleftrightarrow>
      (\<forall>t\<in>insert (wd_last w) {t \<in> active_times reads. t \<le> now}. t \<le> now - wd_timeout w)"
    unfolding last_touch [OF assms] le_diff_eq [symmetric] using fin by (intro Max_le_iff) simp_all
  then show ?thesis by (auto simp: silent_def le_diff_eq)
qed

lemma gives_up_silent:
  assumes "in_order w reads" and "0 < wd_timeout w" "wd_timeout w \<le> max_i64"
    and "watchdog_run show_duration w reads events = (resets, Gave_up now e)"
  shows "silent w reads now \<and> Fired now \<in> set events
    \<and> e = Wrap [] (Err ''SABR download stream timed out'') ('' after '' @ show_duration (wd_timeout w))"
  using assms(4)
proof (induction events arbitrary: resets)
  case (Cons ev events)
  show ?case
  proof (cases ev)
    case (Fired t)
    show ?thesis
    proof (cases "watchdog_fire show_duration (wd_timeout w) t (wd_last (watchdog_at w reads t))")
      case (Inl x)
      with fire_iff(1) [OF assms(2,3)] have "silent w reads t" unfolding silent_iff [OF assms(1)] by blast
      moreover have "x = Wrap [] (Err ''SABR download stream timed out'') ('' after '' @ show_duration (wd_timeout w))"
        using Inl by (auto simp: watchdog_fire_def Let_def split: if_splits)
      ultimately show ?thesis using Inl Cons.prems Fired by simp
    next
      case (Inr x)
      with Cons Fired show ?thesis by (auto split: prod.splits)
    qed
  qed (use Cons.prems in simp)
qed simp

text \<open>Each firing that does not give up has seen a read after the one before it.\<close>

lemma gives_up_in_time:
  assumes "in_order w reads" and "0 < wd_timeout w" "wd_timeout w \<le> max_i64"
  shows "t0 \<in> insert (wd_last w) (active_times reads) \<Longrightarrow> on_time w reads (t0 + wd_timeout w) events \<Longrightarrow>
    card {t \<in> active_times reads. t0 < t} < length events \<Longrightarrow>
    \<exists>resets now e. watchdog_run show_duration w reads events = (resets, Gave_up now e)
      \<and> (\<forall>d. t0 + wd_timeout w \<le> d \<and> d < now \<longrightarrow> \<not> silent w reads d)"
proof (induction events arbitrary: t0)
  case (Cons ev events)
  define due where "due = t0 + wd_timeout w"
  define t1 where "t1 = wd_last (watchdog_at w reads due)"
  have ev: "ev = Fired due" and later: "on_time w reads (t1 + wd_timeout w) events"
    using Cons.prems(2) by (cases ev; simp add: due_def t1_def)+
  have fin: "finite (active_times reads)" by (simp add: active_times_def)
  have t1: "t1 = Max (insert (wd_last w) {t \<in> active_times reads. t \<le> due})"
    unfolding t1_def by (rule last_touch [OF assms(1)])
  have "t0 \<le> due" "wd_last w \<le> t0"
    using Cons.prems(1) assms(1,2) by (auto simp: due_def in_order_def active_times_def)
  then have le: "t0 \<le> t1" "t1 \<le> due"
    unfolding t1 using Cons.prems(1) fin by (auto intro: Max_ge)
  have mem: "t1 \<in> insert (wd_last w) (active_times reads)"
    using Max_in [of "insert (wd_last w) {t \<in> active_times reads. t \<le> due}"] fin unfolding t1 by auto
  show ?case
  proof (cases "t1 = t0")
    case True
    then obtain e where "watchdog_fire show_duration (wd_timeout w) due t1 = Inl e"
      using fire_iff(1) [OF assms(2,3)] due_def by blast
    then show ?thesis unfolding ev due_def [symmetric] by (intro exI [of _ "[]"] exI [of _ due] exI [of _ e]) (auto simp: t1_def)
  next
    case False
    then have lt: "t0 < t1" using le by simp
    with mem \<open>wd_last w \<le> t0\<close> have "t1 \<in> {t \<in> active_times reads. t0 < t}" by auto
    then have "{t \<in> active_times reads. t1 < t} \<subset> {t \<in> active_times reads. t0 < t}" using lt by auto
    then have "card {t \<in> active_times reads. t1 < t} < card {t \<in> active_times reads. t0 < t}"
      using fin by (intro psubset_card_mono) auto
    with Cons.prems(3) have "card {t \<in> active_times reads. t1 < t} < length events" by simp
    from Cons.IH [OF mem later this] obtain resets now e
      where run: "watchdog_run show_duration w reads events = (resets, Gave_up now e)"
        and first: "\<forall>d. t1 + wd_timeout w \<le> d \<and> d < now \<longrightarrow> \<not> silent w reads d" by blast
    have "\<not> silent w reads d" if "due \<le> d" "d < now" for d
    proof (cases "t1 + wd_timeout w \<le> d")
      case False
      with that mem le \<open>wd_last w \<le> t0\<close> lt show ?thesis by (auto simp: silent_def intro!: bexI [of _ t1])
    qed (use first that in blast)
    moreover have "watchdog_fire show_duration (wd_timeout w) due t1 = Inr (t1 + wd_timeout w - due)"
      using le lt by (intro fire_iff(2) [OF assms(2,3)]) (simp_all add: due_def)
    ultimately show ?thesis using run unfolding ev due_def [symmetric] by (simp add: t1_def)
  qed
qed simp



end
