(* ===== verification/Artifact_Paths.thy ===== *)
theory Artifact_Paths
  imports Go_Files
begin

text \<open>
  Package \<open>internal/artifact\<close> (\<open>paths.go\<close>, \<open>local.go\<close>, \<open>store.go\<close>): where a job works and where its
  artifact goes, and the store that keeps artifacts on the local disk. \<open>path/filepath\<close> is the
  lexical one of Unix.
\<close>

section \<open>path/filepath\<close>

text \<open>\<open>Clean\<close>: empty and \<open>.\<close> elements are dropped, \<open>..\<close> takes the element before it with it, or is
  dropped at the root.\<close>

definition clean_step :: "bool \<Rightarrow> string list \<Rightarrow> string \<Rightarrow> string list" where
  "clean_step rooted stack e =
     (if e = [] \<or> e = ''.'' then stack
      else if e = ''..'' then
        (if stack \<noteq> [] \<and> last stack \<noteq> ''..'' then butlast stack
         else if rooted then stack else stack @ [e])
      else stack @ [e])"

definition rooted :: "string \<Rightarrow> bool" where
  "rooted p \<longleftrightarrow> (case p of [] \<Rightarrow> False | c # _ \<Rightarrow> c = CHR ''/'')"

definition elements :: "string \<Rightarrow> string list" where
  "elements p = foldl (clean_step (rooted p)) [] (split_at (CHR ''/'') p)"

fun join_slash :: "string list \<Rightarrow> string" where
  "join_slash [] = []"
| "join_slash [e] = e"
| "join_slash (e # es) = e @ CHR ''/'' # join_slash es"

definition render_path :: "bool \<Rightarrow> string list \<Rightarrow> string" where
  "render_path root es =
     (if root then CHR ''/'' # join_slash es else if es = [] then ''.'' else join_slash es)"

definition clean_path :: "string \<Rightarrow> string" where
  "clean_path p = render_path (rooted p) (elements p)"

text \<open>\<open>Join\<close> cleans what follows the first element that is not empty.\<close>

definition join_path :: "string list \<Rightarrow> string" where
  "join_path es =
     (case dropWhile (\<lambda>e. e = []) es of [] \<Rightarrow> [] | es' \<Rightarrow> clean_path (join_slash es'))"

text \<open>\<open>Dir\<close>: what is before the last slash, cleaned.\<close>

definition dir_path :: "string \<Rightarrow> string" where
  "dir_path p = clean_path (rev (dropWhile (\<lambda>c. c \<noteq> CHR ''/'') (rev p)))"

section \<open>Names\<close>

definition safe_char :: "char \<Rightarrow> bool" where
  "safe_char c \<longleftrightarrow>
     (let n = (of_char c :: nat)
      in 97 \<le> n \<and> n \<le> 122 \<or> 65 \<le> n \<and> n \<le> 90 \<or> 48 \<le> n \<and> n \<le> 57
         \<or> c = CHR ''-'' \<or> c = CHR ''_'' \<or> c = CHR ''.'')"

text \<open>The loop visits the characters; the model visits the bytes. The bytes of a character above 127
  are all unsafe, and the ones after the first find the underscore in place, or the name empty.\<close>

definition safe_step :: "string \<Rightarrow> char \<Rightarrow> string" where
  "safe_step acc c =
     (if safe_char c then acc @ [c]
      else if acc \<noteq> [] \<and> last acc \<noteq> CHR ''_'' then acc @ ''_'' else acc)"

definition safe_name :: "string \<Rightarrow> string" where
  "safe_name v =
     (if trim_space v = [] then [] else trim_chars ''_.'' (foldl safe_step [] (trim_space v)))"

definition audio_ext :: "string \<Rightarrow> string" where
  "audio_ext container = (if container = ''webm'' then ''webm'' else ''m4a'')"

section \<open>Paths\<close>

record paths =
  ap_work_dir :: string
  ap_video :: string
  ap_audio :: string
  ap_output :: string
  ap_key :: string
  ap_name :: string

definition file_name :: "string \<Rightarrow> string \<Rightarrow> string \<Rightarrow> string" where
  "file_name job title container =
     (if safe_name title = [] then job else safe_name title) @ ''.'' @ container"

definition build_paths :: "string \<Rightarrow> string \<Rightarrow> string \<Rightarrow> string \<Rightarrow> paths" where
  "build_paths data job title container =
     (let work_dir = join_path [data, ''jobs'', job]
      in \<lparr>ap_work_dir = work_dir,
          ap_video = join_path [work_dir, ''video.'' @ container],
          ap_audio = join_path [work_dir, ''audio.'' @ audio_ext container],
          ap_output = join_path [data, ''artifacts'', job, file_name job title container],
          ap_key = ''artifacts/'' @ job @ ''/'' @ file_name job title container,
          ap_name = file_name job title container\<rparr>)"

section \<open>The local store\<close>

record saved =
  sv_backend :: string
  sv_location :: string
  sv_expires :: "time option"

text \<open>The zero time stands for an artifact that does not expire: \<open>None\<close>.\<close>

definition local_save :: "string \<Rightarrow> string \<Rightarrow> saved result" where
  "local_save path key = Inr \<lparr>sv_backend = ''local'', sv_location = path, sv_expires = None\<rparr>"

text \<open>An error is \<open>os.IsNotExist\<close> when the file is not there.\<close>

definition local_delete :: "faults \<Rightarrow> saved \<Rightarrow> disk \<Rightarrow> disk \<times> error option" where
  "local_delete fl sv d =
     (if sv_location sv = [] then (d, None)
      else case os_remove fl (sv_location sv) d of
        (d', Some e) \<Rightarrow> if d (sv_location sv) = None then (d', None) else (d', Some e)
      | (d', None) \<Rightarrow> (d', None))"

section \<open>Cleaning\<close>

text \<open>A path element that names an entry of a directory.\<close>

definition plain :: "string \<Rightarrow> bool" where
  "plain e \<longleftrightarrow> e \<noteq> [] \<and> e \<noteq> ''.'' \<and> e \<noteq> ''..'' \<and> CHR ''/'' \<notin> set e"

text \<open>The lists of elements that cleaning leaves: \<open>..\<close> only in front, and not at the root.\<close>

definition normal_path :: "bool \<Rightarrow> string list \<Rightarrow> bool" where
  "normal_path root es \<longleftrightarrow>
     (\<exists>k ps. es = replicate k ''..'' @ ps \<and> list_all plain ps \<and> (root \<longrightarrow> k = 0))"

lemma clean_step_plain: "plain e \<Longrightarrow> clean_step root stack e = stack @ [e]"
  by (simp add: clean_step_def plain_def)

lemma clean_plain: "list_all plain es \<Longrightarrow> foldl (clean_step root) stack es = stack @ es"
  by (induction es arbitrary: stack) (simp_all add: clean_step_plain)

lemma clean_dots: "foldl (clean_step False) (replicate j ''..'') (replicate k ''..'') = replicate (j + k) ''..''"
proof (induction k arbitrary: j)
  case 0
  then show ?case by simp
next
  case (Suc k)
  have "clean_step False (replicate j ''..'') ''..'' = replicate (Suc j) ''..''"
    by (cases j) (auto simp: clean_step_def replicate_append_same)
  with Suc [of "Suc j"] show ?case by simp
qed

lemma clean_normal: "normal_path root es \<Longrightarrow> foldl (clean_step root) [] es = es"
proof -
  assume "normal_path root es"
  then obtain k ps where es: "es = replicate k ''..'' @ ps" and ps: "list_all plain ps" and k: "root \<longrightarrow> k = 0"
    by (auto simp: normal_path_def)
  have "foldl (clean_step root) [] (replicate k ''..'') = replicate k ''..''"
    using clean_dots [of 0 k] k by (cases root) simp_all
  with es ps show ?thesis by (simp add: clean_plain)
qed

lemma normal_step:
  assumes "normal_path root es" and "CHR ''/'' \<notin> set e"
  shows "normal_path root (clean_step root es e)"
proof -
  obtain k ps where es: "es = replicate k ''..'' @ ps" and ps: "list_all plain ps" and k: "root \<longrightarrow> k = 0"
    using assms(1) by (auto simp: normal_path_def)
  consider "e = [] \<or> e = ''.''" | "e = ''..''" "ps = []" | q p where "e = ''..''" "ps = q @ [p]" | "plain e"
    using assms(2) by (cases ps rule: rev_cases) (auto simp: plain_def)
  then show ?thesis
  proof cases
    case 1
    with assms(1) show ?thesis by (auto simp: clean_step_def)
  next
    case 2
    show ?thesis
    proof (cases root)
      case True
      with 2 es k assms(1) show ?thesis by (simp add: clean_step_def)
    next
      case False
      have "clean_step root es e = replicate (Suc k) ''..'' @ []"
        using 2 es False by (cases k) (auto simp: clean_step_def replicate_append_same)
      with False show ?thesis unfolding normal_path_def by (intro exI [of _ "Suc k"] exI [of _ "[]"]) simp
    qed
  next
    case 3
    with ps have "plain p" "list_all plain q" by auto
    then have "clean_step root es e = replicate k ''..'' @ q"
      using 3 es by (auto simp: clean_step_def plain_def butlast_append)
    with k \<open>list_all plain q\<close> show ?thesis unfolding normal_path_def by blast
  next
    case 4
    then have "clean_step root es e = replicate k ''..'' @ (ps @ [e])" using es by (simp add: clean_step_plain)
    moreover have "list_all plain (ps @ [e])" using 4 ps by simp
    ultimately show ?thesis using k unfolding normal_path_def by blast
  qed
qed

lemma normal_steps:
  "normal_path root stack \<Longrightarrow> \<forall>e\<in>set es. CHR ''/'' \<notin> set e \<Longrightarrow> normal_path root (foldl (clean_step root) stack es)"
  by (induction es arbitrary: stack) (simp_all add: normal_step)

lemma split_at_no_sep: "\<forall>e\<in>set (split_at c s). c \<notin> set e"
  by (induction s) (auto split: list.splits)

lemma split_at_append: "split_at c (a @ c # b) = split_at c a @ split_at c b"
  by (induction a) (auto split: list.splits simp: split_at_nonempty)

lemma split_at_one: "c \<notin> set s \<Longrightarrow> split_at c s = [s]"
  by (induction s) auto

lemma elements_normal: "normal_path (rooted p) (elements p)"
  unfolding elements_def
  by (rule normal_steps) (use split_at_no_sep in \<open>auto simp: normal_path_def intro: exI [of _ 0]\<close>)

lemma join_slash_Cons: "es \<noteq> [] \<Longrightarrow> join_slash (e # es) = e @ CHR ''/'' # join_slash es"
  by (cases es) simp_all

lemma join_slash_append:
  "xs \<noteq> [] \<Longrightarrow> ys \<noteq> [] \<Longrightarrow> join_slash (xs @ ys) = join_slash xs @ CHR ''/'' # join_slash ys"
proof (induction xs)
  case Nil
  then show ?case by simp
next
  case (Cons x xs)
  show ?case
  proof (cases "xs = []")
    case True
    with Cons.prems show ?thesis by (simp add: join_slash_Cons)
  next
    case False
    with Cons show ?thesis by (simp add: join_slash_Cons)
  qed
qed

lemma split_join_slash:
  "es \<noteq> [] \<Longrightarrow> \<forall>e\<in>set es. CHR ''/'' \<notin> set e \<Longrightarrow> split_at (CHR ''/'') (join_slash es) = es"
proof (induction es rule: join_slash.induct)
  case (3 e e' es)
  then show ?case by (simp add: split_at_append split_at_one)
qed (simp_all add: split_at_one)

lemma normal_no_slash: "normal_path root es \<Longrightarrow> \<forall>e\<in>set es. CHR ''/'' \<notin> set e \<and> e \<noteq> []"
proof -
  assume "normal_path root es"
  then obtain k ps where es: "es = replicate k ''..'' @ ps" and ps: "list_all plain ps"
    unfolding normal_path_def by blast
  show ?thesis
  proof
    fix e assume "e \<in> set es"
    then have "e = ''..'' \<or> plain e" using es ps by (auto simp: list_all_iff in_set_replicate)
    then show "CHR ''/'' \<notin> set e \<and> e \<noteq> []" by (auto simp: plain_def)
  qed
qed

lemma rooted_render:
  assumes "normal_path root es" and "es \<noteq> []"
  shows "rooted (render_path root es) = root"
proof -
  obtain e es' where es: "es = e # es'" using assms(2) by (cases es) auto
  with normal_no_slash [OF assms(1)] obtain c e' where "e = c # e'" "c \<noteq> CHR ''/''" by (cases e) auto
  with es show ?thesis by (cases es') (auto simp: rooted_def render_path_def)
qed

lemma elements_render:
  assumes "normal_path root es" and "es \<noteq> []"
  shows "elements (render_path root es) = es"
proof -
  have s: "split_at (CHR ''/'') (join_slash es) = es"
    using split_join_slash [OF assms(2)] normal_no_slash [OF assms(1)] by blast
  then have "split_at (CHR ''/'') (render_path root es) = (if root then [[]] else []) @ es"
    using assms(2) by (simp add: render_path_def)
  then have "elements (render_path root es) = foldl (clean_step root) [] es"
    unfolding elements_def rooted_render [OF assms] by (cases root) (simp_all add: clean_step_def)
  with clean_normal [OF assms(1)] show ?thesis by simp
qed

lemma elements_below:
  assumes "d \<noteq> []" and "es \<noteq> []" and "list_all plain es"
  shows "elements (d @ CHR ''/'' # join_slash es) = elements d @ es
    \<and> rooted (d @ CHR ''/'' # join_slash es) = rooted d"
proof -
  have r: "rooted (d @ CHR ''/'' # join_slash es) = rooted d"
    using assms(1) by (cases d) (simp_all add: rooted_def)
  have "split_at (CHR ''/'') (join_slash es) = es"
    using assms(2,3) by (intro split_join_slash) (auto simp: plain_def list_all_iff)
  with r show ?thesis
    by (simp add: elements_def split_at_append clean_plain [OF assms(3)])
qed

lemma join_path_below:
  assumes "d \<noteq> []" and "es \<noteq> []" and "list_all plain es"
  shows "join_path (d # es) = render_path (rooted d) (elements d @ es)"
proof -
  have "dropWhile (\<lambda>e. e = []) (d # es) = d # es" using assms(1) by simp
  then have "join_path (d # es) = clean_path (d @ CHR ''/'' # join_slash es)"
    by (simp only: join_path_def list.case join_slash_Cons [OF assms(2)])
  with elements_below [OF assms] show ?thesis by (simp only: clean_path_def)
qed

lemma normal_below: "normal_path root es \<Longrightarrow> list_all plain es' \<Longrightarrow> normal_path root (es @ es')"
  unfolding normal_path_def
proof (elim exE conjE)
  fix k ps
  assume "es = replicate k ''..'' @ ps" "list_all plain ps" "root \<longrightarrow> k = 0" "list_all plain es'"
  then show "\<exists>k ps. es @ es' = replicate k ''..'' @ ps \<and> list_all plain ps \<and> (root \<longrightarrow> k = 0)"
    by (intro exI [of _ k] exI [of _ "ps @ es'"]) simp
qed

lemma render_nonempty: "es \<noteq> [] \<Longrightarrow> normal_path root es \<Longrightarrow> render_path root es \<noteq> []"
  using normal_no_slash [of root es] by (cases es rule: join_slash.cases) (auto simp: render_path_def)

text \<open>Paths below one directory are equal only when their elements are.\<close>

lemma render_inj:
  assumes "normal_path root es" "es \<noteq> []" "normal_path root es'" "es' \<noteq> []"
    and "render_path root es = render_path root es'"
  shows "es = es'"
  using assms elements_render by metis

section \<open>Safe names\<close>

lemma trim_chars_set: "set (trim_chars cs s) \<subseteq> set s"
  unfolding trim_chars_def trim_right_def trim_left_def
  by (metis set_dropWhileD set_rev subsetI)

lemma trim_chars_ends:
  assumes "trim_chars cs s \<noteq> []"
  shows "hd (trim_chars cs s) \<notin> set cs \<and> last (trim_chars cs s) \<notin> set cs"
proof -
  let ?l = "trim_left cs s"
  have r: "trim_chars cs s = rev (dropWhile (\<lambda>c. c \<in> set cs) (rev ?l))"
    by (simp add: trim_chars_def trim_right_def)
  with assms have ne: "dropWhile (\<lambda>c. c \<in> set cs) (rev ?l) \<noteq> []" by simp
  have "hd (dropWhile (\<lambda>c. c \<in> set cs) (rev ?l)) \<notin> set cs" by (rule hd_dropWhile [OF ne])
  then have lst: "last (trim_chars cs s) \<notin> set cs" using r ne by (simp add: last_rev)
  obtain t where "rev ?l = t @ dropWhile (\<lambda>c. c \<in> set cs) (rev ?l)"
    by (metis takeWhile_dropWhile_id)
  then have "?l = trim_chars cs s @ rev t" unfolding r by (metis rev_append rev_rev_ident)
  with assms have "hd (trim_chars cs s) = hd ?l" by (metis hd_append2)
  moreover have "?l \<noteq> []" using \<open>?l = _\<close> assms by auto
  then have "hd ?l \<notin> set cs" unfolding trim_left_def by (rule hd_dropWhile)
  ultimately show ?thesis using lst by simp
qed

lemma trim_chars_same:
  "s = [] \<or> hd s \<notin> set cs \<and> last s \<notin> set cs \<Longrightarrow> trim_chars cs s = s"
proof (elim disjE conjE)
  assume h: "hd s \<notin> set cs" and l: "last s \<notin> set cs"
  have "dropWhile (\<lambda>c. c \<in> set cs) s = s" using h by (cases s) simp_all
  moreover have "dropWhile (\<lambda>c. c \<in> set cs) (rev s) = rev s"
    using l by (cases s rule: rev_cases) simp_all
  ultimately show ?thesis by (simp add: trim_chars_def trim_right_def trim_left_def)
qed (simp add: trim_chars_def trim_right_def trim_left_def)

lemma safe_steps: "list_all safe_char acc \<Longrightarrow> list_all safe_char (foldl safe_step acc v)"
proof (induction v arbitrary: acc)
  case (Cons c v)
  have "safe_char (CHR ''_'')" by (simp add: safe_char_def)
  with Cons show ?case by (simp add: safe_step_def)
qed simp

lemma safe_steps_id: "list_all safe_char v \<Longrightarrow> foldl safe_step acc v = acc @ v"
  by (induction v arbitrary: acc) (simp_all add: safe_step_def)

lemma space_words_unsafe:
  "\<forall>w\<in>set space_words \<union> set (map rev space_words). w \<noteq> [] \<and> \<not> safe_char (hd w)"
  by (simp add: space_words_def safe_char_def)

lemma strip_safe:
  assumes "list_all safe_char v" and "set ws \<subseteq> set space_words \<union> set (map rev space_words)"
  shows "strip_words ws v = v"
proof (cases v)
  case (Cons c s)
  have "hd w \<noteq> c" if "w \<in> set ws" for w
    using that assms Cons space_words_unsafe by fastforce
  with Cons show ?thesis by (simp add: strip_words_printable)
qed simp

lemma trim_space_safe: "list_all safe_char v \<Longrightarrow> trim_space v = v"
  by (simp add: trim_space_def strip_safe)

lemma safe_name_chars: "list_all safe_char (safe_name v)"
  using safe_steps [of "[]" "trim_space v"] trim_chars_set [of "''_.''" "foldl safe_step [] (trim_space v)"]
  by (auto simp: safe_name_def list_all_iff)

lemma safe_name_ends:
  "safe_name v \<noteq> [] \<Longrightarrow> hd (safe_name v) \<notin> set ''_.'' \<and> last (safe_name v) \<notin> set ''_.''"
  using trim_chars_ends [of "''_.''" "foldl safe_step [] (trim_space v)"]
  unfolding safe_name_def by (cases "trim_space v = []") (simp_all only: if_True if_False simp_thms)

lemma safe_name_same:
  assumes "list_all safe_char v" and "v = [] \<or> hd v \<notin> set ''_.'' \<and> last v \<notin> set ''_.''"
  shows "safe_name v = v"
  using trim_chars_same [OF assms(2)] assms(1)
  by (simp add: safe_name_def trim_space_safe safe_steps_id del: list.set)

lemma safe_name_plain: "safe_name v \<noteq> [] \<Longrightarrow> CHR ''/'' \<notin> set (safe_name v) \<and> safe_name v \<noteq> ''.''"
  using safe_name_chars [of v] safe_name_ends [of v] by (auto simp: list_all_iff safe_char_def)

text \<open>Whatever the title, the name made from it has only letters, digits, \<open>-\<close>, \<open>_\<close> and \<open>.\<close>, does not
  start or end with \<open>_\<close> or \<open>.\<close> (no hidden file, no \<open>..\<close>), and is its own safe name.\<close>

theorem safe_name_safe:
  "list_all safe_char (safe_name v)
   \<and> (safe_name v = [] \<or> hd (safe_name v) \<notin> {CHR ''_'', CHR ''.''} \<and> last (safe_name v) \<notin> {CHR ''_'', CHR ''.''})
   \<and> safe_name (safe_name v) = safe_name v"
  using safe_name_chars [of v] safe_name_ends [of v] safe_name_same [of "safe_name v"] by auto

section \<open>Where a job's files are\<close>

lemma file_name_plain:
  assumes "plain job" and "CHR ''/'' \<notin> set container"
  shows "plain (file_name job title container)"
proof -
  let ?n = "if safe_name title = [] then job else safe_name title"
  have n: "?n \<noteq> []" "?n \<noteq> ''.''" "CHR ''/'' \<notin> set ?n"
    using assms(1) safe_name_plain [of title] by (auto simp: plain_def)
  have "?n @ ''.'' @ container \<noteq> ''.''" "?n @ ''.'' @ container \<noteq> ''..''"
    using n(1,2) by (auto simp: append_eq_Cons_conv)
  with n assms(2) show ?thesis by (simp add: plain_def file_name_def)
qed

lemma plain_words [simp]: "plain ''jobs''" "plain ''artifacts''"
  by (simp_all add: plain_def)

lemma plain_media: "CHR ''/'' \<notin> set container \<Longrightarrow> plain (''video.'' @ container) \<and> plain (''audio.'' @ audio_ext container)"
  by (auto simp: plain_def audio_ext_def)

definition below :: "string \<Rightarrow> string list \<Rightarrow> string" where
  "below data es = render_path (rooted data) (elements data @ es)"

lemma build_paths_below:
  assumes "data \<noteq> []" and "plain job" and "CHR ''/'' \<notin> set container"
  shows "ap_work_dir (build_paths data job title container) = below data [''jobs'', job]
    \<and> ap_video (build_paths data job title container) = below data [''jobs'', job, ''video.'' @ container]
    \<and> ap_audio (build_paths data job title container) = below data [''jobs'', job, ''audio.'' @ audio_ext container]
    \<and> ap_output (build_paths data job title container) = below data [''artifacts'', job, file_name job title container]"
proof -
  have w: "join_path [data, ''jobs'', job] = below data [''jobs'', job]"
    unfolding below_def by (rule join_path_below) (use assms in auto)
  have nw: "normal_path (rooted data) (elements data @ [''jobs'', job])"
    by (rule normal_below [OF elements_normal]) (use assms in auto)
  have sub: "join_path [below data [''jobs'', job], e] = below data [''jobs'', job, e]" if "plain e" for e
  proof -
    have "join_path [below data [''jobs'', job], e]
        = render_path (rooted (below data [''jobs'', job])) (elements (below data [''jobs'', job]) @ [e])"
      by (rule join_path_below) (use that nw render_nonempty in \<open>auto simp: below_def\<close>)
    also have "\<dots> = below data [''jobs'', job, e]"
      using nw by (simp add: below_def rooted_render elements_render)
    finally show ?thesis .
  qed
  have "join_path [data, ''artifacts'', job, file_name job title container]
      = below data [''artifacts'', job, file_name job title container]"
    unfolding below_def by (rule join_path_below) (use assms file_name_plain in auto)
  with w sub plain_media [OF assms(3)] show ?thesis by (simp add: build_paths_def Let_def)
qed

lemma below_inj:
  assumes "list_all plain es" "es \<noteq> []" "list_all plain es'" "es' \<noteq> []"
  shows "below data es = below data es' \<longleftrightarrow> es = es'"
proof -
  have "normal_path (rooted data) (elements data @ es)" "normal_path (rooted data) (elements data @ es')"
    using assms normal_below [OF elements_normal] by blast+
  from render_inj [OF this(1) _ this(2)] assms show ?thesis by (auto simp: below_def)
qed

text \<open>Every file a job writes, the temporary ones of the range downloader among them.\<close>

definition job_files :: "paths \<Rightarrow> string list" where
  "job_files p = [ap_video p, ap_audio p, ap_output p,
                  ap_video p @ ''.part'', ap_audio p @ ''.part'', ap_output p @ ''.part'']"

lemma below_suffix:
  assumes "es \<noteq> []"
  shows "below data (es @ [e]) @ suffix = below data (es @ [e @ suffix])"
proof -
  have "join_slash (xs @ [e]) @ suffix = join_slash (xs @ [e @ suffix])" for xs
    by (cases "xs = []") (simp_all add: join_slash_append)
  from this [of "elements data @ es"] show ?thesis by (simp add: below_def render_path_def)
qed

definition job_elements :: "string \<Rightarrow> string \<Rightarrow> string \<Rightarrow> string list list" where
  "job_elements job title container =
     [[''jobs'', job, ''video.'' @ container], [''jobs'', job, ''audio.'' @ audio_ext container],
      [''artifacts'', job, file_name job title container],
      [''jobs'', job, (''video.'' @ container) @ ''.part''],
      [''jobs'', job, (''audio.'' @ audio_ext container) @ ''.part''],
      [''artifacts'', job, file_name job title container @ ''.part'']]"

lemma plain_media_part:
  "CHR ''/'' \<notin> set container \<Longrightarrow> plain ((''video.'' @ container) @ ''.part'')
     \<and> plain ((''audio.'' @ audio_ext container) @ ''.part'')"
  by (auto simp: plain_def audio_ext_def)

lemma plain_part: "plain e \<Longrightarrow> plain (e @ ''.part'')"
  by (cases e) (auto simp: plain_def append_eq_Cons_conv)

lemma job_elements_plain:
  "plain job \<Longrightarrow> CHR ''/'' \<notin> set container \<Longrightarrow>
     \<forall>es\<in>set (job_elements job title container). list_all plain es \<and> es \<noteq> [] \<and> es ! 1 = job"
  using plain_media [of container] plain_media_part [of container] file_name_plain [of job container title]
  by (simp add: job_elements_def plain_part)

lemma job_files_below:
  assumes "data \<noteq> []" and "plain job" and "CHR ''/'' \<notin> set container"
  shows "job_files (build_paths data job title container) = map (below data) (job_elements job title container)"
  using build_paths_below [OF assms, of title] below_suffix [of "[_, _]" data]
  by (simp add: job_files_def job_elements_def del: append_assoc)

lemma ext_part_neq: "audio_ext container @ ''.part'' \<noteq> audio_ext container'"
  by (simp add: audio_ext_def)

lemma job_elements_distinct: "distinct (job_elements job title container)"
  by (auto simp: job_elements_def audio_ext_def)

lemma job_files_distinct:
  assumes "data \<noteq> []" and "plain job" and "CHR ''/'' \<notin> set container"
  shows "distinct (job_files (build_paths data job title container))"
proof -
  let ?es = "job_elements job title container"
  have p: "\<forall>es\<in>set ?es. list_all plain es \<and> es \<noteq> [] \<and> es ! 1 = job"
    by (rule job_elements_plain [OF assms(2,3)])
  have "inj_on (below data) (set ?es)"
    by (rule inj_onI) (use p below_inj in blast)
  then have "distinct (map (below data) ?es)" by (simp add: distinct_map job_elements_distinct)
  then show ?thesis by (simp add: job_files_below [OF assms])
qed



lemma job_files_separate:
  assumes "data \<noteq> []" and "plain job" "CHR ''/'' \<notin> set container"
    and "plain job'" "CHR ''/'' \<notin> set container'" and "job \<noteq> job'"
  shows "set (job_files (build_paths data job title container)) \<inter> set (job_files (build_paths data job' title' container')) = {}"
proof -
  have "below data es \<noteq> below data es'"
    if "es \<in> set (job_elements job title container)" "es' \<in> set (job_elements job' title' container')" for es es'
    using that below_inj [of es es' data] job_elements_plain [OF assms(2,3), of title]
      job_elements_plain [OF assms(4,5), of title'] assms(6) by metis
  then show ?thesis
    unfolding job_files_below [OF assms(1-3)] job_files_below [OF assms(1,4,5)] by auto
qed

text \<open>Two jobs never share a file: nothing one of them writes or removes belongs to the other, even
  with the same title.\<close>

theorem jobs_share_no_file:
  assumes "data \<noteq> []" and "plain job" "CHR ''/'' \<notin> set container"
    and "plain job'" "CHR ''/'' \<notin> set container'" and "job \<noteq> job'"
  shows "set (job_files (build_paths data job title container)) \<inter> set (job_files (build_paths data job' title' container')) = {}"
  by (rule job_files_separate [OF assms])

lemma jobs_share_no_file_witness:
  "ap_output (build_paths ''/d'' ''a'' ''t'' ''mp4'') \<noteq> ap_output (build_paths ''/d'' ''b'' ''t'' ''mp4'')"
proof -
  have "plain ''a''" "plain ''b''" "CHR ''/'' \<notin> set ''mp4''" by (simp_all add: plain_def)
  from jobs_share_no_file [of "''/d''", OF _ this(1,3,2,3), of "''t''" "''t''"] show ?thesis
    by (auto simp: job_files_def)
qed

end
