(* ===== verification/Capacity.thy ===== *)
theory Capacity
  imports Disk_Monitor Selector Go_Http
begin

text \<open>
  \<open>internal/pipeline/capacity.go\<close> and the test for HLS of \<open>remote_mux.go\<close>: how much disk a job
  reserves before it downloads, all in saturating \<open>uint64\<close> arithmetic.
\<close>

section \<open>Definitions\<close>

definition is_hls :: "'u url_lib \<Rightarrow> string \<Rightarrow> bool" where
  "is_hls lib raw_url =
     (case url_parse lib raw_url of
        Inl _ \<Rightarrow> False
      | Inr u \<Rightarrow> has_suffix (to_lower (url_path lib u)) ''.m3u8'')"

definition uses_remote_mux :: "'u url_lib \<Rightarrow> selection \<Rightarrow> bool" where
  "uses_remote_mux lib sel \<longleftrightarrow> is_hls lib (v_url (sel_video sel)) \<or> is_hls lib (a_url (sel_audio sel))"

definition output_headroom_tenths :: u64 where "output_headroom_tenths = 11"
definition local_peak_tenths :: u64 where "local_peak_tenths = 21"

definition media_bytes :: "int \<Rightarrow> int option \<Rightarrow> int \<Rightarrow> u64" where
  "media_bytes content_length bitrate duration =
     (if content_length > 0 then word_of_int content_length
      else case bitrate of
        None \<Rightarrow> 0
      | Some b \<Rightarrow>
          if b \<le> 0 \<or> duration \<le> 0 then 0
          else let rate = word_of_int b
               in if rate > NOT 0 div word_of_int duration then NOT 0
                  else rate * word_of_int duration div 8)"

definition known_sum :: "u64 \<Rightarrow> u64 \<Rightarrow> u64" where
  "known_sum l r = (if l > NOT 0 - r then NOT 0 else l + r)"

definition scaled_bytes :: "u64 \<Rightarrow> u64 \<Rightarrow> u64" where
  "scaled_bytes bytes tenths = (if bytes > NOT 0 div tenths then NOT 0 else bytes * tenths div 10)"

definition video_reservation_bytes :: "'u url_lib \<Rightarrow> selection \<Rightarrow> int \<Rightarrow> u64" where
  "video_reservation_bytes lib sel duration =
     (let video_bytes = media_bytes (v_content_length (sel_video sel)) (v_bitrate (sel_video sel)) duration;
          audio_bytes = media_bytes (a_content_length (sel_audio sel)) (a_bitrate (sel_audio sel)) duration;
          total = known_sum video_bytes audio_bytes;
          multiplier =
            (if v_delivery_method (sel_video sel) = ''sabr''
                \<or> v_content_length (sel_video sel) > 0 \<and> a_content_length (sel_audio sel) > 0
                  \<and> \<not> uses_remote_mux lib sel
             then local_peak_tenths else output_headroom_tenths)
      in if total = 0 then 0 else scaled_bytes total multiplier)"

definition audio_reservation_bytes :: "audio_selection \<Rightarrow> int \<Rightarrow> u64" where
  "audio_reservation_bytes sel duration =
     (let bytes = media_bytes (a_content_length (as_audio sel)) (a_bitrate (as_audio sel)) duration
      in if bytes = 0 then 0
         else scaled_bytes bytes
           (if a_delivery_method (as_audio sel) = ''sabr'' then local_peak_tenths
            else output_headroom_tenths))"

text \<open>Nothing known is nothing reserved, and \<open>noRelease\<close> is what is released then: \<open>False\<close>.\<close>

definition reserve_bytes :: "statfs result \<Rightarrow> string \<Rightarrow> u64 \<Rightarrow> monitor \<Rightarrow> monitor \<times> bool result" where
  "reserve_bytes stat i bytes m =
     (if bytes = 0 then (m, Inr False)
      else case reserve stat i bytes m of
        (m', Inl e) \<Rightarrow> (m', Inl e)
      | (m', Inr _) \<Rightarrow> (m', Inr True))"

definition reserve_video ::
    "'u url_lib \<Rightarrow> statfs result \<Rightarrow> string \<Rightarrow> selection \<Rightarrow> int \<Rightarrow> monitor \<Rightarrow> monitor \<times> bool result" where
  "reserve_video lib stat i sel duration m = reserve_bytes stat i (video_reservation_bytes lib sel duration) m"

definition reserve_audio ::
    "statfs result \<Rightarrow> string \<Rightarrow> audio_selection \<Rightarrow> int \<Rightarrow> monitor \<Rightarrow> monitor \<times> bool result" where
  "reserve_audio stat i sel duration m = reserve_bytes stat i (audio_reservation_bytes sel duration) m"

section \<open>Exactness\<close>

abbreviation max_u64 :: nat where "max_u64 \<equiv> 18446744073709551615"

lemma unat_div_max: "unat ((NOT 0 :: u64) div d) = max_u64 div unat d"
  by (simp add: unat_div)

lemma unat_scaled_mult:
  assumes "unat (l :: u64) * unat r \<le> max_u64"
  shows "unat (l * r) = unat l * unat r"
  using assms by (intro unat_mult_lem [THEN iffD1]) simp

lemma mult_guard: "0 < b \<Longrightarrow> max_u64 div b < a \<longleftrightarrow> max_u64 < a * (b::nat)"
  by (metis div_less_iff_less_mult not_less_iff_gr_or_eq linorder_not_less less_mult_imp_div_less mult.commute)

lemma unat_known_sum: "unat (known_sum l r) = min max_u64 (unat l + unat r)"
proof -
  have "known_sum l r = saturated_add r l"
    by (simp add: known_sum_def saturated_add_def add.commute)
  then show ?thesis by (simp add: unat_saturated_add add.commute)
qed

lemma unat_scaled:
  assumes "0 < unat t"
  shows "unat (scaled_bytes b t) = (if unat b * unat t \<le> max_u64 then unat b * unat t div 10 else max_u64)"
proof -
  have "b > NOT 0 div t \<longleftrightarrow> max_u64 < unat b * unat t"
    using mult_guard [OF assms] by (simp only: word_less_nat_alt unat_div_max)
  then show ?thesis
    by (simp add: scaled_bytes_def unat_div unat_scaled_mult del: word_not_simps)
qed

text \<open>The bytes of a medium, in exact arithmetic: its length, or what its bit rate gives.\<close>

definition known_bytes :: "int \<Rightarrow> int option \<Rightarrow> int \<Rightarrow> nat" where
  "known_bytes content_length bitrate duration =
     (if content_length > 0 then nat content_length
      else case bitrate of None \<Rightarrow> 0 | Some b \<Rightarrow> if b \<le> 0 \<or> duration \<le> 0 then 0 else nat b * nat duration div 8)"

lemma unat_of_i64: "0 \<le> x \<Longrightarrow> is_i64 x \<Longrightarrow> unat (word_of_int x :: u64) = nat x"
  by (simp add: is_i64_iff unat_eq_nat_uint uint_word_of_int)

definition rate_fits :: "int \<Rightarrow> int option \<Rightarrow> int \<Rightarrow> bool" where
  "rate_fits content_length bitrate duration \<longleftrightarrow>
     content_length > 0 \<or> (case bitrate of None \<Rightarrow> True | Some b \<Rightarrow> nat b * nat duration \<le> max_u64)"

lemma unat_media_bytes:
  assumes "is_i64 content_length" and "pred_option is_i64 bitrate" and "is_i64 duration"
  shows "unat (media_bytes content_length bitrate duration) =
    (if rate_fits content_length bitrate duration then known_bytes content_length bitrate duration else max_u64)"
proof (cases "content_length > 0")
  case True
  then show ?thesis using assms(1) by (simp add: media_bytes_def known_bytes_def rate_fits_def unat_of_i64)
next
  case nl: False
  show ?thesis
  proof (cases "\<exists>b. bitrate = Some b \<and> 0 < b \<and> 0 < duration")
    case False
    then have "bitrate = None \<or> (\<exists>b. bitrate = Some b \<and> (b \<le> 0 \<or> duration \<le> 0))"
      by (cases bitrate) (auto simp: not_less)
    with nl show ?thesis
      by (auto simp: media_bytes_def known_bytes_def rate_fits_def)
  next
    case True
    then obtain b where b: "bitrate = Some b" "0 < b" "0 < duration" by blast
    have u: "unat (word_of_int b :: u64) = nat b" "unat (word_of_int duration :: u64) = nat duration"
      using b assms by (simp_all add: unat_of_i64)
    have g: "(word_of_int b :: u64) > NOT 0 div word_of_int duration \<longleftrightarrow> max_u64 < nat b * nat duration"
      using mult_guard [of "nat duration" "nat b"] b u by (simp only: word_less_nat_alt unat_div_max)
    show ?thesis
    proof (cases "max_u64 < nat b * nat duration")
      case True
      with nl b g show ?thesis by (simp add: media_bytes_def rate_fits_def)
    next
      case False
      then have "unat ((word_of_int b :: u64) * word_of_int duration) = nat b * nat duration"
        using u by (simp add: unat_scaled_mult)
      with False nl b g show ?thesis
        by (simp add: media_bytes_def known_bytes_def rate_fits_def unat_div)
    qed
  qed
qed

text \<open>Scaling covers: a saturated value is at least what would be needed.\<close>

lemma scaled_covers:
  assumes "min max_u64 need \<le> unat b" and "t = 11 \<or> t = (21 :: u64)"
  shows "min max_u64 (need * unat t div 10) \<le> unat (scaled_bytes b t)"
proof -
  have t: "0 < unat t" "10 \<le> unat t" using assms(2) by auto
  show ?thesis
  proof (cases "unat b * unat t \<le> max_u64")
    case True
    then have "unat b < max_u64" using t(2) by (cases "unat b = 0") (auto dest: order_trans [OF mult_le_mono2 [OF t(2)]])
    then have "need \<le> unat b" using assms(1) by simp
    then have "need * unat t div 10 \<le> unat b * unat t div 10" by (intro div_le_mono mult_le_mono1)
    with True show ?thesis by (simp add: unat_scaled [OF t(1)])
  next
    case False
    then show ?thesis by (simp add: unat_scaled [OF t(1)])
  qed
qed

definition wf_video :: "video_item \<Rightarrow> bool" where
  "wf_video v \<longleftrightarrow> is_i64 (v_content_length v) \<and> pred_option is_i64 (v_bitrate v)"

definition wf_audio :: "audio_item \<Rightarrow> bool" where
  "wf_audio a \<longleftrightarrow> is_i64 (a_content_length a) \<and> pred_option is_i64 (a_bitrate a)"

definition video_known :: "selection \<Rightarrow> int \<Rightarrow> nat" where
  "video_known sel duration =
     known_bytes (v_content_length (sel_video sel)) (v_bitrate (sel_video sel)) duration
     + known_bytes (a_content_length (sel_audio sel)) (a_bitrate (sel_audio sel)) duration"

text \<open>Both media are on the disk before the output is made of them.\<close>

definition local_peak :: "'u url_lib \<Rightarrow> selection \<Rightarrow> bool" where
  "local_peak lib sel \<longleftrightarrow> v_delivery_method (sel_video sel) = ''sabr''
     \<or> v_content_length (sel_video sel) > 0 \<and> a_content_length (sel_audio sel) > 0 \<and> \<not> uses_remote_mux lib sel"

lemma media_covers:
  assumes "is_i64 content_length" and "pred_option is_i64 bitrate" and "is_i64 duration"
  shows "min max_u64 (known_bytes content_length bitrate duration)
    \<le> unat (media_bytes content_length bitrate duration)"
  by (simp add: unat_media_bytes [OF assms])

lemma unat_tenths [simp]: "unat output_headroom_tenths = 11" "unat local_peak_tenths = 21"
  by (simp_all add: output_headroom_tenths_def local_peak_tenths_def)

lemma scaled_zero: "scaled_bytes 0 t = 0"
  by (simp add: scaled_bytes_def)

lemma video_reservation_scaled:
  "video_reservation_bytes lib sel duration = scaled_bytes
     (known_sum (media_bytes (v_content_length (sel_video sel)) (v_bitrate (sel_video sel)) duration)
                (media_bytes (a_content_length (sel_audio sel)) (a_bitrate (sel_audio sel)) duration))
     (if local_peak lib sel then local_peak_tenths else output_headroom_tenths)"
  by (simp add: video_reservation_bytes_def local_peak_def Let_def scaled_zero)

text \<open>C25: A job reserves at least what it is known to need, with the headroom of the way it works: 1.1
  times the media when only the output is on the disk, 2.1 times when both media are there too. As
  long as nothing overflows \<open>uint64\<close> it reserves exactly that, and beyond it everything.\<close>

theorem video_reservation_exact:
  assumes "wf_video (sel_video sel)" and "wf_audio (sel_audio sel)" and "is_i64 duration"
  shows "let tenths = (if local_peak lib sel then 21 else 11);
             need = video_known sel duration * tenths;
             got = unat (video_reservation_bytes lib sel duration)
    in min max_u64 (need div 10) \<le> got
      \<and> (need \<le> max_u64 \<and> rate_fits (v_content_length (sel_video sel)) (v_bitrate (sel_video sel)) duration
           \<and> rate_fits (a_content_length (sel_audio sel)) (a_bitrate (sel_audio sel)) duration
         \<longrightarrow> got = need div 10)"
proof -
  let ?v = "media_bytes (v_content_length (sel_video sel)) (v_bitrate (sel_video sel)) duration"
  let ?a = "media_bytes (a_content_length (sel_audio sel)) (a_bitrate (sel_audio sel)) duration"
  let ?t = "if local_peak lib sel then local_peak_tenths else output_headroom_tenths"
  have t: "?t = 11 \<or> ?t = 21" "unat ?t = (if local_peak lib sel then 21 else 11)"
    by (simp_all add: local_peak_tenths_def output_headroom_tenths_def)
  have v: "min max_u64 (known_bytes (v_content_length (sel_video sel)) (v_bitrate (sel_video sel)) duration) \<le> unat ?v"
    and a: "min max_u64 (known_bytes (a_content_length (sel_audio sel)) (a_bitrate (sel_audio sel)) duration) \<le> unat ?a"
    using assms by (auto simp: wf_video_def wf_audio_def intro!: media_covers)
  then have s: "min max_u64 (video_known sel duration) \<le> unat (known_sum ?v ?a)"
    by (auto simp: unat_known_sum video_known_def min_def split: if_splits)
  have cover: "min max_u64 (video_known sel duration * unat ?t div 10) \<le> unat (video_reservation_bytes lib sel duration)"
    unfolding video_reservation_scaled by (rule scaled_covers [OF s t(1)])
  moreover have "unat (video_reservation_bytes lib sel duration) = video_known sel duration * unat ?t div 10"
    if n: "video_known sel duration * unat ?t \<le> max_u64"
      and fv: "rate_fits (v_content_length (sel_video sel)) (v_bitrate (sel_video sel)) duration"
      and fa: "rate_fits (a_content_length (sel_audio sel)) (a_bitrate (sel_audio sel)) duration"
  proof -
    have "video_known sel duration \<le> max_u64" using n t by (auto split: if_splits)
    then have "unat (known_sum ?v ?a) = video_known sel duration"
      using assms fv fa by (simp add: unat_known_sum unat_media_bytes wf_video_def wf_audio_def video_known_def)
    with n t show ?thesis unfolding video_reservation_scaled by (subst unat_scaled) auto
  qed
  ultimately show ?thesis unfolding Let_def t(2) by blast
qed

definition sample_video :: video_item where
  "sample_video = \<lparr>v_url = ''u'', v_mime_type = ''video/mp4'', v_format = [], v_resolution = [],
     v_bitrate = None, v_codec = Some ''avc1'', v_is_video_only = True, v_itag = 137, v_width = 0,
     v_height = 1080, v_fps = 30, v_content_length = 0, v_init_start = 0, v_init_end = 0,
     v_index_start = 0, v_index_end = 0, v_delivery_method = [], v_manifest_url = [],
     v_sabr_session_url = []\<rparr>"

definition sample_audio :: audio_item where
  "sample_audio = \<lparr>a_url = ''u'', a_mime_type = ''audio/mp4'', a_format = [], a_bitrate = None,
     a_codec = Some ''mp4a'', a_quality = None, a_itag = 140, a_content_length = 0, a_init_start = 0,
     a_init_end = 0, a_index_start = 0, a_index_end = 0, a_audio_track_id = None,
     a_audio_track_name = None, a_audio_locale = None, a_is_original = False,
     a_delivery_method = [], a_manifest_url = [], a_sabr_session_url = []\<rparr>"

definition sample_selection :: "int \<Rightarrow> int \<Rightarrow> selection" where
  "sample_selection v a = \<lparr>sel_title = ''t'', sel_video = sample_video\<lparr>v_content_length := v\<rparr>,
     sel_audio = sample_audio\<lparr>a_content_length := a\<rparr>, sel_container = ''mp4''\<rparr>"

lemma video_reservation_exact_witness:
  "unat (video_reservation_bytes sample_lib (sample_selection 1000 200) 60) = 2520
   \<and> unat (video_reservation_bytes sample_lib (sample_selection 9223372036854775807 200) 60) = max_u64"
proof -
  have wf: "wf_video (sel_video (sample_selection v a))" "wf_audio (sel_audio (sample_selection v a))" "is_i64 60"
    if "is_i64 v" "is_i64 a" for v a
    using that by (simp_all add: wf_video_def wf_audio_def sample_selection_def sample_video_def sample_audio_def is_i64_iff)
  have lp: "local_peak sample_lib (sample_selection v 200)" if "v > 0" for v
    using that by (simp add: local_peak_def sample_selection_def sample_video_def sample_audio_def
        uses_remote_mux_def is_hls_def sample_lib_def has_suffix_def to_lower_def)
  have "is_i64 1000" "is_i64 200" "is_i64 9223372036854775807" by (simp_all add: is_i64_iff)
  note w1 = wf [OF this(1,2)] and w2 = wf [OF this(3,2)]
  have k: "video_known (sample_selection v 200) 60 = nat v + 200" if "v > 0" for v
    using that by (simp add: video_known_def known_bytes_def sample_selection_def)
  have f: "rate_fits (v_content_length (sel_video (sample_selection v 200))) b 60"
      "rate_fits (a_content_length (sel_audio (sample_selection v 200))) b 60" if "v > 0" for v b
    using that by (simp_all add: rate_fits_def sample_selection_def)
  show ?thesis
    using video_reservation_exact [OF w1, of sample_lib] video_reservation_exact [OF w2, of sample_lib]
      unat_u64_le [of "video_reservation_bytes sample_lib (sample_selection 9223372036854775807 200) 60"]
    by (simp add: Let_def lp k f)
qed

end
