(* ===== verification/Stream_Client.thy ===== *)
theory Stream_Client
  imports Go_Http Selector
begin

text \<open>
  Package \<open>internal/typetype\<close> (\<open>client.go\<close>): asking the TypeType server for the streams of a video,
  and the URLs under which their media are fetched. The client is its base URL.
\<close>

section \<open>Definitions\<close>

definition new_client :: "string \<Rightarrow> string" where
  "new_client base = trim_right ''/'' base"

definition is_youtube_host :: "string \<Rightarrow> bool" where
  "is_youtube_host host \<longleftrightarrow>
     (let h = to_lower (trim_space host)
      in h = ''youtu.be'' \<or> h = ''youtube.com'' \<or> has_suffix h ''.youtube.com''
         \<or> h = ''youtube-nocookie.com'' \<or> has_suffix h ''.youtube-nocookie.com'')"

definition stream_path :: "'u url_lib \<Rightarrow> string \<Rightarrow> string" where
  "stream_path lib raw_url =
     (case url_parse lib raw_url of
        Inl _ \<Rightarrow> ''/streams''
      | Inr u \<Rightarrow> if is_youtube_host (url_hostname lib u) then ''/streams/youtube/sabr'' else ''/streams'')"

definition stream_endpoint :: "'u url_lib \<Rightarrow> string \<Rightarrow> string \<Rightarrow> string" where
  "stream_endpoint lib base raw_url = base @ stream_path lib raw_url @ ''?url='' @ query_escape raw_url"

definition media_url :: "string \<Rightarrow> string \<Rightarrow> string" where
  "media_url base path =
     (let trimmed = trim_space path
      in if has_prefix trimmed ''http://'' \<or> has_prefix trimmed ''https://'' then trimmed
         else base @ ''/'' @ trim_left ''/'' trimmed)"

definition is_abs :: "'u url_lib \<Rightarrow> 'u \<Rightarrow> bool" where
  "is_abs lib u \<longleftrightarrow> url_scheme lib u \<noteq> []"

definition is_api_url :: "'u url_lib \<Rightarrow> string \<Rightarrow> string \<Rightarrow> bool" where
  "is_api_url lib base raw_url \<longleftrightarrow>
     (case url_parse lib raw_url of
        Inl _ \<Rightarrow> False
      | Inr u \<Rightarrow>
          is_abs lib u \<and>
          (case url_parse lib base of
             Inl _ \<Rightarrow> False
           | Inr b \<Rightarrow> url_scheme lib u = url_scheme lib b \<and> url_host lib u = url_host lib b))"

definition proxy_media_url :: "'u url_lib \<Rightarrow> string \<Rightarrow> string \<Rightarrow> string" where
  "proxy_media_url lib base url =
     (let raw_url = trim_space url
      in if raw_url = [] \<or> is_api_url lib base raw_url then raw_url
         else let path = (case url_parse lib raw_url of
                  Inl _ \<Rightarrow> ''/proxy''
                | Inr u \<Rightarrow> if contains (url_host lib u) ''nicovideo.jp'' then ''/proxy/nicovideo'' else ''/proxy'')
              in base @ path @ ''?url='' @ query_escape raw_url)"

text \<open>The unexported \<open>mediaURL\<close>: a relative URL is resolved against the server.\<close>

definition resolve_media_url :: "'u url_lib \<Rightarrow> string \<Rightarrow> string \<Rightarrow> string" where
  "resolve_media_url lib base url =
     (let trimmed = trim_space url;
          raw = (if has_prefix trimmed ''nicovideo?'' then ''proxy/'' @ trimmed else trimmed)
      in if trimmed = [] then []
         else case url_parse lib raw of
           Inl _ \<Rightarrow> raw
         | Inr u \<Rightarrow>
             if is_abs lib u then raw
             else (case url_parse lib (trim_right ''/'' base @ ''/'') of
               Inl _ \<Rightarrow> raw
             | Inr b \<Rightarrow> url_string lib (url_resolve lib b u)))"

definition normalize_stream_urls :: "'u url_lib \<Rightarrow> string \<Rightarrow> stream_response \<Rightarrow> stream_response" where
  "normalize_stream_urls lib base stream =
     stream\<lparr>sr_video_streams := map (\<lambda>v. v\<lparr>v_url := resolve_media_url lib base (v_url v)\<rparr>) (sr_video_streams stream),
       sr_video_only_streams := map (\<lambda>v. v\<lparr>v_url := resolve_media_url lib base (v_url v)\<rparr>) (sr_video_only_streams stream),
       sr_audio_streams := map (\<lambda>a. a\<lparr>a_url := resolve_media_url lib base (a_url a)\<rparr>) (sr_audio_streams stream),
       sr_hls_url := resolve_media_url lib base (sr_hls_url stream),
       sr_dash_mpd_url := resolve_media_url lib base (sr_dash_mpd_url stream)\<rparr>"

text \<open>\<open>Query().Get\<close> of a missing key is empty; the value is already unescaped once.\<close>

definition query_get :: "(string \<Rightarrow> string list option) \<Rightarrow> string \<Rightarrow> string" where
  "query_get q k = (case q k of Some (v # _) \<Rightarrow> v | _ \<Rightarrow> [])"

definition normalize_watch_url :: "'u url_lib \<Rightarrow> string \<Rightarrow> string result" where
  "normalize_watch_url lib raw_url =
     (case url_parse lib raw_url of
        Inl e \<Rightarrow> Inl e
      | Inr u \<Rightarrow>
          if url_scheme lib u = [] \<or> url_host lib u = [] then Inl (Err (''invalid URL: '' @ raw_url))
          else
            (let wrapped = query_get (url_query lib u) ''v''
             in if url_path lib u = ''/watch'' \<and> wrapped \<noteq> []
                then (case query_unescape wrapped of
                        Inl e \<Rightarrow> Inl e
                      | Inr inner \<Rightarrow>
                          (case url_parse lib inner of
                             Inl _ \<Rightarrow> Inr raw_url
                           | Inr iu \<Rightarrow>
                               if url_scheme lib iu \<noteq> [] \<and> url_host lib iu \<noteq> [] then Inr inner else Inr raw_url))
                else Inr raw_url))"

definition bytes_text :: "byte list \<Rightarrow> string" where
  "bytes_text bs = map (\<lambda>b. char_of (unat b)) bs"

definition stream_request :: "'u url_lib \<Rightarrow> string \<Rightarrow> string \<Rightarrow> string \<Rightarrow> request result" where
  "stream_request lib base raw_url auth =
     (case normalize_watch_url lib raw_url of
        Inl e \<Rightarrow> Inl e
      | Inr resolved_url \<Rightarrow>
          (case new_request lib (stream_endpoint lib base resolved_url) of
             Inl e \<Rightarrow> Inl e
           | Inr rq \<Rightarrow>
               Inr (if trim_space auth \<noteq> [] then set_header ''Authorization'' (trim_space auth) rq else rq)))"

text \<open>\<open>decode\<close> is \<open>json.NewDecoder(body).Decode\<close>. A body that is not decoded is read up to 4 KiB, for
  the message; an error of that read is ignored.\<close>

definition fetch_stream ::
    "'u url_lib \<Rightarrow> (request \<Rightarrow> http_response result) \<Rightarrow> (reader \<Rightarrow> stream_response result)
       \<Rightarrow> string \<Rightarrow> string \<Rightarrow> string \<Rightarrow> stream_response result" where
  "fetch_stream lib client decode base raw_url auth =
     (case stream_request lib base raw_url auth of
        Inl e \<Rightarrow> Inl e
      | Inr rq \<Rightarrow>
          (case client rq of
             Inl e \<Rightarrow> Inl e
           | Inr res \<Rightarrow>
               if rs_status res \<noteq> 200
               then Inl (Err (''streams endpoint returned '' @ itoa (rs_status res) @ '': ''
                              @ trim_space (bytes_text (take 4096 (r_data (rs_body res))))))
               else (case decode (rs_body res) of
                       Inl e \<Rightarrow> Inl e
                     | Inr stream \<Rightarrow> Inr (normalize_stream_urls lib base stream))))"

section \<open>What the server is asked\<close>

lemma new_request_url: "new_request lib u = Inr rq \<Longrightarrow> rq_url rq = u \<and> rq_headers rq = Map.empty"
  by (auto simp: new_request_def split: sum.splits)

lemma stream_request_cases:
  assumes "stream_request lib base raw_url auth = Inr rq"
  obtains target where "normalize_watch_url lib raw_url = Inr target"
    and "rq_url rq = stream_endpoint lib base target"
    and "rq_headers rq = (if trim_space auth = [] then Map.empty else [''Authorization'' \<mapsto> trim_space auth])"
proof -
  from assms obtain target rq0 where t: "normalize_watch_url lib raw_url = Inr target"
    and r: "new_request lib (stream_endpoint lib base target) = Inr rq0"
    and rq: "rq = (if trim_space auth \<noteq> [] then set_header ''Authorization'' (trim_space auth) rq0 else rq0)"
    by (auto simp: stream_request_def split: sum.splits)
  show ?thesis
    by (rule that [OF t]) (use new_request_url [OF r] rq in \<open>simp_all add: set_header_def\<close>)
qed



end
