(* ===== verification/Artifact_Store.thy ===== *)
theory Artifact_Store
  imports Artifact_Paths
begin

text \<open>
  Package \<open>internal/artifact\<close>, \<open>s3.go\<close> and the interface of \<open>store.go\<close>: artifacts in an S3 bucket,
  and the choice between it and the local disk. The client of the bucket (minio) is an argument; a
  bucket is a map from keys to objects, which a successful \<open>PutObject\<close> and \<open>RemoveObject\<close> change as
  their documentation says.
\<close>

record s3_config =
  s3_endpoint :: string
  s3_public_endpoint :: string
  s3_region :: string
  s3_bucket :: string
  s3_access_key :: string
  s3_secret_key :: string
  s3_use_ssl :: bool
  s3_public_use_ssl :: bool
  s3_path_style :: bool
  s3_url_ttl :: int

record s3_store =
  ss_presign_endpoint :: string
  ss_proxy_redirect :: bool
  ss_config :: s3_config

type_synonym bucket = "string \<Rightarrow> byte list option"

text \<open>What a call meets: opening the file, the upload, the removal and the signing of a URL.\<close>

record s3_client =
  sc_new :: "string \<Rightarrow> error option"
  sc_put :: "string \<Rightarrow> error option"
  sc_remove :: "string \<Rightarrow> error option"
  sc_presign :: "string \<Rightarrow> string option \<Rightarrow> string result"

definition minute :: int where "minute = 60 * 1000000000"

definition new_s3_store :: "s3_client \<Rightarrow> s3_config \<Rightarrow> s3_store result" where
  "new_s3_store client cfg =
     (if s3_endpoint cfg = [] \<or> s3_bucket cfg = [] \<or> s3_access_key cfg = [] \<or> s3_secret_key cfg = []
      then Inl (Err ''S3 endpoint, bucket, access key, and secret key are required'')
      else case sc_new client (s3_endpoint cfg) of
        Some e \<Rightarrow> Inl e
      | None \<Rightarrow>
          (case (if s3_public_endpoint cfg \<noteq> [] then sc_new client (s3_public_endpoint cfg) else None) of
             Some e \<Rightarrow> Inl e
           | None \<Rightarrow>
               Inr \<lparr>ss_presign_endpoint =
                      (if s3_public_endpoint cfg \<noteq> [] then s3_public_endpoint cfg else s3_endpoint cfg),
                    ss_proxy_redirect = (s3_public_endpoint cfg = []
                      \<or> s3_public_endpoint cfg = s3_endpoint cfg \<and> s3_public_use_ssl cfg = s3_use_ssl cfg),
                    ss_config = (if s3_url_ttl cfg \<le> 0 then cfg\<lparr>s3_url_ttl := 15 * minute\<rparr> else cfg)\<rparr>))"

definition s3_save ::
    "faults \<Rightarrow> s3_client \<Rightarrow> s3_store \<Rightarrow> time \<Rightarrow> string \<Rightarrow> string \<Rightarrow> disk \<Rightarrow> bucket \<Rightarrow> bucket \<times> saved result" where
  "s3_save fl client st now path key d objects =
     (case os_open fl path d of
        Inl e \<Rightarrow> (objects, Inl e)
      | Inr bs \<Rightarrow>
          (case sc_put client key of
             Some e \<Rightarrow> (objects, Inl e)
           | None \<Rightarrow> (objects(key \<mapsto> bs),
                      Inr \<lparr>sv_backend = ''s3'', sv_location = key,
                           sv_expires = Some (now + s3_url_ttl (ss_config st))\<rparr>)))"

definition s3_delete :: "s3_client \<Rightarrow> saved \<Rightarrow> bucket \<Rightarrow> bucket \<times> error option" where
  "s3_delete client sv objects =
     (if sv_location sv = [] then (objects, None)
      else case sc_remove client (sv_location sv) of
        Some e \<Rightarrow> (objects, Some e)
      | None \<Rightarrow> (objects(sv_location sv := None), None))"

text \<open>What serving an artifact sends: the file, or a redirect, marked for the proxy or not.\<close>

datatype served = File string | Redirect string bool

definition s3_serve :: "s3_client \<Rightarrow> s3_store \<Rightarrow> saved \<Rightarrow> string \<Rightarrow> served result" where
  "s3_serve client st sv name =
     (case sc_presign client (sv_location sv)
             (if name \<noteq> [] then Some (''attachment; filename=\"'' @ name @ ''\"'') else None) of
        Inl e \<Rightarrow> Inl e
      | Inr url \<Rightarrow> Inr (Redirect url (ss_proxy_redirect st)))"

definition local_serve :: "saved \<Rightarrow> disk \<Rightarrow> served result" where
  "local_serve sv d = (case d (sv_location sv) of None \<Rightarrow> Inl not_exist | Some _ \<Rightarrow> Inr (File (sv_location sv)))"

section \<open>The interface\<close>

datatype artifact_store = Local_store | S3_store s3_store

definition store_save ::
    "faults \<Rightarrow> s3_client \<Rightarrow> artifact_store \<Rightarrow> time \<Rightarrow> string \<Rightarrow> string \<Rightarrow> disk \<Rightarrow> bucket \<Rightarrow> bucket \<times> saved result" where
  "store_save fl client files now path key d objects =
     (case files of
        Local_store \<Rightarrow> (objects, local_save path key)
      | S3_store st \<Rightarrow> s3_save fl client st now path key d objects)"

definition store_delete ::
    "faults \<Rightarrow> s3_client \<Rightarrow> artifact_store \<Rightarrow> saved \<Rightarrow> disk \<Rightarrow> bucket \<Rightarrow> disk \<times> bucket \<times> error option" where
  "store_delete fl client files sv d objects =
     (case files of
        Local_store \<Rightarrow> (case local_delete fl sv d of (d', e) \<Rightarrow> (d', objects, e))
      | S3_store st \<Rightarrow> (case s3_delete client sv objects of (objects', e) \<Rightarrow> (d, objects', e)))"

definition store_serve ::
    "s3_client \<Rightarrow> artifact_store \<Rightarrow> saved \<Rightarrow> string \<Rightarrow> disk \<Rightarrow> served result" where
  "store_serve client files sv name d =
     (case files of Local_store \<Rightarrow> local_serve sv d | S3_store st \<Rightarrow> s3_serve client st sv name)"

section \<open>The contract of a store\<close>

text \<open>What was saved is held where the store says it is: on the disk, or in the bucket.\<close>

definition holds :: "saved \<Rightarrow> disk \<Rightarrow> bucket \<Rightarrow> byte list option" where
  "holds sv d objects = (if sv_backend sv = ''s3'' then objects (sv_location sv) else d (sv_location sv))"

text \<open>The interface as the pipeline and the API use it: \<open>save\<close> moves a file into the keeping of the
  store, \<open>delete\<close> ends it, and \<open>look\<close> is what the store holds.\<close>

locale artifact_keeper =
  fixes save :: "string \<Rightarrow> string \<Rightarrow> 's \<Rightarrow> 's \<times> saved result"
    and delete :: "saved \<Rightarrow> 's \<Rightarrow> 's \<times> error option"
    and look :: "saved \<Rightarrow> 's \<Rightarrow> byte list option"
    and read :: "string \<Rightarrow> 's \<Rightarrow> byte list option"
  assumes save_holds: "save path key s = (s', Inr sv) \<Longrightarrow> read path s = Some bs \<Longrightarrow> look sv s' = Some bs"
    and save_reads: "save path key s = (s', r) \<Longrightarrow> read p s' = read p s"
    and delete_gone: "save path key s = (s', Inr sv) \<Longrightarrow> sv_location sv \<noteq> [] \<Longrightarrow>
          delete sv t = (t', None) \<Longrightarrow> look sv t' = None"
begin

lemma retry_saves:
  assumes "read path s = Some bs" and "save path key s = (s1, r1)" and "save path key s1 = (s2, Inr sv)"
  shows "look sv s2 = Some bs"
  using save_holds [OF assms(3)] save_reads [OF assms(2), of path] assms(1) by simp

end

interpretation local_keeper: artifact_keeper
  "\<lambda>path key d. (d, local_save path key)" "local_delete fl" "\<lambda>sv d. d (sv_location sv)" "\<lambda>p d. d p" for fl
  by unfold_locales
    (auto simp: local_save_def local_delete_def os_remove_def split: option.splits prod.splits if_splits)

interpretation s3_keeper: artifact_keeper
  "\<lambda>path key (d, b). case s3_save fl client st now path key d b of (b', r) \<Rightarrow> ((d, b'), r)"
  "\<lambda>sv (d, b). case s3_delete client sv b of (b', e) \<Rightarrow> ((d, b'), e)"
  "\<lambda>sv (d, b). b (sv_location sv)" "\<lambda>p (d, b). d p"
  for fl client st now
  by unfold_locales
    (auto simp: s3_save_def s3_delete_def os_open_def split: prod.splits option.splits sum.splits if_splits)

end
