(* ===== verification/Remux.thy ===== *)
theory Remux
  imports Go_Files
begin

text \<open>
  Package \<open>internal/mux\<close>: \<open>tt_remux_avformat\<close>, which copies the video stream of one input and the
  audio stream of another into one container, and the Go function around it. The libraries
  libavformat and libavcodec are an argument, \<open>av_lib\<close>: what they open and find, whether a call
  fails, and which bytes a file has after the calls that wrote it. Freeing memory is left out.
\<close>

section \<open>libavformat\<close>

text \<open>A packet's times are in the time base of its stream, \<open>None\<close> for \<open>AV_NOPTS_VALUE\<close>.\<close>

record packet =
  pk_stream :: int
  pk_pts :: "int option"
  pk_dts :: "int option"
  pk_data :: "byte list"

text \<open>An open input: the packets \<open>av_read_frame\<close> still returns, and the code that ends them.\<close>

record av_input =
  in_packets :: "packet list"
  in_end :: int

text \<open>What has been written: the header, the packets under their output streams (0 is the video,
  1 the audio), the trailer.\<close>

datatype av_event = Header | Written nat packet | Trailer

text \<open>Calls that may fail return a negative code, as in C. \<open>av_rescale\<close> is \<open>av_rescale_q\<close> of a
  timestamp of an input's stream to microseconds. \<open>av_write\<close> gives the code of a write by its
  position, \<open>av_contents\<close> the file after some events.\<close>

record av_lib =
  av_open :: "disk \<Rightarrow> string \<Rightarrow> string \<Rightarrow> int \<times> av_input"
  av_stream_info :: "string \<Rightarrow> int"
  av_best_video :: "av_input \<Rightarrow> int"
  av_best_audio :: "av_input \<Rightarrow> int"
  av_alloc_output :: "string \<Rightarrow> int \<times> bool"
  av_new_stream :: "nat \<Rightarrow> bool"
  av_copy_parameters :: "nat \<Rightarrow> int"
  av_no_file :: "string \<Rightarrow> bool"
  av_io_open :: "string \<Rightarrow> int"
  av_write_header :: int
  av_alloc_packets :: bool
  av_rescale :: "nat \<Rightarrow> int \<Rightarrow> int"
  av_write :: "nat \<Rightarrow> int"
  av_write_trailer :: int
  av_contents :: "av_event list \<Rightarrow> byte list"
  av_strerror :: "int \<Rightarrow> string"

definition averror_eof :: int where "averror_eof = -541478725"
definition averror_enomem :: int where "averror_enomem = -12"
definition averror_unknown :: int where "averror_unknown = -1313558101"

definition set_error :: "av_lib \<Rightarrow> int \<Rightarrow> string \<Rightarrow> string" where
  "set_error av code prefix = take 511 (prefix @ '': '' @ av_strerror av code)"

section \<open>Reading and writing packets\<close>

definition open_input :: "av_lib \<Rightarrow> disk \<Rightarrow> string \<Rightarrow> string \<Rightarrow> (int \<times> string) + av_input" where
  "open_input av d path headers =
     (case av_open av d path headers of
        (ret, inp) \<Rightarrow>
          if ret < 0 then Inl (ret, set_error av ret ''open input'')
          else if av_stream_info av path < 0
          then Inl (av_stream_info av path, set_error av (av_stream_info av path) ''find stream info'')
          else Inr inp)"

text \<open>The next packet of a stream; the others are skipped. \<open>None\<close> is the end of the input.\<close>

fun read_packets :: "av_lib \<Rightarrow> int \<Rightarrow> int \<Rightarrow> packet list \<Rightarrow> packet list \<times> ((int \<times> string) + packet option)" where
  "read_packets av index end_code [] =
     ([], if end_code = averror_eof then Inr None
          else Inl (end_code, set_error av end_code ''read packet''))"
| "read_packets av index end_code (p # ps) =
     (if pk_stream p = index then (ps, Inr (Some p)) else read_packets av index end_code ps)"

definition read_selected_packet :: "av_lib \<Rightarrow> int \<Rightarrow> av_input \<Rightarrow> av_input \<times> ((int \<times> string) + packet option)" where
  "read_selected_packet av index inp =
     (case read_packets av index (in_end inp) (in_packets inp) of
        (ps, r) \<Rightarrow> (inp\<lparr>in_packets := ps\<rparr>, r))"

text \<open>A packet without a time sorts last. \<open>av_rescale_q\<close> returns 64 bits.\<close>

definition packet_time :: "av_lib \<Rightarrow> nat \<Rightarrow> packet \<Rightarrow> int" where
  "packet_time av k p =
     (case (case pk_pts p of None \<Rightarrow> pk_dts p | Some t \<Rightarrow> Some t) of
        None \<Rightarrow> 9223372036854775807
      | Some t \<Rightarrow> av_rescale av k t)"

definition write_packet :: "av_lib \<Rightarrow> nat \<Rightarrow> packet \<Rightarrow> av_event list \<Rightarrow> av_event list \<times> (int \<times> string) option" where
  "write_packet av k p events =
     (let ret = av_write av (length events)
      in if ret < 0 then (events, Some (ret, set_error av ret ''write packet''))
         else (events @ [Written k p], None))"

definition copy_stream :: "av_lib \<Rightarrow> nat \<Rightarrow> (int \<times> string) option" where
  "copy_stream av k =
     (if \<not> av_new_stream av k then Some (averror_enomem, ''create output stream: allocation failed'')
      else if av_copy_parameters av k < 0
      then Some (av_copy_parameters av k, set_error av (av_copy_parameters av k) ''copy codec parameters'')
      else None)"

text \<open>What is still to be copied of an input: the packets to come, and the one that is held.\<close>

definition pending :: "packet option \<Rightarrow> nat" where
  "pending p = (case p of None \<Rightarrow> 0 | Some _ \<Rightarrow> 1)"

lemma read_packets_pending:
  "read_packets av index end_code ps = (ps', Inr p) \<Longrightarrow> length ps' + pending p \<le> length ps"
  by (induction ps) (auto simp: pending_def split: if_splits)

lemma read_selected_pending:
  "read_selected_packet av index inp = (inp', Inr p) \<Longrightarrow>
     length (in_packets inp') + pending p \<le> length (in_packets inp)"
  by (auto simp: read_selected_packet_def dest: read_packets_pending split: prod.splits)

lemma read_selected_less:
  "(inp', Inr p) = read_selected_packet av index inp \<Longrightarrow>
     length (in_packets inp') + (case p of None \<Rightarrow> 0 | Some _ \<Rightarrow> 1) \<le> length (in_packets inp)"
  using read_selected_pending [of av index inp inp' p] by (simp add: pending_def)

text \<open>The loop: the video packet goes first unless the audio packet is strictly earlier; then the next
  packet of that input is read.\<close>

function interleave ::
    "av_lib \<Rightarrow> int \<Rightarrow> int \<Rightarrow> av_input \<Rightarrow> av_input \<Rightarrow> packet option \<Rightarrow> packet option \<Rightarrow> av_event list
       \<Rightarrow> av_event list \<times> (int \<times> string) option" where
  "interleave av vi ai video audio vp ap events =
     (if vp = None \<and> ap = None then (events, None)
      else
        (let write_video = (case vp of None \<Rightarrow> False
               | Some v \<Rightarrow> (case ap of None \<Rightarrow> True | Some a \<Rightarrow> packet_time av 0 v \<le> packet_time av 1 a))
         in if write_video
            then (case write_packet av 0 (the vp) events of
                    (ev, Some e) \<Rightarrow> (ev, Some e)
                  | (ev, None) \<Rightarrow>
                      (case read_selected_packet av vi video of
                         (video', Inl e) \<Rightarrow> (ev, Some e)
                       | (video', Inr vp') \<Rightarrow> interleave av vi ai video' audio vp' ap ev))
            else (case write_packet av 1 (the ap) events of
                    (ev, Some e) \<Rightarrow> (ev, Some e)
                  | (ev, None) \<Rightarrow>
                      (case read_selected_packet av ai audio of
                         (audio', Inl e) \<Rightarrow> (ev, Some e)
                       | (audio', Inr ap') \<Rightarrow> interleave av vi ai video audio' vp ap' ev))))"
  by pat_completeness auto

termination
  by (relation "measure (\<lambda>(av, vi, ai, video, audio, vp, ap, events).
        length (in_packets video) + length (in_packets audio) + pending vp + pending ap)")
     (auto simp: pending_def dest: read_selected_less split: option.splits if_splits)

declare interleave.simps [simp del]

section \<open>The whole remux\<close>

text \<open>What the output file has after some events; a format without a file writes none.\<close>

definition output_file :: "av_lib \<Rightarrow> string \<Rightarrow> av_event list \<Rightarrow> disk \<Rightarrow> disk" where
  "output_file av output_path events d =
     (if av_no_file av output_path then d else d(output_path \<mapsto> av_contents av events))"

text \<open>From the header on. The result is the code and the message of an error.\<close>

definition remux_packets ::
    "av_lib \<Rightarrow> int \<Rightarrow> int \<Rightarrow> av_input \<Rightarrow> av_input \<Rightarrow> av_event list \<times> int \<times> string option" where
  "remux_packets av vi ai video audio =
     (if av_write_header av < 0
      then ([], av_write_header av, Some (set_error av (av_write_header av) ''write header''))
      else if \<not> av_alloc_packets av
      then ([Header], averror_enomem, Some ''allocate packet: allocation failed'')
      else case read_selected_packet av vi video of
        (video', Inl (ret, e)) \<Rightarrow> ([Header], ret, Some e)
      | (video', Inr vp) \<Rightarrow>
          (case read_selected_packet av ai audio of
             (audio', Inl (ret, e)) \<Rightarrow> ([Header], ret, Some e)
           | (audio', Inr ap) \<Rightarrow>
               (case interleave av vi ai video' audio' vp ap [Header] of
                  (events, Some (ret, e)) \<Rightarrow> (events, ret, Some e)
                | (events, None) \<Rightarrow>
                    if av_write_trailer av < 0
                    then (events, av_write_trailer av, Some (set_error av (av_write_trailer av) ''write trailer''))
                    else (events @ [Trailer], av_write_trailer av, None))))"

definition remux_opened ::
    "av_lib \<Rightarrow> av_input \<Rightarrow> av_input \<Rightarrow> string \<Rightarrow> disk \<Rightarrow> disk \<times> int \<times> string option" where
  "remux_opened av video audio output_path d =
     (let vi = av_best_video av video; ai = av_best_audio av audio
      in if vi < 0 then (d, vi, Some (set_error av vi ''find video stream''))
         else if ai < 0 then (d, ai, Some (set_error av ai ''find audio stream''))
         else case av_alloc_output av output_path of
           (ret, allocated) \<Rightarrow>
             if ret < 0 \<or> \<not> allocated
             then (d, ret, Some (set_error av (if ret < 0 then ret else averror_unknown) ''allocate output context''))
             else (case copy_stream av 0 of
               Some (ret, e) \<Rightarrow> (d, ret, Some e)
             | None \<Rightarrow>
                 (case copy_stream av 1 of
                    Some (ret, e) \<Rightarrow> (d, ret, Some e)
                  | None \<Rightarrow>
                      if \<not> av_no_file av output_path \<and> av_io_open av output_path < 0
                      then (d, av_io_open av output_path,
                            Some (set_error av (av_io_open av output_path) ''open output''))
                      else (case remux_packets av vi ai video audio of
                              (events, ret, e) \<Rightarrow> (output_file av output_path events d, ret, e)))))"

definition tt_remux ::
    "av_lib \<Rightarrow> string \<Rightarrow> string \<Rightarrow> string \<Rightarrow> string \<Rightarrow> string \<Rightarrow> disk \<Rightarrow> disk \<times> int \<times> string option" where
  "tt_remux av video_path video_headers audio_path audio_headers output_path d =
     (case open_input av d video_path video_headers of
        Inl (ret, e) \<Rightarrow> (d, ret, Some e)
      | Inr video \<Rightarrow>
          (case open_input av d audio_path audio_headers of
             Inl (ret, e) \<Rightarrow> (d, ret, Some e)
           | Inr audio \<Rightarrow> remux_opened av video audio output_path d))"

text \<open>\<open>RemuxAVFormatWithHeaders\<close>; \<open>ctx0\<close> and \<open>ctx1\<close> are the state of the context around the call.\<close>

definition remux_avformat_with_headers ::
    "av_lib \<Rightarrow> error option \<Rightarrow> error option \<Rightarrow> string \<Rightarrow> string \<Rightarrow> string \<Rightarrow> string \<Rightarrow> string \<Rightarrow> disk
       \<Rightarrow> disk \<times> error option" where
  "remux_avformat_with_headers av ctx0 ctx1 video_path video_headers audio_path audio_headers output_path d =
     (case ctx0 of
        Some e \<Rightarrow> (d, Some e)
      | None \<Rightarrow>
          (case tt_remux av video_path video_headers audio_path audio_headers output_path d of
             (d', ret, err) \<Rightarrow>
               (d', if ret < 0
                    then Some (Err (''libavformat remux failed: '' @ (case err of Some m \<Rightarrow> m | None \<Rightarrow> itoa ret)))
                    else ctx1)))"

definition remux_avformat ::
    "av_lib \<Rightarrow> error option \<Rightarrow> error option \<Rightarrow> string \<Rightarrow> string \<Rightarrow> string \<Rightarrow> disk \<Rightarrow> disk \<times> error option" where
  "remux_avformat av ctx0 ctx1 video_path audio_path output_path d =
     remux_avformat_with_headers av ctx0 ctx1 video_path [] audio_path [] output_path d"

section \<open>The reference: a merge of the two streams\<close>

fun merge_streams :: "av_lib \<Rightarrow> packet list \<Rightarrow> packet list \<Rightarrow> av_event list" where
  "merge_streams av [] as = map (Written 1) as"
| "merge_streams av (v # vs) [] = map (Written 0) (v # vs)"
| "merge_streams av (v # vs) (a # as) =
     (if packet_time av 0 v \<le> packet_time av 1 a
      then Written 0 v # merge_streams av vs (a # as)
      else Written 1 a # merge_streams av (v # vs) as)"

definition packets_of :: "int \<Rightarrow> av_input \<Rightarrow> packet list" where
  "packets_of index inp = filter (\<lambda>p. pk_stream p = index) (in_packets inp)"

fun from_stream :: "nat \<Rightarrow> av_event \<Rightarrow> packet list" where
  "from_stream k (Written j p) = (if j = k then [p] else [])"
| "from_stream k e = []"

definition written :: "nat \<Rightarrow> av_event list \<Rightarrow> packet list" where
  "written k events = concat (map (from_stream k) events)"

fun event_time :: "av_lib \<Rightarrow> av_event \<Rightarrow> int" where
  "event_time av (Written k p) = packet_time av k p"
| "event_time av e = 0"

lemma written_simps [simp]:
  "written k [] = []" "written k (e # es) = from_stream k e @ written k es"
  "written k (xs @ ys) = written k xs @ written k ys"
  by (simp_all add: written_def)

lemma written_map: "written k (map (Written j) ps) = (if j = k then ps else [])"
  by (induction ps) simp_all

lemma merge_written: "written 0 (merge_streams av vs as) = vs \<and> written 1 (merge_streams av vs as) = as"
  by (induction av vs as rule: merge_streams.induct) (simp_all add: written_map)

lemma merge_events: "e \<in> set (merge_streams av vs as) \<Longrightarrow>
    (\<exists>v\<in>set vs. e = Written 0 v) \<or> (\<exists>a\<in>set as. e = Written 1 a)"
  by (induction av vs as rule: merge_streams.induct) (auto split: if_splits)

lemma merge_sorted:
  assumes "sorted (map (packet_time av 0) vs)" and "sorted (map (packet_time av 1) as)"
  shows "sorted (map (event_time av) (merge_streams av vs as))"
  using assms
proof (induction av vs as rule: merge_streams.induct)
  case (3 av v vs a as)
  have bound: "t \<le> event_time av e"
    if "e \<in> set (merge_streams av vs' as')" "\<forall>x\<in>set vs'. t \<le> packet_time av 0 x" "\<forall>x\<in>set as'. t \<le> packet_time av 1 x"
    for e t vs' as'
    using merge_events [OF that(1)] that(2,3) by auto
  show ?case
  proof (cases "packet_time av 0 v \<le> packet_time av 1 a")
    case True
    then have le: "packet_time av (Suc 0) a \<le> t \<Longrightarrow> packet_time av 0 v \<le> t" for t by simp
    have "\<forall>x\<in>set as. packet_time av 0 v \<le> packet_time av (Suc 0) x" using "3.prems"(2) le by simp
    with True 3 show ?thesis by (auto intro!: bound)
  next
    case False
    then have le: "packet_time av 0 v \<le> t \<Longrightarrow> packet_time av (Suc 0) a \<le> t" for t by simp
    have "\<forall>x\<in>set vs. packet_time av (Suc 0) a \<le> packet_time av 0 x" using "3.prems"(1) le by simp
    with False le 3 show ?thesis by (auto intro!: bound)
  qed
qed (simp_all add: o_def)

definition held :: "packet option \<Rightarrow> packet list" where
  "held p = (case p of None \<Rightarrow> [] | Some q \<Rightarrow> [q])"

lemma held_simps [simp]: "held None = []" "held (Some p) = [p]"
  by (simp_all add: held_def)

lemma read_packets_filter:
  "read_packets av index end_code ps = (ps', Inr p) \<Longrightarrow>
     filter (\<lambda>q. pk_stream q = index) ps = held p @ filter (\<lambda>q. pk_stream q = index) ps'
     \<and> (p = None \<longrightarrow> ps' = [] \<and> end_code = averror_eof)"
  by (induction ps) (auto split: if_splits)

lemma read_selected:
  "read_selected_packet av index inp = (inp', Inr p) \<Longrightarrow>
     packets_of index inp = held p @ packets_of index inp' \<and> (p = None \<longrightarrow> packets_of index inp' = [])
     \<and> in_end inp' = in_end inp"
  by (auto simp: read_selected_packet_def packets_of_def dest!: read_packets_filter split: prod.splits)

lemma merge_video_first:
  "as = [] \<or> packet_time av 0 v \<le> packet_time av 1 (hd as) \<Longrightarrow>
     merge_streams av (v # vs) as = Written 0 v # merge_streams av vs as"
  by (cases as) (cases vs; simp)+

lemma merge_audio_first:
  "vs = [] \<or> \<not> packet_time av 0 (hd vs) \<le> packet_time av 1 a \<Longrightarrow>
     merge_streams av vs (a # as) = Written 1 a # merge_streams av vs as"
  by (cases vs) simp_all

text \<open>The loop is the merge of what the two inputs still hold.\<close>

lemma interleave_merge:
  "interleave av vi ai video audio vp ap events = (events', None) \<Longrightarrow>
   (vp = None \<longrightarrow> packets_of vi video = []) \<Longrightarrow> (ap = None \<longrightarrow> packets_of ai audio = []) \<Longrightarrow>
   events' = events @ merge_streams av (held vp @ packets_of vi video) (held ap @ packets_of ai audio)"
proof (induction av vi ai video audio vp ap events arbitrary: events' rule: interleave.induct)
  case (1 av vi ai video audio vp ap events)
  show ?case
  proof (cases "vp = None \<and> ap = None")
    case True
    with 1 show ?thesis by (simp add: interleave.simps)
  next
    case False
    let ?video = "case vp of None \<Rightarrow> False
        | Some v \<Rightarrow> (case ap of None \<Rightarrow> True | Some a \<Rightarrow> packet_time av 0 v \<le> packet_time av 1 a)"
    show ?thesis
    proof (cases ?video)
      case True
      then obtain v where v: "vp = Some v" by (auto split: option.splits)
      from "1.prems"(1) True False v obtain ev video' vp' where w: "write_packet av 0 v events = (ev, None)"
        and r: "read_selected_packet av vi video = (video', Inr vp')"
        and i: "interleave av vi ai video' audio vp' ap ev = (events', None)"
        unfolding interleave.simps [of av vi ai video audio vp ap events]
        by (auto split: prod.splits option.splits sum.splits)
      have ev: "ev = events @ [Written 0 v]" using w by (auto simp: write_packet_def Let_def split: if_splits)
      have w': "(ev, None) = write_packet av 0 (the vp) events" using w v by simp
      note sel = read_selected [OF r]
      have "events' = ev @ merge_streams av (held vp' @ packets_of vi video') (held ap @ packets_of ai audio)"
        by (rule "1.IH"(1) [OF False refl True w' refl r [symmetric] refl i])
           (use sel "1.prems"(3) v in auto)
      moreover have "held ap @ packets_of ai audio = [] \<or> packet_time av 0 v \<le> packet_time av 1 (hd (held ap @ packets_of ai audio))"
        using True v "1.prems"(3) by (cases ap) auto
      ultimately show ?thesis using v sel ev merge_video_first by simp
    next
      case nv: False
      then obtain a where a: "ap = Some a" using False by (auto split: option.splits)
      from "1.prems"(1) nv False a obtain ev audio' ap' where w: "write_packet av 1 a events = (ev, None)"
        and r: "read_selected_packet av ai audio = (audio', Inr ap')"
        and i: "interleave av vi ai video audio' vp ap' ev = (events', None)"
        unfolding interleave.simps [of av vi ai video audio vp ap events]
        by (auto split: prod.splits option.splits sum.splits)
      have ev: "ev = events @ [Written 1 a]" using w by (auto simp: write_packet_def Let_def split: if_splits)
      have w': "(ev, None) = write_packet av 1 (the ap) events" using w a by simp
      note sel = read_selected [OF r]
      have "events' = ev @ merge_streams av (held vp @ packets_of vi video) (held ap' @ packets_of ai audio')"
        by (rule "1.IH"(2) [OF False refl nv w' refl r [symmetric] refl i])
           (use sel "1.prems"(2) a in auto)
      moreover have "held vp @ packets_of vi video = [] \<or> \<not> packet_time av 0 (hd (held vp @ packets_of vi video)) \<le> packet_time av 1 a"
        using nv a "1.prems"(2) by (cases vp) auto
      ultimately show ?thesis using a sel ev merge_audio_first by simp
    qed
  qed
qed

lemma remux_packets_merge:
  assumes "remux_packets av vi ai video audio = (events, ret, e)" and "0 \<le> ret"
  shows "events = Header # merge_streams av (packets_of vi video) (packets_of ai audio) @ [Trailer] \<or> e \<noteq> None"
proof (cases "e = None")
  case True
  with assms obtain video' audio' vp ap ev where v: "read_selected_packet av vi video = (video', Inr vp)"
    and a: "read_selected_packet av ai audio = (audio', Inr ap)"
    and i: "interleave av vi ai video' audio' vp ap [Header] = (ev, None)" and events: "events = ev @ [Trailer]"
    by (auto simp: remux_packets_def split: if_splits prod.splits option.splits sum.splits)
  from interleave_merge [OF i] read_selected [OF v] read_selected [OF a] events show ?thesis by simp
qed simp

lemma remux_frame: "q \<noteq> output_path \<Longrightarrow>
    fst (tt_remux av v vh a ah output_path d) q = d q"
  by (auto simp: tt_remux_def remux_opened_def output_file_def Let_def split: sum.split prod.split option.split)

definition ends_negative :: "av_input \<Rightarrow> bool" where
  "ends_negative inp \<longleftrightarrow> in_end inp < 0"

lemma read_selected_fails:
  "read_selected_packet av index inp = (inp', Inl (ret, e)) \<Longrightarrow> in_end inp = ret"
proof -
  have "read_packets av index end_code ps = (ps', Inl (ret, e)) \<Longrightarrow> end_code = ret" for end_code ps ps'
    by (induction ps) (auto split: if_splits)
  then show "read_selected_packet av index inp = (inp', Inl (ret, e)) \<Longrightarrow> in_end inp = ret"
    by (auto simp: read_selected_packet_def split: prod.splits)
qed

lemma interleave_done: "interleave av vi ai video audio None None events = (events, None)"
  by (simp add: interleave.simps)

lemma interleave_fails:
  "interleave av vi ai video audio vp ap events = (events', Some (ret, e)) \<Longrightarrow>
   ends_negative video \<Longrightarrow> ends_negative audio \<Longrightarrow> ret < 0"
proof (induction av vi ai video audio vp ap events arbitrary: events' rule: interleave.induct)
  case (1 av vi ai video audio vp ap events)
  have keep: "ends_negative inp'" if "(inp', Inr p) = read_selected_packet av k inp" "ends_negative inp" for inp inp' k p
    using that read_selected [OF that(1) [symmetric]] by (simp add: ends_negative_def)
  have fail: "r < 0" if "(inp', Inl (r, m)) = read_selected_packet av k inp" "ends_negative inp" for inp inp' k r m
    using that read_selected_fails [OF that(1) [symmetric]] by (simp add: ends_negative_def)
  have wr: "r < 0" if "write_packet av k p ev = (ev', Some (r, m))" for k p ev ev' r m
    using that by (auto simp: write_packet_def Let_def split: if_splits)
  let ?video = "case vp of None \<Rightarrow> False
      | Some v \<Rightarrow> (case ap of None \<Rightarrow> True | Some a \<Rightarrow> packet_time av 0 v \<le> packet_time av 1 a)"
  have some: "\<not> (vp = None \<and> ap = None)" using "1.prems"(1) by (cases vp; cases ap) (auto simp: interleave_done)
  let ?w = "if ?video then write_packet av 0 (the vp) events else write_packet av 1 (the ap) events"
  obtain ev we where w: "?w = (ev, we)" by fastforce
  show ?case
  proof (cases we)
    case (Some x)
    then have "Some x = Some (ret, e)"
      using "1.prems"(1) some w unfolding interleave.simps [of av vi ai video audio vp ap events]
      by (auto simp: Let_def split: if_splits)
    with Some w wr show ?thesis by (auto split: if_splits)
  next
    case None
    show ?thesis
    proof (cases ?video)
      case True
      then have w': "(ev, None) = write_packet av 0 (the vp) events" using w None by simp
      obtain video' vr where r: "(video', vr) = read_selected_packet av vi video" by (metis surj_pair)
      have next_step: "interleave av vi ai video audio vp ap events = (case vr of
          Inl e \<Rightarrow> (ev, Some e) | Inr vp' \<Rightarrow> interleave av vi ai video' audio vp' ap ev)"
        using True some w' [symmetric] r [symmetric]
        unfolding interleave.simps [of av vi ai video audio vp ap events] by (auto split: sum.splits)
      show ?thesis
      proof (cases vr)
        case (Inl x)
        with next_step "1.prems" r fail show ?thesis by (cases x) auto
      next
        case (Inr vp')
        with next_step "1.prems"(1) have "interleave av vi ai video' audio vp' ap ev = (events', Some (ret, e))" by simp
        from "1.IH"(1) [OF some refl True w' refl r Inr this] keep r Inr "1.prems"(2,3) show ?thesis by blast
      qed
    next
      case False
      then have w': "(ev, None) = write_packet av 1 (the ap) events" using w None by simp
      obtain audio' ar where r: "(audio', ar) = read_selected_packet av ai audio" by (metis surj_pair)
      have next_step: "interleave av vi ai video audio vp ap events = (case ar of
          Inl e \<Rightarrow> (ev, Some e) | Inr ap' \<Rightarrow> interleave av vi ai video audio' vp ap' ev)"
        using False some w' [symmetric] r [symmetric]
        unfolding interleave.simps [of av vi ai video audio vp ap events] by (auto split: sum.splits)
      show ?thesis
      proof (cases ar)
        case (Inl x)
        with next_step "1.prems" r fail show ?thesis by (cases x) auto
      next
        case (Inr ap')
        with next_step "1.prems"(1) have "interleave av vi ai video audio' vp ap' ev = (events', Some (ret, e))" by simp
        from "1.IH"(2) [OF some refl False w' refl r Inr this] keep r Inr "1.prems"(2,3) show ?thesis by blast
      qed
    qed
  qed
qed

text \<open>The library reports failures by negative codes: an output context that could not be allocated,
  the end of an input.\<close>

definition codes_negative :: "av_lib \<Rightarrow> bool" where
  "codes_negative av \<longleftrightarrow>
     (\<forall>p. 0 \<le> fst (av_alloc_output av p) \<longrightarrow> snd (av_alloc_output av p))
     \<and> (\<forall>d p h. 0 \<le> fst (av_open av d p h) \<longrightarrow> ends_negative (snd (av_open av d p h)))"

lemma open_input_ends: "open_input av d p h = Inr inp \<Longrightarrow> codes_negative av \<Longrightarrow> ends_negative inp"
  by (auto simp: open_input_def codes_negative_def split: prod.splits if_splits) (metis fst_conv not_less snd_conv)

lemma remux_packets_ok:
  assumes "remux_packets av vi ai video audio = (events, ret, e)" and "0 \<le> ret"
    and "ends_negative video" and "ends_negative audio"
  shows "events = Header # merge_streams av (packets_of vi video) (packets_of ai audio) @ [Trailer]"
proof -
  have keep: "ends_negative inp'" if "read_selected_packet av k inp = (inp', Inr p)" "ends_negative inp" for inp inp' k p
    using that read_selected [OF that(1)] by (simp add: ends_negative_def)
  have "e = None"
    using assms unfolding remux_packets_def
    by (auto simp: averror_enomem_def ends_negative_def [symmetric] keep
        dest!: read_selected_fails dest: interleave_fails split: if_splits prod.splits sum.splits option.splits)
       (auto simp: ends_negative_def)
  with remux_packets_merge [OF assms(1,2)] show ?thesis by simp
qed

lemma open_input_code: "open_input av d p h = Inl (r, m) \<Longrightarrow> r < 0"
  by (auto simp: open_input_def split: prod.splits if_splits)

lemma copy_stream_code: "copy_stream av k = Some (r, m) \<Longrightarrow> r < 0"
  by (auto simp: copy_stream_def averror_enomem_def split: if_splits)

lemma remux_opened_ok:
  assumes "remux_opened av video audio output_path d = (d', ret, e)" and "0 \<le> ret" and "codes_negative av"
  obtains events where "0 \<le> av_best_video av video" and "0 \<le> av_best_audio av audio"
    and "remux_packets av (av_best_video av video) (av_best_audio av audio) video audio = (events, ret, e)"
    and "d' = output_file av output_path events d"
proof -
  let ?vi = "av_best_video av video" and ?ai = "av_best_audio av audio"
  obtain events r m where p: "remux_packets av ?vi ?ai video audio = (events, r, m)" by (metis surj_pair)
  obtain code allocated where al: "av_alloc_output av output_path = (code, allocated)" by fastforce
  from assms(3) al have neg: "0 \<le> code \<Longrightarrow> allocated" unfolding codes_negative_def by (metis fst_conv snd_conv)
  have v: "0 \<le> ?vi" using assms(1,2) by (auto simp: remux_opened_def Let_def split: if_splits)
  have a: "0 \<le> ?ai" using assms(1,2) v by (auto simp: remux_opened_def Let_def split: if_splits)
  have c: "0 \<le> code" using assms(1,2) v a al by (auto simp: remux_opened_def Let_def split: if_splits)
  have s0: "copy_stream av 0 = None"
    using assms(1,2) v a al c neg copy_stream_code [of av 0]
    by (cases "copy_stream av 0") (auto simp: remux_opened_def Let_def)
  have s1: "copy_stream av 1 = None"
    using assms(1,2) v a al c neg s0 copy_stream_code [of av 1]
    by (cases "copy_stream av 1") (auto simp: remux_opened_def Let_def)
  have f: "\<not> (\<not> av_no_file av output_path \<and> av_io_open av output_path < 0)"
    using assms(1,2) v a al c neg s0 s1 by (auto simp: remux_opened_def Let_def split: if_splits)
  have "d' = output_file av output_path events d \<and> r = ret \<and> m = e"
    using assms(1) v a al c neg s0 s1 f p by (simp add: remux_opened_def Let_def split: if_splits)
  with that v a p show ?thesis by blast
qed

lemma tt_remux_ok:
  assumes "tt_remux av v vh a ah output_path d = (d', ret, e)" and "0 \<le> ret" and "codes_negative av"
    and "\<not> av_no_file av output_path"
  obtains video audio where "open_input av d v vh = Inr video" and "open_input av d a ah = Inr audio"
    and "0 \<le> av_best_video av video" and "0 \<le> av_best_audio av audio"
    and "d' = d(output_path \<mapsto> av_contents av (Header # merge_streams av
            (packets_of (av_best_video av video) video) (packets_of (av_best_audio av audio) audio) @ [Trailer]))"
proof -
  obtain video where v: "open_input av d v vh = Inr video"
    using assms(1,2) open_input_code [of av d v vh]
    by (cases "open_input av d v vh") (auto simp: tt_remux_def split: prod.splits)
  obtain audio where a: "open_input av d a ah = Inr audio"
    using assms(1,2) open_input_code [of av d a ah] v
    by (cases "open_input av d a ah") (auto simp: tt_remux_def split: prod.splits)
  have "remux_opened av video audio output_path d = (d', ret, e)" using assms(1) v a by (simp add: tt_remux_def)
  then obtain events where i: "0 \<le> av_best_video av video" "0 \<le> av_best_audio av audio"
    and p: "remux_packets av (av_best_video av video) (av_best_audio av audio) video audio = (events, ret, e)"
    and d': "d' = output_file av output_path events d"
    using remux_opened_ok assms(2,3) by metis
  from remux_packets_ok [OF p assms(2) open_input_ends [OF v assms(3)] open_input_ends [OF a assms(3)]]
  show ?thesis using that [OF v a i] d' assms(4) by (simp add: output_file_def)
qed

lemma remux_written:
  assumes "remux_avformat_with_headers av ctx0 ctx1 v vh a ah output_path d = (d', None)"
    and "codes_negative av" and "\<not> av_no_file av output_path"
  shows "\<exists>video audio events. open_input av d v vh = Inr video \<and> open_input av d a ah = Inr audio
    \<and> d' = d(output_path \<mapsto> av_contents av (Header # events @ [Trailer]))
    \<and> written 0 events = packets_of (av_best_video av video) video
    \<and> written 1 events = packets_of (av_best_audio av audio) audio
    \<and> (sorted (map (packet_time av 0) (written 0 events)) \<and> sorted (map (packet_time av 1) (written 1 events))
         \<longrightarrow> sorted (map (event_time av) events))"
proof -
  obtain ret e where t: "tt_remux av v vh a ah output_path d = (d', ret, e)" "0 \<le> ret"
    using assms(1) by (auto simp: remux_avformat_with_headers_def split: option.splits prod.splits if_splits)
  obtain video audio where o: "open_input av d v vh = Inr video" "open_input av d a ah = Inr audio"
    and d': "d' = d(output_path \<mapsto> av_contents av (Header # merge_streams av
            (packets_of (av_best_video av video) video) (packets_of (av_best_audio av audio) audio) @ [Trailer]))"
    using tt_remux_ok [OF t assms(2,3)] by blast
  let ?events = "merge_streams av (packets_of (av_best_video av video) video) (packets_of (av_best_audio av audio) audio)"
  have "written 0 ?events = packets_of (av_best_video av video) video"
    "written 1 ?events = packets_of (av_best_audio av audio) audio"
    by (simp_all only: merge_written)
  with o d' merge_sorted show ?thesis by (intro exI [of _ video] exI [of _ audio] exI [of _ ?events]) simp
qed

text \<open>C19: When the remux succeeds, the output file is what the muxer writes for a header, a merge of the
  two streams and a trailer: every packet of the chosen video stream and every packet of the chosen
  audio stream is in it exactly once, in its order, and none of another stream; and if the times of
  each stream do not fall, neither do those of the merge.\<close>

theorem remux_complete:
  assumes "remux_avformat_with_headers av ctx0 ctx1 v vh a ah output_path d = (d', None)"
    and "codes_negative av" and "\<not> av_no_file av output_path"
  shows "\<exists>video audio events. open_input av d v vh = Inr video \<and> open_input av d a ah = Inr audio
    \<and> d' = d(output_path \<mapsto> av_contents av (Header # events @ [Trailer]))
    \<and> written 0 events = packets_of (av_best_video av video) video
    \<and> written 1 events = packets_of (av_best_audio av audio) audio
    \<and> (sorted (map (packet_time av 0) (written 0 events)) \<and> sorted (map (packet_time av 1) (written 1 events))
         \<longrightarrow> sorted (map (event_time av) events))"
  by (rule remux_written [OF assms])

text \<open>Two streams in one file each, with another stream between.\<close>

definition sample_av :: av_lib where
  "sample_av = \<lparr>av_open = (\<lambda>d p h. (0, \<lparr>in_packets =
        (if p = ''v'' then [\<lparr>pk_stream = 0, pk_pts = Some 0, pk_dts = None, pk_data = [1]\<rparr>,
                            \<lparr>pk_stream = 2, pk_pts = Some 1, pk_dts = None, pk_data = [9]\<rparr>,
                            \<lparr>pk_stream = 0, pk_pts = Some 4, pk_dts = None, pk_data = [2]\<rparr>]
         else [\<lparr>pk_stream = 1, pk_pts = Some 3, pk_dts = None, pk_data = [3]\<rparr>]), in_end = averror_eof\<rparr>)),
     av_stream_info = (\<lambda>_. 0), av_best_video = (\<lambda>_. 0), av_best_audio = (\<lambda>_. 1),
     av_alloc_output = (\<lambda>_. (0, True)), av_new_stream = (\<lambda>_. True), av_copy_parameters = (\<lambda>_. 0),
     av_no_file = (\<lambda>_. False), av_io_open = (\<lambda>_. 0), av_write_header = 0, av_alloc_packets = True,
     av_rescale = (\<lambda>k t. t), av_write = (\<lambda>_. 0), av_write_trailer = 0,
     av_contents = (\<lambda>es. concat (map pk_data (concat (map (\<lambda>e. from_stream 0 e @ from_stream 1 e) es)))),
     av_strerror = (\<lambda>_. [])\<rparr>"

lemma sample_av_codes: "codes_negative sample_av"
  by (simp add: codes_negative_def sample_av_def ends_negative_def averror_eof_def)

lemma sample_remux_code:
  "snd (remux_avformat_with_headers sample_av None None ''v'' [] ''a'' [] ''o'' Map.empty) = None
   \<and> fst (remux_avformat_with_headers sample_av None None ''v'' [] ''a'' [] ''o'' Map.empty) ''o'' = Some [1, 3, 2]"
  by code_simp

lemma remux_complete_witness:
  "\<exists>d' events. remux_avformat_with_headers sample_av None None ''v'' [] ''a'' [] ''o'' Map.empty = (d', None)
     \<and> d' ''o'' = Some [1, 3, 2] \<and> d' ''o'' = Some (av_contents sample_av (Header # events @ [Trailer]))"
proof -
  obtain d' where r: "remux_avformat_with_headers sample_av None None ''v'' [] ''a'' [] ''o'' Map.empty = (d', None)"
    and o: "d' ''o'' = Some [1, 3, 2]"
    using sample_remux_code by (metis prod.collapse)
  have "\<not> av_no_file sample_av ''o''" by (simp add: sample_av_def)
  from remux_complete [OF r sample_av_codes this] obtain events
    where "d' = Map.empty(''o'' \<mapsto> av_contents sample_av (Header # events @ [Trailer]))" by blast
  with r o show ?thesis by (metis fun_upd_same)
qed

end
