(* ===== verification/Ffmpeg.thy ===== *)
theory Ffmpeg
  imports Go_Http
begin

text \<open>
  Package \<open>internal/ffmpeg\<close>: the command lines of the \<open>ffmpeg\<close> process. The process is an argument:
  from its command line and the disk to the disk it leaves and, when it fails, the error and the
  text it printed.
\<close>

type_synonym process = "string list \<Rightarrow> disk \<Rightarrow> disk \<times> (error \<times> string) option"

definition quiet_args :: "string list" where
  "quiet_args = [''-y'', ''-hide_banner'', ''-loglevel'', ''error'']"

definition run_ffmpeg :: "process \<Rightarrow> string \<Rightarrow> string list \<Rightarrow> disk \<Rightarrow> disk \<times> error option" where
  "run_ffmpeg exec label args d =
     (case exec args d of
        (d', None) \<Rightarrow> (d', None)
      | (d', Some (e, text)) \<Rightarrow> (d', Some (Wrap (label @ '' failed: '') e ('': '' @ text))))"

definition merge_args :: "string \<Rightarrow> string \<Rightarrow> string \<Rightarrow> string list" where
  "merge_args video_path audio_path output_path =
     quiet_args @ [''-i'', video_path, ''-i'', audio_path, ''-c'', ''copy'', ''-map'', ''0:v:0'',
                   ''-map'', ''1:a:0'', output_path]"

definition merge_copy :: "process \<Rightarrow> string \<Rightarrow> string \<Rightarrow> string \<Rightarrow> disk \<Rightarrow> disk \<times> error option" where
  "merge_copy exec video_path audio_path output_path d =
     run_ffmpeg exec ''ffmpeg merge'' (merge_args video_path audio_path output_path) d"

definition remote_input :: "'u url_lib \<Rightarrow> string \<Rightarrow> string list" where
  "remote_input lib raw_url =
     [''-user_agent'', ''Mozilla/5.0 (X11; Linux x86_64) AppleWebKit/537.36 Chrome/122 Safari/537.36'']
     @ (if contains raw_url ''/proxy/nicovideo''
        then [''-extension_picky'', ''0'', ''-allowed_segment_extensions'', ''ALL''] else [])
     @ (case url_parse lib raw_url of
          Inl _ \<Rightarrow> []
        | Inr u \<Rightarrow>
            if contains (url_host lib u) ''bilivideo'' \<or> contains (url_host lib u) ''akamaized''
            then [''-headers'', ''Referer: https://www.bilibili.com'' @ [CHR 0x0D, CHR 0x0A]] else [])
     @ [''-i'', raw_url]"

definition remote_args :: "'u url_lib \<Rightarrow> string \<Rightarrow> string \<Rightarrow> string \<Rightarrow> string list" where
  "remote_args lib video_url audio_url output_path =
     quiet_args @ remote_input lib video_url @ remote_input lib audio_url
     @ [''-c'', ''copy'', ''-map'', ''0:v:0'', ''-map'', ''1:a:0'', output_path]"

definition remote_audio_args :: "'u url_lib \<Rightarrow> string \<Rightarrow> string \<Rightarrow> string list" where
  "remote_audio_args lib audio_url output_path =
     quiet_args @ remote_input lib audio_url @ [''-c'', ''copy'', ''-map'', ''0:a:0'', ''-vn'', output_path]"

text \<open>The text of a failed remote download is trimmed.\<close>

definition trim_output :: "process \<Rightarrow> process" where
  "trim_output exec args d =
     (case exec args d of (d', r) \<Rightarrow> (d', map_option (\<lambda>(e, text). (e, trim_space text)) r))"

definition download_remote :: "'u url_lib \<Rightarrow> process \<Rightarrow> string \<Rightarrow> string \<Rightarrow> string \<Rightarrow> disk \<Rightarrow> disk \<times> error option" where
  "download_remote lib exec video_url audio_url output_path d =
     run_ffmpeg (trim_output exec) ''ffmpeg remote download'' (remote_args lib video_url audio_url output_path) d"

definition download_remote_audio :: "'u url_lib \<Rightarrow> process \<Rightarrow> string \<Rightarrow> string \<Rightarrow> disk \<Rightarrow> disk \<times> error option" where
  "download_remote_audio lib exec audio_url output_path d =
     run_ffmpeg (trim_output exec) ''ffmpeg remote audio download'' (remote_audio_args lib audio_url output_path) d"

section \<open>Which file the process writes\<close>

text \<open>As its documentation has it, \<open>ffmpeg\<close> writes the output file its command line ends with and no
  other file.\<close>

definition writes_last :: "process \<Rightarrow> bool" where
  "writes_last exec \<longleftrightarrow> (\<forall>args d q. args \<noteq> [] \<longrightarrow> q \<noteq> last args \<longrightarrow> fst (exec args d) q = d q)"

lemma run_ffmpeg_frame:
  "writes_last exec \<Longrightarrow> args \<noteq> [] \<Longrightarrow> q \<noteq> last args \<Longrightarrow> fst (run_ffmpeg exec label args d) q = d q"
  by (auto simp: run_ffmpeg_def writes_last_def split: prod.split option.split) (metis fst_conv)+

lemma trim_output_writes: "writes_last exec \<Longrightarrow> writes_last (trim_output exec)"
  by (auto simp: writes_last_def trim_output_def split: prod.split) (metis fst_conv)

lemma ffmpeg_frames:
  assumes "writes_last exec" and "q \<noteq> output_path"
  shows "fst (merge_copy exec v a output_path d) q = d q"
    and "fst (download_remote lib exec v a output_path d) q = d q"
    and "fst (download_remote_audio lib exec a output_path d) q = d q"
  using assms trim_output_writes [OF assms(1)]
  by (simp_all add: merge_copy_def download_remote_def download_remote_audio_def run_ffmpeg_frame
      merge_args_def remote_args_def remote_audio_args_def)

end
