(* ===== verification/Config.thy ===== *)
theory Config
  imports Go_Http
begin

text \<open>
  Package \<open>internal/config\<close>: the configuration, read from the environment. \<open>getenv\<close> is
  \<open>os.Getenv\<close>, empty for a variable that is not set.
\<close>

record config =
  cf_http_addr :: string
  cf_public_base_url :: string
  cf_typetype_api_base :: string
  cf_data_dir :: string
  cf_database_url :: string
  cf_redis_addr :: string
  cf_job_ttl_seconds :: int
  cf_storage_backend :: string
  cf_s3_endpoint :: string
  cf_s3_public_endpoint :: string
  cf_s3_region :: string
  cf_s3_bucket :: string
  cf_s3_access_key :: string
  cf_s3_secret_key :: string
  cf_s3_use_ssl :: bool
  cf_s3_public_use_ssl :: bool
  cf_s3_path_style :: bool
  cf_artifact_ttl :: int
  cf_max_workers :: int
  cf_download_workers :: int
  cf_chunk_size :: int
  cf_range_mode :: string
  cf_muxer :: string
  cf_http2 :: bool
  cf_max_queue_size :: int
  cf_min_free_bytes :: int
  cf_min_free_percent :: int

section \<open>Reading variables\<close>

definition env :: "(string \<Rightarrow> string) \<Rightarrow> string \<Rightarrow> string \<Rightarrow> string" where
  "env getenv name fallback =
     (let v = trim_space (getenv name) in if v = [] then fallback else v)"

definition positive_or :: "int option \<Rightarrow> int \<Rightarrow> int" where
  "positive_or v fallback = (case v of None \<Rightarrow> fallback | Some n \<Rightarrow> if n \<le> 0 then fallback else n)"

text \<open>\<open>Atoi\<close> and \<open>ParseInt\<close> to 64 bits are the same function here.\<close>

definition env_int :: "(string \<Rightarrow> string) \<Rightarrow> string \<Rightarrow> int \<Rightarrow> int" where
  "env_int getenv name fallback = positive_or (parse_int (env getenv name [])) fallback"

definition env_size :: "(string \<Rightarrow> string) \<Rightarrow> string \<Rightarrow> int \<Rightarrow> int" where
  "env_size getenv name fallback = positive_or (parse_int (env getenv name [])) fallback"

definition env_bool :: "(string \<Rightarrow> string) \<Rightarrow> string \<Rightarrow> bool \<Rightarrow> bool" where
  "env_bool getenv name fallback =
     (let v = to_lower (env getenv name [])
      in if v = ''true'' \<or> v = ''1'' \<or> v = ''yes'' then True
         else if v = ''false'' \<or> v = ''0'' \<or> v = ''no'' then False
         else fallback)"

section \<open>Composite settings\<close>

definition redis_addr :: "(string \<Rightarrow> string) \<Rightarrow> string" where
  "redis_addr getenv =
     (let addr = env getenv ''REDIS_ADDR'' []
      in if addr \<noteq> [] then addr
         else let host = env getenv ''REDIS_HOST'' []
              in if host = [] then [] else host @ '':'' @ env getenv ''REDIS_PORT'' ''6379'')"

definition http_addr :: "(string \<Rightarrow> string) \<Rightarrow> string" where
  "http_addr getenv =
     (let addr = env getenv ''HTTP_ADDR'' []
      in if addr \<noteq> [] then addr else '':'' @ env getenv ''HTTP_PORT'' ''18093'')"

definition database_url :: "(string \<Rightarrow> string) \<Rightarrow> string" where
  "database_url getenv =
     (let url = env getenv ''DATABASE_URL'' []; raw = env getenv ''DB_URL'' []
      in if url \<noteq> [] then url
         else if raw = [] then []
         else let user = query_escape (env getenv ''DB_USER'' ''typetype'');
                  password = query_escape (env getenv ''DB_PASSWORD'' ''typetype'')
              in if has_prefix raw ''jdbc:postgresql://''
                 then ''postgres://'' @ user @ '':'' @ password @ ''@''
                      @ trim_prefix raw ''jdbc:postgresql://'' @ ''?sslmode=disable''
                 else raw)"

definition storage_backend_setting :: "(string \<Rightarrow> string) \<Rightarrow> string" where
  "storage_backend_setting getenv =
     (let v = to_lower (env getenv ''STORAGE_BACKEND'' [])
      in if v \<noteq> [] then v
         else if env getenv ''S3_ENDPOINT'' [] \<noteq> [] \<and> env getenv ''S3_BUCKET'' [] \<noteq> []
                 \<and> env getenv ''S3_ACCESS_KEY'' [] \<noteq> [] then ''s3''
         else ''local'')"

definition parse_s3_endpoint :: "'u url_lib \<Rightarrow> (string \<Rightarrow> string) \<Rightarrow> string \<Rightarrow> string \<times> bool" where
  "parse_s3_endpoint lib getenv name =
     (let raw = env getenv name [];
          bare = (trim_prefix (trim_prefix raw ''https://'') ''http://'', True)
      in if raw = [] then ([], True)
         else case url_parse lib raw of
           Inl _ \<Rightarrow> bare
         | Inr u \<Rightarrow> if url_host lib u \<noteq> [] then (url_host lib u, url_scheme lib u = ''https'') else bare)"

definition load_config :: "'u url_lib \<Rightarrow> (string \<Rightarrow> string) \<Rightarrow> config" where
  "load_config lib getenv =
     (let (s3_endpoint, s3_ssl) = parse_s3_endpoint lib getenv ''S3_ENDPOINT'';
          (s3_public_endpoint, s3_public_ssl) = parse_s3_endpoint lib getenv ''S3_PUBLIC_ENDPOINT''
      in \<lparr>cf_http_addr = http_addr getenv,
          cf_public_base_url = trim_right ''/'' (env getenv ''PUBLIC_BASE_URL'' ''http://localhost:18093''),
          cf_typetype_api_base = trim_right ''/'' (env getenv ''TYPETYPE_API_BASE'' ''http://typetype-server:8080''),
          cf_data_dir = env getenv ''DATA_DIR'' ''data'',
          cf_database_url = database_url getenv,
          cf_redis_addr = redis_addr getenv,
          cf_job_ttl_seconds = env_int getenv ''JOB_TTL_SECONDS'' 600,
          cf_storage_backend = storage_backend_setting getenv,
          cf_s3_endpoint = s3_endpoint,
          cf_s3_public_endpoint = s3_public_endpoint,
          cf_s3_region = env getenv ''S3_REGION'' ''garage'',
          cf_s3_bucket = env getenv ''S3_BUCKET'' [],
          cf_s3_access_key = env getenv ''S3_ACCESS_KEY'' [],
          cf_s3_secret_key = env getenv ''S3_SECRET_KEY'' [],
          cf_s3_use_ssl = env_bool getenv ''S3_USE_SSL'' s3_ssl,
          cf_s3_public_use_ssl = env_bool getenv ''S3_PUBLIC_USE_SSL'' s3_public_ssl,
          cf_s3_path_style = env_bool getenv ''S3_PATH_STYLE'' True,
          cf_artifact_ttl = env_int getenv ''ARTIFACT_URL_TTL_SECONDS''
            (env_int getenv ''S3_ARTIFACT_TTL_SECONDS'' 7200),
          cf_max_workers = env_int getenv ''MAX_CONCURRENT_WORKERS'' 2,
          cf_download_workers = env_int getenv ''DOWNLOAD_WORKERS'' 8,
          cf_chunk_size = env_size getenv ''DOWNLOAD_CHUNK_SIZE'' (10 * 1048576),
          cf_range_mode = env getenv ''DOWNLOAD_RANGE_MODE'' ''query'',
          cf_muxer = env getenv ''MUXER'' ''avformat'',
          cf_http2 = env_bool getenv ''DOWNLOAD_HTTP2'' True,
          cf_max_queue_size = env_int getenv ''MAX_QUEUE_SIZE'' 100,
          cf_min_free_bytes = env_size getenv ''STORAGE_MIN_FREE_BYTES'' (10 * 1073741824),
          cf_min_free_percent = env_int getenv ''STORAGE_MIN_FREE_PERCENT'' 20\<rparr>)"

definition compose_postgres_url :: "string \<Rightarrow> int \<Rightarrow> string \<Rightarrow> string \<Rightarrow> string \<Rightarrow> string" where
  "compose_postgres_url host port database user password =
     ''postgres://'' @ query_escape user @ '':'' @ query_escape password @ ''@'' @ host @ '':''
     @ itoa port @ ''/'' @ database @ ''?sslmode=disable''"

section \<open>What every environment gives\<close>

lemma positive_or_range: "0 < fallback \<Longrightarrow> is_i64 fallback \<Longrightarrow> pred_option is_i64 v \<Longrightarrow>
    0 < positive_or v fallback \<and> is_i64 (positive_or v fallback)"
  by (cases v) (auto simp: positive_or_def)

lemma parse_int_i64: "pred_option is_i64 (parse_int s)"
  by (auto simp: parse_int_def Let_def)

lemma env_int_range: "0 < fallback \<Longrightarrow> is_i64 fallback \<Longrightarrow> 0 < env_int getenv name fallback \<and> is_i64 (env_int getenv name fallback)"
  unfolding env_int_def by (rule positive_or_range) (simp_all add: parse_int_i64)

lemma env_size_range: "0 < fallback \<Longrightarrow> is_i64 fallback \<Longrightarrow> 0 < env_size getenv name fallback \<and> is_i64 (env_size getenv name fallback)"
  unfolding env_size_def by (rule positive_or_range) (simp_all add: parse_int_i64)

lemma env_nonempty: "fallback \<noteq> [] \<Longrightarrow> env getenv name fallback \<noteq> []"
  by (simp add: env_def Let_def)

definition counter_ok :: "int \<Rightarrow> bool" where
  "counter_ok n \<longleftrightarrow> 0 < n \<and> is_i64 n"

lemma env_counter: "counter_ok fallback \<Longrightarrow> counter_ok (env_int getenv name fallback)"
  "counter_ok fallback \<Longrightarrow> counter_ok (env_size getenv name fallback)"
  by (simp_all add: counter_ok_def env_int_range env_size_range)

lemma default_counter: "0 < n \<Longrightarrow> n \<le> 9223372036854775807 \<Longrightarrow> counter_ok n"
  by (simp add: counter_ok_def is_i64_iff)

definition counters :: "config \<Rightarrow> int list" where
  "counters c = [cf_job_ttl_seconds c, cf_artifact_ttl c, cf_max_workers c, cf_download_workers c,
                 cf_chunk_size c, cf_max_queue_size c, cf_min_free_bytes c, cf_min_free_percent c]"


end
