(* ===== verification/Pipeline.thy ===== *)
theory Pipeline
  imports Capacity Artifact_Store Stream_Client Config Remux Ffmpeg Job_Interleaving
    Range_Download Sabr_Download
begin

text \<open>
  Package \<open>internal/pipeline\<close>: a worker takes a job from the queue and processes it: extract the
  streams, select, reserve disk, download, mux, keep the artifact, and record how it ended
  (\<open>runner.go\<close>, \<open>lifecycle.go\<close>, \<open>download.go\<close>, \<open>media.go\<close>, \<open>remote.go\<close>, \<open>remote_mux.go\<close>, \<open>sabr.go\<close>,
  \<open>sabr_runner.go\<close>, \<open>retry.go\<close>, \<open>failure.go\<close>, \<open>options.go\<close>, \<open>work_cleanup.go\<close>). It calls the job
  store, the disk monitor, the two downloaders, the muxers and the artifact store, which are the
  definitions of their theories. Other goroutines act between its steps.
\<close>

section \<open>Options, results and errors\<close>

definition codec_prefix :: "string \<Rightarrow> string" where
  "codec_prefix v =
     (let c = to_lower (trim_space v)
      in if c = ''h264'' \<or> c = ''x264'' then ''avc1''
         else if c = ''h265'' \<or> c = ''hevc'' \<or> c = ''x265'' then ''hev1''
         else if c = ''av1'' then ''av01''
         else if c = ''aac'' then ''mp4a''
         else c)"

definition is_audio_only :: "options \<Rightarrow> bool" where
  "is_audio_only opts \<longleftrightarrow> trim_space (to_lower (opt_mode opts)) = ''audio''"

definition parse_itag :: "string \<Rightarrow> int" where
  "parse_itag v = (case parse_int (trim_space v) of None \<Rightarrow> 0 | Some n \<Rightarrow> n)"

definition selector_options :: "options \<Rightarrow> sel_options" where
  "selector_options opts =
     (let c1 = trim_space (opt_container opts);
          c2 = (if c1 = [] then trim_space (opt_format opts) else c1);
          c3 = (if c2 = [] then ''mp4'' else c2)
      in \<lparr>so_container = c3,
          so_max_height = (case opt_height opts of None \<Rightarrow> 1080 | Some h \<Rightarrow> if h > 0 then h else 1080),
          so_video_codec_prefix = codec_prefix (opt_video_codec opts),
          so_audio_codec_prefix = codec_prefix (opt_audio_codec opts),
          so_video_itag = parse_itag (opt_video_itag opts),
          so_audio_itag = parse_itag (opt_audio_itag opts)\<rparr>)"

definition resolved_of :: "selection \<Rightarrow> string \<Rightarrow> resolved_output" where
  "resolved_of sel name =
     \<lparr>res_video_itag = itoa (v_itag (sel_video sel)), res_audio_itag = itoa (a_itag (sel_audio sel)),
      res_height = v_height (sel_video sel), res_fps = v_fps (sel_video sel),
      res_video_codec = string_value (v_codec (sel_video sel)),
      res_audio_codec = string_value (a_codec (sel_audio sel)),
      res_container = sel_container sel, res_file_name = name\<rparr>"

definition audio_resolved_of :: "audio_selection \<Rightarrow> string \<Rightarrow> resolved_output" where
  "audio_resolved_of sel name =
     \<lparr>res_video_itag = [], res_audio_itag = itoa (a_itag (as_audio sel)), res_height = 0, res_fps = 0,
      res_video_codec = [], res_audio_codec = string_value (a_codec (as_audio sel)),
      res_container = as_container sel, res_file_name = name\<rparr>"

definition failure_code :: "error option \<Rightarrow> error \<Rightarrow> string" where
  "failure_code ctx err =
     (if ctx \<noteq> None \<or> errors_is err Canceled then ''cancelled''
      else if errors_is err Insufficient_storage then ''insufficient_storage''
      else ''download_failed'')"

text \<open>\<open>runParallel\<close>: the errors in the order in which the tasks ended; the first one is returned.\<close>

fun run_parallel :: "error option list \<Rightarrow> error option" where
  "run_parallel [] = None"
| "run_parallel (None # rs) = run_parallel rs"
| "run_parallel (Some e # rs) = Some e"

section \<open>Progress\<close>

text \<open>The three Go maps of \<open>combinedProgress\<close>, by the name of the source. \<open>speed_of\<close> is the
  floating-point quotient of bytes and elapsed time, as \<open>int64\<close>.\<close>

record combined =
  cb_downloaded :: "(string \<times> int) list"
  cb_speed :: "(string \<times> int) list"
  cb_total :: "(string \<times> int) list"

definition new_combined :: combined where
  "new_combined = \<lparr>cb_downloaded = [], cb_speed = [], cb_total = []\<rparr>"

definition map_total :: "(string \<times> int) list \<Rightarrow> int" where
  "map_total m = foldl (\<lambda>s v. wrap64 (s + v)) 0 (map snd m)"

definition combined_add :: "(int \<Rightarrow> int \<Rightarrow> int) \<Rightarrow> dl_progress \<Rightarrow> combined \<Rightarrow> combined" where
  "combined_add speed_of p c =
     \<lparr>cb_downloaded = AList.update (dp_name p) (dp_downloaded p) (cb_downloaded c),
      cb_speed = AList.update (dp_name p) (speed_of (dp_downloaded p) (dp_elapsed p)) (cb_speed c),
      cb_total = (if dp_total p > 0 then AList.update (dp_name p) (dp_total p) (cb_total c) else cb_total c)\<rparr>"

text \<open>The call of \<open>update\<close>: the total known so far, and the progress the store is given.\<close>

definition combined_update :: "combined \<Rightarrow> int \<Rightarrow> int \<times> progress" where
  "combined_update c known =
     (let probed = map_total (cb_total c); known' = (if probed > 0 then probed else known)
      in (known', \<lparr>pg_stage = ''download'', pg_downloaded = map_total (cb_downloaded c),
                   pg_total = known', pg_speed = map_total (cb_speed c)\<rparr>))"

fun interleave_calls :: "bool list \<Rightarrow> 'a list \<Rightarrow> 'a list \<Rightarrow> 'a list" where
  "interleave_calls (True # bs) (x # xs) ys = x # interleave_calls bs xs ys"
| "interleave_calls (False # bs) xs (y # ys) = y # interleave_calls bs xs ys"
| "interleave_calls _ xs ys = xs @ ys"

definition sabr_progress :: "(int \<Rightarrow> int \<Rightarrow> int) \<Rightarrow> int \<Rightarrow> int \<Rightarrow> int \<Rightarrow> progress" where
  "sabr_progress speed_of elapsed known downloaded =
     (let d = (if known > 0 \<and> downloaded > known then known else downloaded)
      in \<lparr>pg_stage = ''download'', pg_downloaded = d, pg_total = known,
          pg_speed = (if elapsed > 0 then speed_of d elapsed else 0)\<rparr>)"

section \<open>Files\<close>

definition remove_path :: "faults \<Rightarrow> string \<Rightarrow> disk \<Rightarrow> disk" where
  "remove_path fl p d = fst (os_remove fl p d)"

definition cleanup_work :: "faults \<Rightarrow> paths \<Rightarrow> bool \<Rightarrow> disk \<Rightarrow> disk" where
  "cleanup_work fl ps preserve_output d =
     (let d1 = remove_path fl (ap_audio ps) (remove_path fl (ap_video ps) d)
      in if preserve_output then d1 else remove_path fl (ap_output ps) d1)"

definition media_path :: "'u url_lib \<Rightarrow> string \<Rightarrow> string result" where
  "media_path lib raw_url = strip_fragment lib raw_url"

text \<open>The headers in the order \<open>names\<close> in which the Go map gives them.\<close>

definition header_lines :: "'u url_lib \<Rightarrow> string list \<Rightarrow> string \<Rightarrow> string" where
  "header_lines lib names raw_url =
     (let headers = media_headers lib raw_url False
      in concat (map (\<lambda>name. case headers name of
           None \<Rightarrow> [] | Some v \<Rightarrow> name @ '': '' @ v @ [CHR 0x0D, CHR 0x0A]) names))"

section \<open>The world of a worker\<close>

text \<open>The parts of the process a worker shares with the other goroutines, the objects of the bucket,
  and the state of its job's context. \<open>w_tick\<close> numbers the steps.\<close>

record world =
  w_tick :: nat
  w_store :: store
  w_monitor :: monitor
  w_disk :: disk
  w_objects :: bucket
  w_ctx :: "error option"

text \<open>The surroundings: the configuration, the clocks, what the other goroutines do before a step
  (\<open>rn_pass\<close>), the TypeType server, the file system's answers, the two downloaders' surroundings,
  libavformat, the \<open>ffmpeg\<close> process and the artifact store. What may differ from one try to the next
  depends on the step.\<close>

record 'u runner =
  rn_lib :: "'u url_lib"
  rn_config :: config
  rn_fmt :: "time \<Rightarrow> string"
  rn_clock :: "nat \<Rightarrow> time"
  rn_clock_bc :: "nat \<Rightarrow> time"
  rn_pass :: "nat \<Rightarrow> world \<Rightarrow> world"
  rn_parent :: "error option"
  rn_cancel :: nat
  rn_server :: "nat \<Rightarrow> request \<Rightarrow> http_response result"
  rn_decode :: "reader \<Rightarrow> stream_response result"
  rn_stat :: "nat \<Rightarrow> statfs result"
  rn_mkdir :: "string \<Rightarrow> error option"
  rn_faults :: faults
  rn_file :: "string \<Rightarrow> file_env"
  rn_fuel :: nat
  rn_order :: "bool list"
  rn_audio_first :: bool
  rn_sabr :: "int \<Rightarrow> attempt_env"
  rn_report_time :: "nat \<Rightarrow> time"
  rn_speed :: "int \<Rightarrow> int \<Rightarrow> int"
  rn_av :: "nat \<Rightarrow> av_lib"
  rn_header_names :: "string list"
  rn_ffmpeg :: "nat \<Rightarrow> process"
  rn_s3 :: "nat \<Rightarrow> s3_client"
  rn_files :: artifact_store

text \<open>A step of the worker: \<open>None\<close> while it has not come to an end.\<close>

type_synonym 'a act = "world \<Rightarrow> (world \<times> 'a result) option"

definition pass_time :: "'u runner \<Rightarrow> world \<Rightarrow> world" where
  "pass_time rn w = (rn_pass rn (w_tick w) w)\<lparr>w_tick := Suc (w_tick w)\<rparr>"

definition store_step :: "'u runner \<Rightarrow> (time \<Rightarrow> time \<Rightarrow> store \<Rightarrow> store) \<Rightarrow> world \<Rightarrow> world" where
  "store_step rn f w =
     (let w1 = pass_time rn w
      in w1\<lparr>w_store := f (rn_clock rn (w_tick w)) (rn_clock_bc rn (w_tick w)) (w_store w1)\<rparr>)"

definition show_progress :: "'u runner \<Rightarrow> string \<Rightarrow> progress \<Rightarrow> world \<Rightarrow> world" where
  "show_progress rn i p w = store_step rn (\<lambda>_ t. set_progress (rn_fmt rn) t i p) w"

definition show_resolved :: "'u runner \<Rightarrow> string \<Rightarrow> string \<Rightarrow> resolved_output \<Rightarrow> world \<Rightarrow> world" where
  "show_resolved rn i title res w = store_step rn (\<lambda>_ t. resolve (rn_fmt rn) t i title res) w"

text \<open>An operation of the disk, after the others had their turn.\<close>

definition disk_step :: "'u runner \<Rightarrow> (nat \<Rightarrow> disk \<Rightarrow> disk) \<Rightarrow> world \<Rightarrow> world" where
  "disk_step rn f w = (let w1 = pass_time rn w in w1\<lparr>w_disk := f (w_tick w) (w_disk w1)\<rparr>)"

definition bind_act :: "'a act \<Rightarrow> ('a \<Rightarrow> 'b act) \<Rightarrow> 'b act" where
  "bind_act m k w =
     (case m w of
        None \<Rightarrow> None
      | Some (w', Inl e) \<Rightarrow> Some (w', Inl e)
      | Some (w', Inr x) \<Rightarrow> k x w')"

section \<open>Retry\<close>

fun retry_loop :: "'u runner \<Rightarrow> int \<Rightarrow> string \<Rightarrow> 'a act \<Rightarrow> int list \<Rightarrow> error \<Rightarrow> 'a act" where
  "retry_loop rn attempts label run [] lst w =
     Some (w, Inl (Wrap (label @ '' failed after '' @ itoa attempts @ '' attempts: '') lst []))"
| "retry_loop rn attempts label run (attempt # later) lst w =
     (let w0 = pass_time rn w
      in case w_ctx w0 of
           Some e \<Rightarrow> Some (w0, Inl e)
         | None \<Rightarrow>
             (case run w0 of
                None \<Rightarrow> None
              | Some (w1, Inr x) \<Rightarrow> Some (w1, Inr x)
              | Some (w1, Inl e) \<Rightarrow>
                  if attempt < attempts
                  then (let w2 = pass_time rn w1
                        in case w_ctx w2 of
                             Some c \<Rightarrow> Some (w2, Inl c)
                           | None \<Rightarrow> retry_loop rn attempts label run later e w2)
                  else retry_loop rn attempts label run later e w1))"

definition retry :: "'u runner \<Rightarrow> int \<Rightarrow> string \<Rightarrow> 'a act \<Rightarrow> 'a act" where
  "retry rn attempts label run =
     (let n = (if attempts \<le> 0 then 1 else attempts)
      in retry_loop rn n label run [1..n] (Err []))"

section \<open>Downloading\<close>

text \<open>Clocks of the duration in milliseconds: \<open>time.Since(started).Milliseconds()\<close>.\<close>

definition elapsed_ms :: "'u runner \<Rightarrow> nat \<Rightarrow> nat \<Rightarrow> int" where
  "elapsed_ms rn t0 t1 = milliseconds (sub_time (rn_clock rn t1) (rn_clock rn t0))"

definition pipeline_dl_options :: "config \<Rightarrow> int \<Rightarrow> dl_options" where
  "pipeline_dl_options cfg progress_bytes =
     \<lparr>do_chunk_size = cf_chunk_size cfg, do_workers = cf_download_workers cfg, do_retries = 4,
      do_buffer_size = 256 * 1024, do_range_mode = cf_range_mode cfg, do_progress_bytes = progress_bytes\<rparr>"

fun show_calls :: "'u runner \<Rightarrow> string \<Rightarrow> dl_progress list \<Rightarrow> combined \<Rightarrow> int \<Rightarrow> world \<Rightarrow> world" where
  "show_calls rn i [] c known w = w"
| "show_calls rn i (p # ps) c known w =
     (let c' = combined_add (rn_speed rn) p c; (known', pg) = combined_update c' known
      in show_calls rn i ps c' known' (show_progress rn i pg w))"

text \<open>The two downloads write different files, so the disk is the same in whatever order their writes
  come; the model lets the video go first. Their progress calls interleave by \<open>rn_order\<close>, and
  \<open>rn_audio_first\<close> says which error reaches the channel first.\<close>

definition download_media :: "'u runner \<Rightarrow> string \<Rightarrow> selection \<Rightarrow> paths \<Rightarrow> int act" where
  "download_media rn i sel ps w =
     (let w1 = pass_time rn w;
          opts = pipeline_dl_options (rn_config rn) (push_bit 20 16);
          known = add64 (v_content_length (sel_video sel)) (a_content_length (sel_audio sel))
      in case download_file (rn_lib rn) (rn_file rn ''video'') (rn_fuel rn)
               \<lparr>src_name = ''video'', src_url = v_url (sel_video sel), src_size = v_content_length (sel_video sel)\<rparr>
               (ap_video ps) opts (w_disk w1) of
           None \<Rightarrow> None
         | Some (d1, video_calls, video_r) \<Rightarrow>
             (case download_file (rn_lib rn) (rn_file rn ''audio'') (rn_fuel rn)
                 \<lparr>src_name = ''audio'', src_url = a_url (sel_audio sel), src_size = a_content_length (sel_audio sel)\<rparr>
                 (ap_audio ps) opts d1 of
                None \<Rightarrow> None
              | Some (d2, audio_calls, audio_r) \<Rightarrow>
                  (let w2 = show_calls rn i (interleave_calls (rn_order rn) video_calls audio_calls)
                              new_combined known (w1\<lparr>w_disk := d2\<rparr>)
                   in Some (w2, case run_parallel
                        (if rn_audio_first rn then [audio_r, video_r] else [video_r, audio_r]) of
                          Some e \<Rightarrow> Inl e
                        | None \<Rightarrow> Inr (elapsed_ms rn (w_tick w) (w_tick w2))))))"

definition download_audio :: "'u runner \<Rightarrow> string \<Rightarrow> audio_selection \<Rightarrow> paths \<Rightarrow> int act" where
  "download_audio rn i sel ps w =
     (let w1 = pass_time rn w
      in case download_file (rn_lib rn) (rn_file rn ''audio'') (rn_fuel rn)
               \<lparr>src_name = ''audio'', src_url = a_url (as_audio sel), src_size = a_content_length (as_audio sel)\<rparr>
               (ap_output ps) (pipeline_dl_options (rn_config rn) (push_bit 20 4)) (w_disk w1) of
           None \<Rightarrow> None
         | Some (d1, calls, r) \<Rightarrow>
             (let w2 = show_calls rn i calls new_combined (a_content_length (as_audio sel)) (w1\<lparr>w_disk := d1\<rparr>)
              in Some (w2, case r of Some e \<Rightarrow> Inl e | None \<Rightarrow> Inr (elapsed_ms rn (w_tick w) (w_tick w2)))))"

text \<open>The calls of \<open>sabrProgress\<close> are those of the reporter of the SABR download.\<close>

definition reporter_calls :: "'u runner \<Rightarrow> report list \<Rightarrow> int list" where
  "reporter_calls rn reports =
     rp_calls (fst (foldl (\<lambda>(r, k). \<lambda>e. (apply_report e (rn_report_time rn k) r, Suc k))
       (new_reporter True (rn_report_time rn 0), 0) reports))"

fun show_sabr_calls :: "'u runner \<Rightarrow> string \<Rightarrow> nat \<Rightarrow> int \<Rightarrow> int list \<Rightarrow> world \<Rightarrow> world" where
  "show_sabr_calls rn i t0 known [] w = w"
| "show_sabr_calls rn i t0 known (n # ns) w =
     (let pg = sabr_progress (rn_speed rn) (sub_time (rn_clock rn (w_tick w)) (rn_clock rn t0)) known n
      in show_sabr_calls rn i t0 known ns (show_progress rn i pg w))"

definition sabr_download :: "'u runner \<Rightarrow> string \<Rightarrow> sabr_options \<Rightarrow> int act" where
  "sabr_download rn i opts w =
     (let w1 = show_progress rn i (zero_progress\<lparr>pg_stage := ''download'', pg_total := sb_expected_bytes opts\<rparr>) w;
          w2 = pass_time rn w1
      in case download (rn_lib rn) (rn_sabr rn) opts (w_disk w2) of
           None \<Rightarrow> None
         | Some (d, reports, r) \<Rightarrow>
             (let w3 = show_sabr_calls rn i (w_tick w) (sb_expected_bytes opts) (reporter_calls rn reports)
                         (w2\<lparr>w_disk := d\<rparr>)
              in Some (w3, case r of Some e \<Rightarrow> Inl e | None \<Rightarrow> Inr (elapsed_ms rn (w_tick w) (w_tick w3)))))"

text \<open>The base URL of the client of \<open>NewRunner\<close>.\<close>

definition rn_base :: "'u runner \<Rightarrow> string" where
  "rn_base rn = new_client (cf_typetype_api_base (rn_config rn))"

definition sabr_options_of :: "'u runner \<Rightarrow> job_record \<Rightarrow> selection \<Rightarrow> paths \<Rightarrow> sabr_options" where
  "sabr_options_of rn r sel ps =
     \<lparr>sb_manifest_url = media_url (rn_base rn) (v_manifest_url (sel_video sel)),
      sb_authorization = authorization r, sb_video_itag = v_itag (sel_video sel),
      sb_audio_itag = a_itag (sel_audio sel),
      sb_audio_track_id = string_value (a_audio_track_id (sel_audio sel)), sb_audio_only = False,
      sb_video_path = ap_video ps, sb_audio_path = ap_audio ps,
      sb_expected_bytes = add64 (v_content_length (sel_video sel)) (a_content_length (sel_audio sel)),
      sb_parts = 0, sb_idle_timeout = 0\<rparr>"

definition sabr_audio_options_of :: "'u runner \<Rightarrow> job_record \<Rightarrow> audio_selection \<Rightarrow> paths \<Rightarrow> sabr_options" where
  "sabr_audio_options_of rn r sel ps =
     \<lparr>sb_manifest_url = media_url (rn_base rn) (a_manifest_url (as_audio sel)),
      sb_authorization = authorization r, sb_video_itag = 0, sb_audio_itag = a_itag (as_audio sel),
      sb_audio_track_id = string_value (a_audio_track_id (as_audio sel)), sb_audio_only = True,
      sb_video_path = [], sb_audio_path = ap_output ps,
      sb_expected_bytes = a_content_length (as_audio sel), sb_parts = 0, sb_idle_timeout = 0\<rparr>"

section \<open>Muxing\<close>

text \<open>\<open>merge\<close>; the context is read again after libavformat has run. The \<open>%q\<close> of an unknown muxer's name
  adds the quotes only: a name with characters it would escape is printed as it is.\<close>

definition merge_media :: "'u runner \<Rightarrow> string \<Rightarrow> string \<Rightarrow> string \<Rightarrow> unit act" where
  "merge_media rn video_path audio_path output_path w =
     (let w1 = pass_time rn w; muxer = cf_muxer (rn_config rn); ended = (\<lambda>w r. Some (w, case r of None \<Rightarrow> Inr () | Some e \<Rightarrow> Inl e))
      in if muxer = ''avformat''
         then (case remux_avformat (rn_av rn (w_tick w)) (w_ctx w) (w_ctx w1) video_path audio_path output_path (w_disk w1) of
                 (d, r) \<Rightarrow> ended (w1\<lparr>w_disk := d\<rparr>) r)
         else if muxer = ''ffmpeg''
         then (case merge_copy (rn_ffmpeg rn (w_tick w)) video_path audio_path output_path (w_disk w1) of
                 (d, r) \<Rightarrow> ended (w1\<lparr>w_disk := d\<rparr>) r)
         else ended w1 (Some (Err (''unsupported muxer '' @ [CHR 0x22] @ muxer @ [CHR 0x22]))))"

definition merge_remote :: "'u runner \<Rightarrow> string \<Rightarrow> string \<Rightarrow> string \<Rightarrow> unit act" where
  "merge_remote rn video_url audio_url output_path w =
     (let w1 = pass_time rn w; lines = header_lines (rn_lib rn) (rn_header_names rn);
          ended = (\<lambda>w r. Some (w, case r of None \<Rightarrow> Inr () | Some e \<Rightarrow> Inl e))
      in if cf_muxer (rn_config rn) \<noteq> ''avformat''
         then ended w1 (Some (Err ''remote mux requires avformat muxer''))
         else case media_path (rn_lib rn) video_url of
           Inl e \<Rightarrow> ended w1 (Some e)
         | Inr video_path \<Rightarrow>
             (case media_path (rn_lib rn) audio_url of
                Inl e \<Rightarrow> ended w1 (Some e)
              | Inr audio_path \<Rightarrow>
                  (case remux_avformat_with_headers (rn_av rn (w_tick w)) (w_ctx w) (w_ctx w1)
                          video_path (lines video_url) audio_path (lines audio_url) output_path (w_disk w1) of
                     (d, r) \<Rightarrow> ended (w1\<lparr>w_disk := d\<rparr>) r)))"

text \<open>A mux is tried twice; each try removes the output of the one before.\<close>

definition mux_retried :: "'u runner \<Rightarrow> string \<Rightarrow> unit act \<Rightarrow> unit act" where
  "mux_retried rn output_path mux =
     retry rn 2 ''mux'' (\<lambda>w. mux (disk_step rn (\<lambda>_. remove_path (rn_faults rn) output_path) w))"

section \<open>From the media to the artifact\<close>

definition save_artifact :: "'u runner \<Rightarrow> paths \<Rightarrow> saved act" where
  "save_artifact rn ps w =
     (case store_save (rn_faults rn) (rn_s3 rn (w_tick w)) (rn_files rn) (rn_clock rn (w_tick w))
             (ap_output ps) (ap_key ps) (w_disk w) (w_objects w) of
        (objects, r) \<Rightarrow> Some (w\<lparr>w_objects := objects\<rparr>, r))"

definition deliver :: "'u runner \<Rightarrow> string \<Rightarrow> paths \<Rightarrow> int \<Rightarrow> int \<Rightarrow> saved act" where
  "deliver rn i ps dl_ms mx_ms =
     bind_act (retry rn 3 ''artifact upload'' (save_artifact rn ps))
       (\<lambda>sv w. Some (store_step rn (\<lambda>now t. finish_done (rn_fmt rn) now t i (sv_location sv) (sv_backend sv)
                       (sv_expires sv) dl_ms mx_ms) w, Inr sv))"

text \<open>\<open>runSABRArtifact\<close>, and in the same shape the ends of \<open>run\<close>, \<open>runAudioOnly\<close> and
  \<open>runRemoteMux\<close>: make the directories, let \<open>body\<close> produce the output, keep it, record it; the
  deferred clean-up runs on every path.\<close>

definition make_output :: "'u runner \<Rightarrow> string \<Rightarrow> paths \<Rightarrow> (int \<times> int) act \<Rightarrow> saved act" where
  "make_output rn i ps body w =
     (let w1 = pass_time rn w
      in case rn_mkdir rn (ap_work_dir ps) of
           Some e \<Rightarrow> Some (w1, Inl e)
         | None \<Rightarrow>
             (case rn_mkdir rn (dir_path (ap_output ps)) of
                Some e \<Rightarrow> Some (w1, Inl e)
              | None \<Rightarrow> bind_act body (\<lambda>(dl_ms, mx_ms). deliver rn i ps dl_ms mx_ms) w1))"

definition artifact_job :: "'u runner \<Rightarrow> string \<Rightarrow> paths \<Rightarrow> (int \<times> int) act \<Rightarrow> unit act" where
  "artifact_job rn i ps body w =
     (case make_output rn i ps body w of
        None \<Rightarrow> None
      | Some (w', r) \<Rightarrow>
          (let preserve = (case r of Inl _ \<Rightarrow> False | Inr sv \<Rightarrow> sv_backend sv = ''local'')
           in Some (disk_step rn (\<lambda>_. cleanup_work (rn_faults rn) ps preserve) w',
                    map_sum id (\<lambda>_. ()) r)))"

section \<open>The ways to produce the output\<close>

definition mux_progress :: "int \<Rightarrow> progress" where
  "mux_progress n = \<lparr>pg_stage = ''mux'', pg_downloaded = n, pg_total = n, pg_speed = 0\<rparr>"

text \<open>Two files in ranges, then muxed; a total that is not positive is read from the job's progress.\<close>

definition range_body :: "'u runner \<Rightarrow> string \<Rightarrow> selection \<Rightarrow> paths \<Rightarrow> (int \<times> int) act" where
  "range_body rn i sel ps =
     bind_act (download_media rn i sel ps) (\<lambda>dl_ms w.
       let known = add64 (v_content_length (sel_video sel)) (a_content_length (sel_audio sel));
           w1 = pass_time rn w;
           n = (if known > 0 then known
                else case get_job i (w_store w1) of None \<Rightarrow> known | Some r \<Rightarrow> pg_total (job_progress r))
       in bind_act (mux_retried rn (ap_output ps) (merge_media rn (ap_video ps) (ap_audio ps) (ap_output ps)))
            (\<lambda>_ w'. Some (w', Inr (dl_ms, elapsed_ms rn (w_tick w) (w_tick w'))))
            (show_progress rn i (mux_progress n) w1))"

definition audio_body :: "'u runner \<Rightarrow> string \<Rightarrow> audio_selection \<Rightarrow> paths \<Rightarrow> (int \<times> int) act" where
  "audio_body rn i sel ps = bind_act (download_audio rn i sel ps) (\<lambda>dl_ms w. Some (w, Inr (dl_ms, 0)))"

definition sabr_body :: "'u runner \<Rightarrow> string \<Rightarrow> job_record \<Rightarrow> selection \<Rightarrow> paths \<Rightarrow> (int \<times> int) act" where
  "sabr_body rn i r sel ps =
     bind_act (sabr_download rn i (sabr_options_of rn r sel ps)) (\<lambda>dl_ms w.
       let w1 = show_progress rn i
                  (mux_progress (add64 (v_content_length (sel_video sel)) (a_content_length (sel_audio sel)))) w
       in bind_act (mux_retried rn (ap_output ps) (merge_media rn (ap_video ps) (ap_audio ps) (ap_output ps)))
            (\<lambda>_ w'. Some (w', Inr (dl_ms, elapsed_ms rn (w_tick w1) (w_tick w')))) w1)"

definition sabr_audio_body :: "'u runner \<Rightarrow> string \<Rightarrow> job_record \<Rightarrow> audio_selection \<Rightarrow> paths \<Rightarrow> (int \<times> int) act" where
  "sabr_audio_body rn i r sel ps =
     bind_act (sabr_download rn i (sabr_audio_options_of rn r sel ps)) (\<lambda>dl_ms w. Some (w, Inr (dl_ms, 0)))"

definition remote_mux_body :: "'u runner \<Rightarrow> string \<Rightarrow> selection \<Rightarrow> paths \<Rightarrow> (int \<times> int) act" where
  "remote_mux_body rn i sel ps w =
     bind_act (mux_retried rn (ap_output ps)
         (merge_remote rn (v_url (sel_video sel)) (a_url (sel_audio sel)) (ap_output ps)))
       (\<lambda>_ w'. Some (w', Inr (0, elapsed_ms rn (w_tick w) (w_tick w'))))
       (show_progress rn i (mux_progress 0) w)"

text \<open>\<open>ffmpeg\<close> fetches the media itself, through the server's proxy.\<close>

definition ffmpeg_body ::
    "'u runner \<Rightarrow> string \<Rightarrow> (process \<Rightarrow> disk \<Rightarrow> disk \<times> error option) \<Rightarrow> (int \<times> int) act" where
  "ffmpeg_body rn i fetch w =
     (let w1 = show_progress rn i (zero_progress\<lparr>pg_stage := ''download''\<rparr>) w; w2 = pass_time rn w1
      in case fetch (rn_ffmpeg rn (w_tick w1)) (w_disk w2) of
           (d, Some e) \<Rightarrow> Some (w2\<lparr>w_disk := d\<rparr>, Inl e)
         | (d, None) \<Rightarrow> Some (w2\<lparr>w_disk := d\<rparr>, Inr (elapsed_ms rn (w_tick w) (w_tick w2), 0)))"

definition remote_body :: "'u runner \<Rightarrow> string \<Rightarrow> selection \<Rightarrow> paths \<Rightarrow> (int \<times> int) act" where
  "remote_body rn i sel ps = ffmpeg_body rn i (\<lambda>exec. download_remote (rn_lib rn) exec
     (proxy_media_url (rn_lib rn) (rn_base rn) (v_url (sel_video sel)))
     (proxy_media_url (rn_lib rn) (rn_base rn) (a_url (sel_audio sel))) (ap_output ps))"

definition remote_audio_body :: "'u runner \<Rightarrow> string \<Rightarrow> audio_selection \<Rightarrow> paths \<Rightarrow> (int \<times> int) act" where
  "remote_audio_body rn i sel ps = ffmpeg_body rn i (\<lambda>exec. download_remote_audio (rn_lib rn) exec
     (proxy_media_url (rn_lib rn) (rn_base rn) (a_url (as_audio sel))) (ap_output ps))"

section \<open>A run\<close>

definition job_paths :: "'u runner \<Rightarrow> string \<Rightarrow> string \<Rightarrow> string \<Rightarrow> paths" where
  "job_paths rn i title container = build_paths (cf_data_dir (rn_config rn)) i title container"

text \<open>Which way a video takes.\<close>

definition video_body :: "'u runner \<Rightarrow> string \<Rightarrow> job_record \<Rightarrow> selection \<Rightarrow> paths \<Rightarrow> (int \<times> int) act" where
  "video_body rn i r sel ps =
     (if v_delivery_method (sel_video sel) = ''sabr'' then sabr_body rn i r sel ps
      else if uses_remote_mux (rn_lib rn) sel then remote_mux_body rn i sel ps
      else if v_content_length (sel_video sel) \<le> 0 \<or> a_content_length (sel_audio sel) \<le> 0
      then remote_body rn i sel ps
      else range_body rn i sel ps)"

definition audio_only_body :: "'u runner \<Rightarrow> string \<Rightarrow> job_record \<Rightarrow> audio_selection \<Rightarrow> paths \<Rightarrow> (int \<times> int) act" where
  "audio_only_body rn i r sel ps =
     (if a_delivery_method (as_audio sel) = ''sabr'' then sabr_audio_body rn i r sel ps
      else if a_content_length (as_audio sel) \<le> 0 then remote_audio_body rn i sel ps
      else audio_body rn i sel ps)"

text \<open>The reservation, released at the end on every path.\<close>

definition with_reservation ::
    "'u runner \<Rightarrow> string \<Rightarrow> (statfs result \<Rightarrow> monitor \<Rightarrow> monitor \<times> bool result) \<Rightarrow> 'a act \<Rightarrow> 'a act" where
  "with_reservation rn i reserve_disk body w =
     (let w1 = pass_time rn w
      in case reserve_disk (rn_stat rn (w_tick w)) (w_monitor w1) of
           (m, Inl e) \<Rightarrow> Some (w1\<lparr>w_monitor := m\<rparr>, Inl e)
         | (m, Inr owed) \<Rightarrow>
             (case body (w1\<lparr>w_monitor := m\<rparr>) of
                None \<Rightarrow> None
              | Some (w2, r) \<Rightarrow>
                  Some (if owed
                        then (let w3 = pass_time rn w2 in w3\<lparr>w_monitor := release i (w_monitor w3)\<rparr>)
                        else w2, r)))"

definition run_video :: "'u runner \<Rightarrow> string \<Rightarrow> job_record \<Rightarrow> stream_response \<Rightarrow> unit act" where
  "run_video rn i r stream w =
     (case select_mp4_with_options stream (selector_options (job_options r)) of
        Inl e \<Rightarrow> Some (w, Inl e)
      | Inr sel \<Rightarrow>
          with_reservation rn i (\<lambda>stat. reserve_video (rn_lib rn) stat i sel (sr_duration stream))
            (\<lambda>w. let ps = job_paths rn i (sr_title stream) (sel_container sel)
                 in artifact_job rn i ps (video_body rn i r sel ps)
                      (show_resolved rn i (sr_title stream) (resolved_of sel (ap_name ps)) w)) w)"

definition run_audio_only :: "'u runner \<Rightarrow> string \<Rightarrow> job_record \<Rightarrow> stream_response \<Rightarrow> unit act" where
  "run_audio_only rn i r stream w =
     (case select_audio_only stream (selector_options (job_options r)) of
        Inl e \<Rightarrow> Some (w, Inl e)
      | Inr sel \<Rightarrow>
          with_reservation rn i (\<lambda>stat. reserve_audio stat i sel (sr_duration stream))
            (\<lambda>w. let ps = job_paths rn i (sr_title stream) (as_container sel)
                 in artifact_job rn i ps (audio_only_body rn i r sel ps)
                      (show_resolved rn i (sr_title stream) (audio_resolved_of sel (ap_name ps)) w)) w)"

definition extract_streams :: "'u runner \<Rightarrow> job_record \<Rightarrow> stream_response act" where
  "extract_streams rn r = retry rn 3 ''stream extraction''
     (\<lambda>w. Some (w, fetch_stream (rn_lib rn) (rn_server rn (w_tick w)) (rn_decode rn) (rn_base rn)
                  (job_url r) (authorization r)))"

definition run_job :: "'u runner \<Rightarrow> string \<Rightarrow> job_record \<Rightarrow> unit act" where
  "run_job rn i r =
     bind_act (extract_streams rn r)
       (\<lambda>stream. if is_audio_only (job_options r) then run_audio_only rn i r stream
                 else run_video rn i r stream)"

section \<open>Processing a job\<close>

definition start_running :: "'u runner \<Rightarrow> string \<Rightarrow> world \<Rightarrow> world" where
  "start_running rn i w = store_step rn (\<lambda>now t s. fst (start (rn_fmt rn) now t i (rn_cancel rn) s)) w"

definition record_failure :: "'u runner \<Rightarrow> string \<Rightarrow> error \<Rightarrow> world \<Rightarrow> world" where
  "record_failure rn i e w =
     (let w1 = pass_time rn w
      in store_step rn (\<lambda>now t. fail (rn_fmt rn) now t i (failure_code (w_ctx w1) e) e) w1)"

text \<open>The result of \<open>Start\<close> is ignored.\<close>

definition process_job :: "'u runner \<Rightarrow> string \<Rightarrow> world \<Rightarrow> world option" where
  "process_job rn i w =
     (let w0 = pass_time rn w
      in case get_job i (w_store w0) of
           None \<Rightarrow> Some w0
         | Some r \<Rightarrow>
             if job_status r \<noteq> Queued then Some w0
             else (case run_job rn i r (start_running rn i (w0\<lparr>w_ctx := rn_parent rn\<rparr>)) of
                     None \<Rightarrow> None
                   | Some (w1, Inr _) \<Rightarrow> Some w1
                   | Some (w1, Inl e) \<Rightarrow> Some (record_failure rn i e w1)))"

section \<open>The queue\<close>

text \<open>The channel \<open>queue\<close> with its capacity; \<open>Enqueue\<close> does not wait.\<close>

definition enqueue :: "config \<Rightarrow> string \<Rightarrow> string list \<Rightarrow> string list \<times> error option" where
  "enqueue cfg i queue =
     (if int (length queue) < cf_max_queue_size cfg then (queue @ [i], None)
      else (queue, Some (Err ''job queue is full'')))"

text \<open>\<open>EnqueueBlocking\<close>: \<open>None\<close> while neither of its two cases is ready. When both are, \<open>select\<close> takes
  any; \<open>sends\<close> says which.\<close>

definition enqueue_blocking ::
  "config \<Rightarrow> bool \<Rightarrow> error option \<Rightarrow> string \<Rightarrow> string list \<Rightarrow> (string list \<times> error option) option" where
  "enqueue_blocking cfg sends ctx i queue =
     (if int (length queue) < cf_max_queue_size cfg \<and> (ctx = None \<or> sends) then Some (queue @ [i], None)
      else case ctx of Some e \<Rightarrow> Some (queue, Some e) | None \<Rightarrow> None)"

text \<open>A worker's turns, one for each job it takes, until its context ends: the jobs it takes, and
  the queue it leaves.\<close>

fun worker :: "(nat \<Rightarrow> error option) \<Rightarrow> nat \<Rightarrow> nat \<Rightarrow> string list \<Rightarrow> string list \<times> string list" where
  "worker ctx k 0 queue = ([], queue)"
| "worker ctx k (Suc turns) queue =
     (if ctx k \<noteq> None then ([], queue)
      else case queue of
        [] \<Rightarrow> ([], [])
      | i # rest \<Rightarrow>
          if ctx (Suc k) \<noteq> None then ([], rest)
          else (case worker ctx (Suc (Suc k)) turns rest of (taken, left) \<Rightarrow> (i # taken, left)))"

end
