(* ===== verification/Pipeline_Spec.thy ===== *)
theory Pipeline_Spec
  imports Pipeline Range_Download_Spec Sabr_Download_Spec
begin

text \<open>
  What a worker achieves whatever the other goroutines do: a job that was taken ends as done or
  failed, its reservation is released, its working files are gone, and what it delivers is what was
  downloaded. The proofs are triples over the steps of the worker, with assertions that the other
  goroutines keep.
\<close>

section \<open>The other goroutines\<close>

text \<open>The sections of the store that goroutines other than the worker of job \<open>i\<close> enter: no one else
  starts, resolves, finishes or fails this job, but any client may cancel, delete or watch it.\<close>

inductive bystander :: "(time \<Rightarrow> string) \<Rightarrow> string \<Rightarrow> store \<Rightarrow> store \<Rightarrow> bool" for fmt i where
  by_create: "job_id rec \<noteq> i \<Longrightarrow> bystander fmt i s (fst (create_locked now rec s))"
| by_update: "job_mutation f \<Longrightarrow> j \<noteq> i \<Longrightarrow> bystander fmt i s (fst (update_locked j f s))"
| by_cancel: "bystander fmt i s (fst (update_locked i (cancel_job now) s))"
| by_broadcast: "bystander fmt i s (broadcast fmt now j s)"
| by_notify: "bystander fmt i s (notify r s)"
| by_delete: "bystander fmt i s (delete_locked j s)"
| by_expire: "bystander fmt i s (fst (remove_expired_locked j location now s))"
| by_subscribe: "bystander fmt i s (fst (subscribe_locked fmt now j s))"
| by_send: "subscribe_send c resp s = Some s' \<Longrightarrow> bystander fmt i s s'"
| by_unsubscribe: "bystander fmt i s (unsubscribe j c s)"
| by_receive: "receive c s = Some (s', resp) \<Longrightarrow> bystander fmt i s s'"

text \<open>The other parts of the world: other jobs reserve and release, files and objects that are not this
  job's change, and the context may be cancelled, once.\<close>

inductive other_step :: "(time \<Rightarrow> string) \<Rightarrow> string \<Rightarrow> string set \<Rightarrow> string \<Rightarrow> world \<Rightarrow> world \<Rightarrow> bool"
  for fmt i files key where
  other_store: "bystander fmt i (w_store w) s' \<Longrightarrow> other_step fmt i files key w (w\<lparr>w_store := s'\<rparr>)"
| other_reserve: "j \<noteq> i \<Longrightarrow>
    other_step fmt i files key w (w\<lparr>w_monitor := fst (reserve stat j b (w_monitor w))\<rparr>)"
| other_release: "j \<noteq> i \<Longrightarrow> other_step fmt i files key w (w\<lparr>w_monitor := release j (w_monitor w)\<rparr>)"
| other_file: "f \<notin> files \<Longrightarrow> other_step fmt i files key w (w\<lparr>w_disk := (w_disk w)(f := bs)\<rparr>)"
| other_object: "k \<noteq> key \<Longrightarrow> other_step fmt i files key w (w\<lparr>w_objects := (w_objects w)(k := bs)\<rparr>)"
| other_cancel: "w_ctx w = None \<Longrightarrow> other_step fmt i files key w (w\<lparr>w_ctx := Some e\<rparr>)"

text \<open>Any number of such steps, before each step of the worker.\<close>

definition others_pass :: "'u runner \<Rightarrow> string \<Rightarrow> string set \<Rightarrow> string \<Rightarrow> bool" where
  "others_pass rn i files key \<longleftrightarrow> (\<forall>n w. (other_step (rn_fmt rn) i files key)\<^sup>*\<^sup>* w (rn_pass rn n w))"

lemma create_locked_other:
  assumes "job_id rec \<noteq> i"
  shows "jobs (fst (create_locked now rec s)) i = jobs s i \<or>
    (\<exists>r. jobs s i = Some r \<and> job_status r \<noteq> Failed \<and> artifact_expired r now
       \<and> jobs (fst (create_locked now rec s)) i = None)"
  using assms by (auto simp: create_locked_def Let_def split: option.split if_split)

text \<open>What becomes of this job: it is as it was, or, when it is not running, cancelled or gone.\<close>

lemma bystander_job:
  assumes "bystander fmt i s s'"
  shows "jobs s' i = jobs s i
    \<or> (\<exists>r. jobs s i = Some r \<and> (job_status r = Queued \<and> (\<exists>now. jobs s' i = Some (cancel_job now r))
         \<or> (job_status r \<noteq> Running \<or> expires_at r \<noteq> None) \<and> jobs s' i = None))"
  using assms
proof cases
  case (by_create rec now)
  with create_locked_other [of rec i now s] show ?thesis
    by (auto simp: artifact_expired_def split: option.splits)
next
  case (by_cancel now)
  then show ?thesis
    by (cases "jobs s i") (auto simp: jobs_update_locked cancel_job_def)
next
  case (by_delete j)
  then show ?thesis by (auto simp: delete_locked_def split: option.split)
next
  case (by_expire j location now)
  then show ?thesis by (auto simp: remove_expired_locked_def split: option.split)
next
  case (by_subscribe now j)
  then show ?thesis by (auto simp: subscribe_locked_def Let_def split: option.split)
next
  case (by_send c resp)
  then show ?thesis by (auto simp: subscribe_send_def split: if_splits)
next
  case (by_unsubscribe j c)
  then show ?thesis by (auto simp: unsubscribe_def Let_def split: option.split)
next
  case (by_receive c resp)
  then show ?thesis by (auto simp: receive_def split: list.splits)
qed (auto simp: jobs_update_locked)

section \<open>The contract of the others\<close>

text \<open>What the worker relies on: its running job, its reservation, its files and its object stay as they
  are, an ended job stays as it is or goes, and a cancelled context stays cancelled.\<close>

locale bystanders =
  fixes R :: "world \<Rightarrow> world \<Rightarrow> bool" and i :: string and files :: "string set" and key :: string
  assumes running_kept: "R w w' \<Longrightarrow> jobs (w_store w) i = Some r \<Longrightarrow> job_status r = Running \<Longrightarrow>
      expires_at r = None \<Longrightarrow> jobs (w_store w') i = Some r"
    and absent_kept: "R w w' \<Longrightarrow> jobs (w_store w) i = None \<Longrightarrow> jobs (w_store w') i = None"
    and ended_kept: "R w w' \<Longrightarrow> jobs (w_store w) i = Some r \<Longrightarrow> job_status r \<in> {Done, Failed} \<Longrightarrow>
      jobs (w_store w') i = Some r \<or> jobs (w_store w') i = None"
    and reservation_kept: "R w w' \<Longrightarrow>
      map_of (reservations (w_monitor w')) i = map_of (reservations (w_monitor w)) i"
    and files_kept: "R w w' \<Longrightarrow> f \<in> files \<Longrightarrow> w_disk w' f = w_disk w f"
    and object_kept: "R w w' \<Longrightarrow> w_objects w' key = w_objects w key"
    and cancelled_kept: "R w w' \<Longrightarrow> w_ctx w \<noteq> None \<Longrightarrow> w_ctx w' = w_ctx w"
begin

lemma working_kept:
  assumes "R w w'" and "jobs (w_store w) i = None \<or> (\<exists>r. jobs (w_store w) i = Some r \<and> job_status r = Running \<and> expires_at r = None)"
  shows "jobs (w_store w') i = jobs (w_store w) i"
  using assms running_kept absent_kept by metis

end

lemma reserve_others: "j \<noteq> i \<Longrightarrow> map_of (reservations (fst (reserve stat j b m))) i = map_of (reservations m) i"
  by (auto simp: reserve_def Let_def AList.update_conv' split: sum.split)

lemma release_others: "map_of (reservations (release j m)) i = (if i = j then None else map_of (reservations m) i)"
  by (simp add: release_def AList.delete_conv')

lemma other_step_contract: "bystanders (other_step fmt i files key) i files key"
proof
  fix w w' :: world and r
  assume st: "other_step fmt i files key w w'"
  have b: "\<exists>s'. w_store w' = s' \<and> (bystander fmt i (w_store w) s' \<or> s' = w_store w)"
    using st by cases auto
  then have j: "jobs (w_store w') i = jobs (w_store w) i
    \<or> (\<exists>r. jobs (w_store w) i = Some r \<and> (job_status r = Queued \<and> (\<exists>now. jobs (w_store w') i = Some (cancel_job now r))
         \<or> (job_status r \<noteq> Running \<or> expires_at r \<noteq> None) \<and> jobs (w_store w') i = None))"
    using bystander_job by auto
  show "jobs (w_store w) i = Some r \<Longrightarrow> job_status r = Running \<Longrightarrow> expires_at r = None \<Longrightarrow> jobs (w_store w') i = Some r"
    using j by auto
  show "jobs (w_store w) i = None \<Longrightarrow> jobs (w_store w') i = None" using j by auto
  show "jobs (w_store w) i = Some r \<Longrightarrow> job_status r \<in> {Done, Failed} \<Longrightarrow>
      jobs (w_store w') i = Some r \<or> jobs (w_store w') i = None"
    using j by auto
  show "map_of (reservations (w_monitor w')) i = map_of (reservations (w_monitor w)) i"
    using st by cases (auto simp: reserve_others release_others)
  show "w_disk w' f = w_disk w f" if "f \<in> files" for f using st that by cases auto
  show "w_objects w' key = w_objects w key" using st by cases auto
  show "w_ctx w \<noteq> None \<Longrightarrow> w_ctx w' = w_ctx w" using st by cases auto
qed

text \<open>The contract passes to sequences of steps.\<close>

lemma bystanders_star:
  assumes b: "bystanders R i files key"
  shows "bystanders R\<^sup>*\<^sup>* i files key"
proof
  fix w w' :: world and r
  assume st: "R\<^sup>*\<^sup>* w w'"
  note laws = b [THEN bystanders.running_kept] b [THEN bystanders.absent_kept] b [THEN bystanders.ended_kept]
    b [THEN bystanders.reservation_kept] b [THEN bystanders.files_kept] b [THEN bystanders.object_kept]
    b [THEN bystanders.cancelled_kept]
  show "jobs (w_store w) i = Some r \<Longrightarrow> job_status r = Running \<Longrightarrow> expires_at r = None \<Longrightarrow> jobs (w_store w') i = Some r"
    using st
  proof (induction rule: rtranclp_induct)
    case (step y z)
    then show ?case using laws(1) [OF step.hyps(2)] by blast
  qed simp
  show "jobs (w_store w) i = None \<Longrightarrow> jobs (w_store w') i = None"
    using st
  proof (induction rule: rtranclp_induct)
    case (step y z)
    then show ?case using laws(2) [OF step.hyps(2)] by blast
  qed simp
  show "jobs (w_store w') i = Some r \<or> jobs (w_store w') i = None"
    if "jobs (w_store w) i = Some r" and "job_status r \<in> {Done, Failed}"
    using st
  proof (induction rule: rtranclp_induct)
    case (step y z)
    from step.IH show ?case
    proof
      assume "jobs (w_store y) i = Some r"
      from laws(3) [OF step.hyps(2) this that(2)] show ?thesis .
    next
      assume "jobs (w_store y) i = None"
      from laws(2) [OF step.hyps(2) this] show ?thesis by simp
    qed
  qed (simp add: that)
  show "map_of (reservations (w_monitor w')) i = map_of (reservations (w_monitor w)) i"
    using st
  proof (induction rule: rtranclp_induct)
    case (step y z)
    then show ?case using laws(4) [OF step.hyps(2)] by metis
  qed simp
  show "w_disk w' f = w_disk w f" if "f \<in> files" for f
    using st
  proof (induction rule: rtranclp_induct)
    case (step y z)
    then show ?case using laws(5) [OF step.hyps(2) that] by metis
  qed simp
  show "w_objects w' key = w_objects w key"
    using st
  proof (induction rule: rtranclp_induct)
    case (step y z)
    then show ?case using laws(6) [OF step.hyps(2)] by metis
  qed simp
  show "w_ctx w \<noteq> None \<Longrightarrow> w_ctx w' = w_ctx w"
    using st
  proof (induction rule: rtranclp_induct)
    case (step y z)
    then show ?case using laws(7) [OF step.hyps(2)] by metis
  qed simp
qed

interpretation others: bystanders "(other_step fmt i files key)\<^sup>*\<^sup>*" i files key for fmt i files key
  by (rule bystanders_star [OF other_step_contract])

section \<open>Triples\<close>

text \<open>\<open>P\<close> before, \<open>Q\<close> of the result and the world after, when the step has come to an end.\<close>

definition triple :: "(world \<Rightarrow> bool) \<Rightarrow> 'a act \<Rightarrow> ('a result \<Rightarrow> world \<Rightarrow> bool) \<Rightarrow> bool" where
  "triple P m Q \<longleftrightarrow> (\<forall>w w' r. P w \<longrightarrow> m w = Some (w', r) \<longrightarrow> Q r w')"

definition stable :: "'u runner \<Rightarrow> (world \<Rightarrow> bool) \<Rightarrow> bool" where
  "stable rn P \<longleftrightarrow> (\<forall>w. P w \<longrightarrow> P (pass_time rn w))"

text \<open>\<open>P\<close> whatever the result.\<close>

abbreviation keeps :: "(world \<Rightarrow> bool) \<Rightarrow> 'a act \<Rightarrow> bool" where
  "keeps P m \<equiv> triple P m (\<lambda>_. P)"

lemma tripleD: "triple P m Q \<Longrightarrow> P w \<Longrightarrow> m w = Some (w', r) \<Longrightarrow> Q r w'"
  unfolding triple_def by blast

lemma tripleI: "(\<And>w w' r. P w \<Longrightarrow> m w = Some (w', r) \<Longrightarrow> Q r w') \<Longrightarrow> triple P m Q"
  unfolding triple_def by blast

lemma triple_weaken:
  "triple P m Q \<Longrightarrow> (\<And>w. P' w \<Longrightarrow> P w) \<Longrightarrow> (\<And>r w. Q r w \<Longrightarrow> Q' r w) \<Longrightarrow> triple P' m Q'"
  unfolding triple_def by blast

lemma triple_bind:
  assumes "triple P m (\<lambda>r w. case r of Inl e \<Rightarrow> R (Inl e) w | Inr x \<Rightarrow> Q x w)"
    and "\<And>x. triple (Q x) (k x) R"
  shows "triple P (bind_act m k) R"
proof (rule tripleI)
  fix w w' r assume w: "P w" "bind_act m k w = Some (w', r)"
  then obtain w1 r1 where m: "m w = Some (w1, r1)"
    by (auto simp: bind_act_def split: option.splits)
  from tripleD [OF assms(1) w(1) m] show "R r w'"
  proof (cases r1)
    case (Inl e)
    with m w show ?thesis using tripleD [OF assms(1) w(1) m] by (simp add: bind_act_def)
  next
    case (Inr x)
    with m w have "k x w1 = Some (w', r)" by (simp add: bind_act_def)
    then show ?thesis using tripleD [OF assms(1) w(1) m] Inr tripleD [OF assms(2) [of x]] by simp
  qed
qed

lemma triple_bind_keep:
  assumes "keeps P m" and "\<And>x. triple P (k x) R" and "\<And>e w. P w \<Longrightarrow> R (Inl e) w"
  shows "triple P (bind_act m k) R"
  by (rule triple_bind [where Q = "\<lambda>_. P"])
     (use assms in \<open>auto intro: triple_weaken split: sum.split\<close>)

lemma case_sum_const [simp]: "(case r of Inl e \<Rightarrow> c | Inr x \<Rightarrow> c) = c"
  by (cases r) simp_all

lemma keeps_bind: "keeps P m \<Longrightarrow> (\<And>x. keeps P (k x)) \<Longrightarrow> keeps P (bind_act m k)"
  by (rule triple_bind [where Q = "\<lambda>_. P"]) simp_all

lemma stableD: "stable rn P \<Longrightarrow> P w \<Longrightarrow> P (pass_time rn w)"
  by (simp add: stable_def)

text \<open>A retried step whose failures keep \<open>P\<close>.\<close>

lemma triple_retry_loop:
  assumes st: "stable rn P" and run: "triple P run (\<lambda>r w. case r of Inl e \<Rightarrow> P w | Inr x \<Rightarrow> Q x w)"
  shows "P w \<Longrightarrow> retry_loop rn n label run ks lst w = Some (w', r) \<Longrightarrow>
    (case r of Inl e \<Rightarrow> P w' | Inr x \<Rightarrow> Q x w')"
proof (induction ks arbitrary: w lst)
  case Nil
  then show ?case by auto
next
  case (Cons k ks)
  have p0: "P (pass_time rn w)" by (rule stableD [OF st Cons.prems(1)])
  show ?case
  proof (cases "w_ctx (pass_time rn w)")
    case (Some e)
    with Cons.prems p0 show ?thesis by (auto simp: Let_def)
  next
    case None
    then obtain w1 r1 where r1: "run (pass_time rn w) = Some (w1, r1)"
      using Cons.prems(2) by (auto simp: Let_def split: option.splits)
    note post = tripleD [OF run p0 r1]
    show ?thesis
    proof (cases r1)
      case (Inr x)
      with Cons.prems None r1 post show ?thesis by (auto simp: Let_def)
    next
      case (Inl e)
      with post have p1: "P w1" by simp
      then have p2: "P (pass_time rn w1)" by (rule stableD [OF st])
      from Cons.prems(2) None r1 Inl consider
        c where "r = Inl c" "w' = pass_time rn w1"
        | "retry_loop rn n label run ks e (pass_time rn w1) = Some (w', r)"
        | "retry_loop rn n label run ks e w1 = Some (w', r)"
        by (auto simp: Let_def split: if_splits option.splits)
      then show ?thesis by cases (use Cons.IH p1 p2 in auto)
    qed
  qed
qed

lemma triple_retry:
  assumes "stable rn P" and "triple P run (\<lambda>r w. case r of Inl e \<Rightarrow> P w | Inr x \<Rightarrow> Q x w)"
  shows "triple P (retry rn n label run) (\<lambda>r w. case r of Inl e \<Rightarrow> P w | Inr x \<Rightarrow> Q x w)"
  unfolding retry_def Let_def by (rule tripleI) (rule triple_retry_loop [OF assms])

lemma keeps_retry: "stable rn P \<Longrightarrow> keeps P run \<Longrightarrow> keeps P (retry rn n label run)"
  using triple_retry [of rn P run "\<lambda>_. P" n label] by simp

text \<open>The steps: of the store, of the disk.\<close>

lemma store_step_keeps:
  assumes "stable rn P" and "P w" and "\<And>w now t. P w \<Longrightarrow> P (w\<lparr>w_store := f now t (w_store w)\<rparr>)"
  shows "P (store_step rn f w)"
  using assms(3) [OF stableD [OF assms(1,2)]] by (simp add: store_step_def Let_def)

lemma disk_step_keeps:
  assumes "stable rn P" and "P w" and "\<And>w k. P w \<Longrightarrow> P (w\<lparr>w_disk := f k (w_disk w)\<rparr>)"
  shows "P (disk_step rn f w)"
  using assms(3) [OF stableD [OF assms(1,2)]] by (simp add: disk_step_def Let_def)

section \<open>The files of a job\<close>

text \<open>What a job does to the disk until its output is there: each of these operations, and no other.\<close>

definition targets_of :: "paths \<Rightarrow> string set" where
  "targets_of ps = {ap_video ps, ap_audio ps, ap_output ps}"

inductive job_write :: "'u runner \<Rightarrow> paths \<Rightarrow> disk \<Rightarrow> disk \<Rightarrow> bool" for rn ps where
  jw_range: "p \<in> targets_of ps \<Longrightarrow>
    download_file (rn_lib rn) (rn_file rn n) fuel src p opts d = Some (d', calls, r) \<Longrightarrow> job_write rn ps d d'"
| jw_sabr: "targets opts \<subseteq> targets_of ps \<Longrightarrow>
    download (rn_lib rn) (rn_sabr rn) opts d = Some (d', reports, res) \<Longrightarrow> job_write rn ps d d'"
| jw_remux: "remux_avformat_with_headers av c0 c1 v vh a ah (ap_output ps) d = (d', e) \<Longrightarrow> job_write rn ps d d'"
| jw_ffmpeg: "merge_copy (rn_ffmpeg rn k) v a (ap_output ps) d = (d', e) \<Longrightarrow> job_write rn ps d d'"
| jw_remote: "download_remote (rn_lib rn) (rn_ffmpeg rn k) v a (ap_output ps) d = (d', e) \<Longrightarrow> job_write rn ps d d'"
| jw_remote_audio: "download_remote_audio (rn_lib rn) (rn_ffmpeg rn k) a (ap_output ps) d = (d', e) \<Longrightarrow> job_write rn ps d d'"
| jw_remove: "job_write rn ps d (remove_path (rn_faults rn) (ap_output ps) d)"

lemma job_write_remux [intro]:
  "remux_avformat av c0 c1 v a (ap_output ps) d = (d', e) \<Longrightarrow> job_write rn ps d d'"
  by (simp add: remux_avformat_def jw_remux)

lemmas job_write_out [intro] = jw_remux jw_ffmpeg jw_remote jw_remote_audio

lemma keeps_prefix: "keeps P m \<Longrightarrow> (\<And>w. P w \<Longrightarrow> P (f w)) \<Longrightarrow> keeps P (\<lambda>w. m (f w))"
  by (auto simp: triple_def)

lemma sabr_targets:
  "targets (sabr_options_of rn r sel ps) \<subseteq> targets_of ps"
  "targets (sabr_audio_options_of rn r asel ps) \<subseteq> targets_of ps"
  by (auto simp: targets_def targets_of_def track_specs_def track_spec_def sabr_options_of_def sabr_audio_options_of_def)

section \<open>Assertions the way to the artifact does not touch\<close>

text \<open>An assertion that the other goroutines, progress reports, the job's writes and changes of objects
  keep, is kept by everything a job does before it is delivered.\<close>

locale undisturbed =
  fixes rn :: "'u runner" and i :: string and ps :: paths and P :: "world \<Rightarrow> bool"
  assumes passes: "P w \<Longrightarrow> P (pass_time rn w)"
    and progress_kept: "P w \<Longrightarrow> P (w\<lparr>w_store := set_progress (rn_fmt rn) t i p (w_store w)\<rparr>)"
    and resolve_kept: "P w \<Longrightarrow> P (w\<lparr>w_store := resolve (rn_fmt rn) t i title res (w_store w)\<rparr>)"
    and disk_kept: "P w \<Longrightarrow> job_write rn ps (w_disk w) d \<Longrightarrow> P (w\<lparr>w_disk := d\<rparr>)"
    and objects_kept: "P w \<Longrightarrow> P (w\<lparr>w_objects := b\<rparr>)"
begin

lemma stable_P: "stable rn P"
  by (simp add: stable_def passes)

lemma disk_moved: "P (w\<lparr>w_disk := d\<rparr>) \<Longrightarrow> job_write rn ps d d' \<Longrightarrow> P (w\<lparr>w_disk := d'\<rparr>)"
  using disk_kept [of "w\<lparr>w_disk := d\<rparr>" d'] by simp

lemma show_progress_keeps: "P w \<Longrightarrow> P (show_progress rn i pg w)"
  unfolding show_progress_def by (rule store_step_keeps [OF stable_P]) (auto intro: progress_kept)

lemma show_resolved_keeps: "P w \<Longrightarrow> P (show_resolved rn i title res w)"
  unfolding show_resolved_def by (rule store_step_keeps [OF stable_P]) (auto intro: resolve_kept)

lemma disk_steps_keep: "P w \<Longrightarrow> (\<And>k d. job_write rn ps d (f k d)) \<Longrightarrow> P (disk_step rn f w)"
  by (rule disk_step_keeps [OF stable_P]) (auto intro: disk_kept)

lemma show_calls_keep: "P w \<Longrightarrow> P (show_calls rn i cs c known w)"
  by (induction cs arbitrary: c known w) (simp_all add: combined_update_def Let_def show_progress_keeps)

lemma show_sabr_calls_keep: "P w \<Longrightarrow> P (show_sabr_calls rn i t0 known ns w)"
  by (induction ns arbitrary: w) (simp_all add: Let_def show_progress_keeps)

lemma download_media_keeps: "keeps P (download_media rn i sel ps)"
proof (rule tripleI)
  fix w w' r
  assume w: "P w" and m: "download_media rn i sel ps w = Some (w', r)"
  have t: "ap_video ps \<in> targets_of ps" "ap_audio ps \<in> targets_of ps" by (simp_all add: targets_of_def)
  note steps = disk_kept [OF passes [OF w] jw_range [OF t(1)]] jw_range [OF t(2)]
  show "P w'"
    using m by (auto simp: download_media_def Let_def intro!: show_calls_keep split: option.splits prod.splits)
      (blast intro: disk_moved steps)+
qed

lemma download_audio_keeps: "keeps P (download_audio rn i sel ps)"
proof (rule tripleI)
  fix w w' r
  assume w: "P w" and m: "download_audio rn i sel ps w = Some (w', r)"
  have t: "ap_output ps \<in> targets_of ps" by (simp add: targets_of_def)
  show "P w'"
    using m by (auto simp: download_audio_def Let_def intro!: show_calls_keep disk_kept [OF passes [OF w]] jw_range [OF t]
        split: option.splits prod.splits)
qed

lemma sabr_download_keeps:
  assumes "targets opts \<subseteq> targets_of ps" shows "keeps P (sabr_download rn i opts)"
  by (rule tripleI)
    (auto simp: sabr_download_def Let_def passes show_progress_keeps intro!: show_sabr_calls_keep disk_kept
      intro: jw_sabr [OF assms] split: option.splits prod.splits)

lemma merge_media_keeps: "keeps P (merge_media rn v a (ap_output ps))"
  by (rule tripleI)
    (auto simp: merge_media_def Let_def passes intro!: disk_kept split: if_splits prod.splits)

lemma merge_remote_keeps: "keeps P (merge_remote rn v a (ap_output ps))"
  by (rule tripleI)
    (auto simp: merge_remote_def Let_def passes intro!: disk_kept split: if_splits prod.splits sum.splits)

lemma mux_retried_keeps: "keeps P mux \<Longrightarrow> keeps P (mux_retried rn (ap_output ps) mux)"
  unfolding mux_retried_def
  by (rule keeps_retry [OF stable_P keeps_prefix]) (auto intro: disk_steps_keep jw_remove)

lemma muxed_keeps:
  assumes "keeps P mux" and "P w" and "\<And>w. P w \<Longrightarrow> P (f w)"
    and "bind_act (mux_retried rn (ap_output ps) mux) (\<lambda>_ w'. Some (w', Inr (g w'))) (f w) = Some (w', r)"
  shows "P w'"
  using tripleD [OF keeps_bind [OF mux_retried_keeps [OF assms(1)]] assms(3) [OF assms(2)] assms(4)]
  by (auto simp: triple_def)

lemma range_body_keeps: "keeps P (range_body rn i sel ps)"
  unfolding range_body_def
proof (rule keeps_bind [OF download_media_keeps], rule tripleI)
  fix dl_ms w w' r
  assume w: "P w" and r: "(let known = add64 (v_content_length (sel_video sel)) (a_content_length (sel_audio sel));
           w1 = pass_time rn w;
           n = (if known > 0 then known
                else case get_job i (w_store w1) of None \<Rightarrow> known | Some r \<Rightarrow> pg_total (job_progress r))
       in bind_act (mux_retried rn (ap_output ps) (merge_media rn (ap_video ps) (ap_audio ps) (ap_output ps)))
            (\<lambda>_ w'. Some (w', Inr (dl_ms, elapsed_ms rn (w_tick w) (w_tick w'))))
            (show_progress rn i (mux_progress n) w1)) = Some (w', r)"
  show "P w'"
    by (rule muxed_keeps [OF merge_media_keeps [of "ap_video ps" "ap_audio ps"] passes [OF w]])
       (use r in \<open>auto simp: Let_def intro: show_progress_keeps\<close>)
qed

lemma sabr_body_keeps: "keeps P (sabr_body rn i r sel ps)"
  unfolding sabr_body_def
proof (rule keeps_bind [OF sabr_download_keeps [OF sabr_targets(1)]], rule tripleI)
  fix dl_ms w w' res
  assume w: "P w" and res: "(let w1 = show_progress rn i
                  (mux_progress (add64 (v_content_length (sel_video sel)) (a_content_length (sel_audio sel)))) w
       in bind_act (mux_retried rn (ap_output ps) (merge_media rn (ap_video ps) (ap_audio ps) (ap_output ps)))
            (\<lambda>_ w'. Some (w', Inr (dl_ms, elapsed_ms rn (w_tick w1) (w_tick w')))) w1) = Some (w', res)"
  show "P w'"
    by (rule muxed_keeps [OF merge_media_keeps [of "ap_video ps" "ap_audio ps"] w show_progress_keeps])
       (use res in \<open>auto simp: Let_def\<close>)
qed

lemma audio_body_keeps: "keeps P (audio_body rn i sel ps)"
  unfolding audio_body_def by (rule keeps_bind [OF download_audio_keeps]) (auto simp: triple_def)

lemma sabr_audio_body_keeps: "keeps P (sabr_audio_body rn i r sel ps)"
  unfolding sabr_audio_body_def by (rule keeps_bind [OF sabr_download_keeps [OF sabr_targets(2)]]) (auto simp: triple_def)

lemma remote_mux_body_keeps: "keeps P (remote_mux_body rn i sel ps)"
proof (rule tripleI)
  fix w w' r
  assume w: "P w" and r: "remote_mux_body rn i sel ps w = Some (w', r)"
  show "P w'"
    by (rule muxed_keeps [where f = "show_progress rn i (mux_progress 0)"
          and g = "\<lambda>w'. (0, elapsed_ms rn (w_tick w) (w_tick w'))",
          OF merge_remote_keeps w show_progress_keeps r [unfolded remote_mux_body_def]])
qed

lemma ffmpeg_body_keeps:
  assumes "\<And>k d d' e. fetch (rn_ffmpeg rn k) d = (d', e) \<Longrightarrow> job_write rn ps d d'"
  shows "keeps P (ffmpeg_body rn i fetch)"
  by (rule tripleI)
    (auto simp: ffmpeg_body_def Let_def intro!: disk_kept passes show_progress_keeps intro: assms
      split: prod.splits option.splits)

lemma remote_bodies_keep: "keeps P (remote_body rn i sel ps)" "keeps P (remote_audio_body rn i asel ps)"
  unfolding remote_body_def remote_audio_body_def by (rule ffmpeg_body_keeps, auto)+

lemma video_body_keeps: "keeps P (video_body rn i r sel ps)"
  by (simp add: video_body_def sabr_body_keeps remote_mux_body_keeps remote_bodies_keep range_body_keeps)

lemma audio_only_body_keeps: "keeps P (audio_only_body rn i r sel ps)"
  by (simp add: audio_only_body_def sabr_audio_body_keeps remote_bodies_keep audio_body_keeps)

lemma save_artifact_keeps: "keeps P (save_artifact rn ps)"
  by (rule tripleI) (auto simp: save_artifact_def intro: objects_kept split: prod.splits)

lemma saves_keep: "keeps P (retry rn 3 ''artifact upload'' (save_artifact rn ps))"
  by (rule keeps_retry [OF stable_P save_artifact_keeps])

lemma extract_keeps: "keeps P (extract_streams rn r)"
  unfolding extract_streams_def by (rule keeps_retry [OF stable_P]) (auto simp: triple_def)

text \<open>The delivery alone may end \<open>P\<close>: \<open>D\<close> is what holds once the artifact is recorded.\<close>

lemma make_output_triple:
  fixes D :: "saved \<Rightarrow> world \<Rightarrow> bool"
  assumes body: "keeps P body"
    and finished: "\<And>w sv dl mx now t. P w \<Longrightarrow> D sv (w\<lparr>w_store := finish_done (rn_fmt rn) now t i
        (sv_location sv) (sv_backend sv) (sv_expires sv) dl mx (w_store w)\<rparr>)"
  shows "triple P (make_output rn i ps body) (\<lambda>r w. case r of Inl e \<Rightarrow> P w | Inr sv \<Rightarrow> D sv w)"
proof (rule tripleI)
  fix w w' r
  assume w: "P w" and m: "make_output rn i ps body w = Some (w', r)"
  have deliver: "triple P (deliver rn i ps dl mx) (\<lambda>r w. case r of Inl e \<Rightarrow> P w | Inr sv \<Rightarrow> D sv w)" for dl mx
    unfolding deliver_def
  proof (rule triple_bind_keep [OF saves_keep])
    show "triple P (\<lambda>w. Some (store_step rn (\<lambda>now t. finish_done (rn_fmt rn) now t i (sv_location sv)
          (sv_backend sv) (sv_expires sv) dl mx) w, Inr sv)) (\<lambda>r w. case r of Inl e \<Rightarrow> P w | Inr sv \<Rightarrow> D sv w)" for sv
      by (rule tripleI) (auto simp: store_step_def Let_def intro: finished passes)
  qed simp
  have b: "triple P (bind_act body (\<lambda>(dl_ms, mx_ms). deliver rn i ps dl_ms mx_ms))
      (\<lambda>r w. case r of Inl e \<Rightarrow> P w | Inr sv \<Rightarrow> D sv w)"
    by (rule triple_bind_keep [OF body]) (use deliver in \<open>auto split: prod.split\<close>)
  from m consider e where "r = Inl e" "w' = pass_time rn w"
    | "bind_act body (\<lambda>(dl_ms, mx_ms). deliver rn i ps dl_ms mx_ms) (pass_time rn w) = Some (w', r)"
    by (auto simp: make_output_def Let_def split: option.splits)
  then show "case r of Inl e \<Rightarrow> P w' | Inr sv \<Rightarrow> D sv w'"
    by cases (use passes [OF w] tripleD [OF b passes [OF w]] in auto)
qed

end

text \<open>The clean-up at the end.\<close>

lemma artifact_job_rule:
  assumes "triple P (make_output rn i ps body) (\<lambda>r w. case r of Inl e \<Rightarrow> F e w | Inr sv \<Rightarrow> D sv w)"
    and "\<And>e w. F e w \<Longrightarrow> Q (Inl e) (disk_step rn (\<lambda>_. cleanup_work (rn_faults rn) ps False) w)"
    and "\<And>sv w. D sv w \<Longrightarrow>
      Q (Inr ()) (disk_step rn (\<lambda>_. cleanup_work (rn_faults rn) ps (sv_backend sv = ''local'')) w)"
  shows "triple P (artifact_job rn i ps body) Q"
proof (rule tripleI)
  fix w w' r
  assume w: "P w" and a: "artifact_job rn i ps body w = Some (w', r)"
  then obtain w1 r1 where m: "make_output rn i ps body w = Some (w1, r1)"
    and w': "w' = disk_step rn (\<lambda>_. cleanup_work (rn_faults rn) ps
          (case r1 of Inl _ \<Rightarrow> False | Inr sv \<Rightarrow> sv_backend sv = ''local'')) w1"
    and r: "r = map_sum id (\<lambda>_. ()) r1"
    by (auto simp: artifact_job_def Let_def split: option.splits)
  from tripleD [OF assms(1) w m] assms(2,3) show "Q r w'"
    unfolding w' r by (cases r1) simp_all
qed

text \<open>A run, from what holds (\<open>G\<close>) of the making of the artifact in either mode.\<close>

lemma run_job_rule:
  assumes streams: "keeps P (extract_streams rn r)" and failed: "\<And>e w. P w \<Longrightarrow> Q (Inl e) w"
    and video: "\<And>title sel out ps. ps = job_paths rn i title (sel_container sel) \<Longrightarrow>
      G (\<lambda>w. artifact_job rn i ps (video_body rn i r sel ps) (show_resolved rn i title out w))"
    and audio: "\<And>title sel out ps. ps = job_paths rn i title (as_container sel) \<Longrightarrow>
      G (\<lambda>w. artifact_job rn i ps (audio_only_body rn i r sel ps) (show_resolved rn i title out w))"
    and reserved: "\<And>res body. (\<And>stat m m' q. res stat m = (m', q) \<Longrightarrow> q \<noteq> Inr True \<Longrightarrow> m' = m) \<Longrightarrow>
      G body \<Longrightarrow> triple P (with_reservation rn i res body) Q"
  shows "triple P (run_job rn i r) Q"
proof -
  have unowed: "reserve_bytes stat i b m = (m', q) \<Longrightarrow> q \<noteq> Inr True \<Longrightarrow> m' = m" for stat b m m' q
    by (auto simp: reserve_bytes_def reserve_def Let_def split: if_splits sum.splits)
  have "triple P (run_video rn i r stream) Q" for stream
  proof (cases "select_mp4_with_options stream (selector_options (job_options r))")
    case (Inl e)
    then show ?thesis using failed by (auto simp: run_video_def triple_def)
  next
    case (Inr sel)
    have "run_video rn i r stream = with_reservation rn i
        (\<lambda>stat. reserve_video (rn_lib rn) stat i sel (sr_duration stream))
        (\<lambda>w. artifact_job rn i (job_paths rn i (sr_title stream) (sel_container sel))
            (video_body rn i r sel (job_paths rn i (sr_title stream) (sel_container sel)))
            (show_resolved rn i (sr_title stream)
              (resolved_of sel (ap_name (job_paths rn i (sr_title stream) (sel_container sel)))) w))"
      using Inr by (simp add: run_video_def fun_eq_iff Let_def)
    then show ?thesis
      by (simp only:) (rule reserved [OF _ video [OF refl]], simp add: reserve_video_def unowed)
  qed
  moreover have "triple P (run_audio_only rn i r stream) Q" for stream
  proof (cases "select_audio_only stream (selector_options (job_options r))")
    case (Inl e)
    then show ?thesis using failed by (auto simp: run_audio_only_def triple_def)
  next
    case (Inr sel)
    have "run_audio_only rn i r stream = with_reservation rn i
        (\<lambda>stat. reserve_audio stat i sel (sr_duration stream))
        (\<lambda>w. artifact_job rn i (job_paths rn i (sr_title stream) (as_container sel))
            (audio_only_body rn i r sel (job_paths rn i (sr_title stream) (as_container sel)))
            (show_resolved rn i (sr_title stream)
              (audio_resolved_of sel (ap_name (job_paths rn i (sr_title stream) (as_container sel)))) w))"
      using Inr by (simp add: run_audio_only_def fun_eq_iff Let_def)
    then show ?thesis
      by (simp only:) (rule reserved [OF _ audio [OF refl]], simp add: reserve_audio_def unowed)
  qed
  ultimately show ?thesis
    unfolding run_job_def by (intro triple_bind_keep [OF streams]) (auto intro: failed)
qed

text \<open>Assertions that do not look at the monitor pass through the reservation.\<close>

lemma with_reservation_triple:
  assumes "triple P body Q" and "\<And>e w. P w \<Longrightarrow> Q (Inl e) w" and "stable rn P"
    and "\<And>w m. P w \<Longrightarrow> P (w\<lparr>w_monitor := m\<rparr>)"
    and "\<And>r w. Q r w \<Longrightarrow> Q r (pass_time rn w)" and "\<And>r w m. Q r w \<Longrightarrow> Q r (w\<lparr>w_monitor := m\<rparr>)"
  shows "triple P (with_reservation rn i reserve_disk body) Q"
proof (rule tripleI)
  fix w w' r
  assume w: "P w" and r: "with_reservation rn i reserve_disk body w = Some (w', r)"
  obtain m res where d: "reserve_disk (rn_stat rn (w_tick w)) (w_monitor (pass_time rn w)) = (m, res)" by fastforce
  have p: "P ((pass_time rn w)\<lparr>w_monitor := m\<rparr>)" by (intro assms(4) stableD [OF assms(3)] w)
  show "Q r w'"
  proof (cases res)
    case (Inl e)
    with r d have "w' = (pass_time rn w)\<lparr>w_monitor := m\<rparr>" "r = Inl e" by (auto simp: with_reservation_def Let_def)
    with p assms(2) show ?thesis by simp
  next
    case (Inr owed)
    with r d obtain w2 where b: "body ((pass_time rn w)\<lparr>w_monitor := m\<rparr>) = Some (w2, r)"
      and w': "w' = (if owed then (pass_time rn w2)\<lparr>w_monitor := release i (w_monitor (pass_time rn w2))\<rparr> else w2)"
      by (auto simp: with_reservation_def Let_def split: option.splits)
    from tripleD [OF assms(1) p b] have "Q r w2" .
    then show ?thesis unfolding w' using assms(5,6) by simp
  qed
qed

section \<open>How a job ends\<close>

text \<open>While a worker has it, a job is running, or was deleted before it was started.\<close>

definition working :: "string \<Rightarrow> world \<Rightarrow> bool" where
  "working i w \<longleftrightarrow> jobs (w_store w) i = None
     \<or> (\<exists>r. jobs (w_store w) i = Some r \<and> job_status r = Running \<and> expires_at r = None)"

definition delivered :: "string \<Rightarrow> saved \<Rightarrow> world \<Rightarrow> bool" where
  "delivered i sv w \<longleftrightarrow> jobs (w_store w) i = None
     \<or> (\<exists>r. jobs (w_store w) i = Some r \<and> job_status r = Done \<and> artifact r = sv_location sv
            \<and> storage_backend r = sv_backend sv \<and> expires_at r = sv_expires sv)"

lemma others_passD: "others_pass rn i files key \<Longrightarrow> (other_step (rn_fmt rn) i files key)\<^sup>*\<^sup>* w (rn_pass rn n w)"
  by (simp add: others_pass_def)

lemma working_passes: "others_pass rn i files key \<Longrightarrow> working i w \<Longrightarrow> working i (pass_time rn w)"
  using others.working_kept [OF others_passD [of rn i files key w "w_tick w"]]
  by (auto simp: working_def pass_time_def)

lemma delivered_passes: "others_pass rn i files key \<Longrightarrow> delivered i sv w \<Longrightarrow> delivered i sv (pass_time rn w)"
  using others.absent_kept [OF others_passD [of rn i files key w "w_tick w"]]
    others.ended_kept [OF others_passD [of rn i files key w "w_tick w"]]
  by (auto simp: delivered_def pass_time_def)

lemma set_progress_jobs: "jobs (set_progress fmt t i p s) j
    = (if j = i then map_option (\<lambda>r. r\<lparr>job_progress := p\<rparr>) (jobs s i) else jobs s j)"
  by (simp add: set_progress_def jobs_update)

lemma resolve_jobs: "jobs (resolve fmt t i title res s) j
    = (if j = i then map_option (resolve_job title res) (jobs s i) else jobs s j)"
  by (simp add: resolve_def jobs_update)

interpretation working_run: undisturbed rn i ps "\<lambda>w. others_pass rn i files key \<longrightarrow> working i w"
  for rn i ps files key
  by unfold_locales
    (auto simp: working_passes, auto simp: working_def set_progress_jobs resolve_jobs resolve_job_def)

end
