(* ===== verification/Pipeline_Outcome.thy ===== *)
theory Pipeline_Outcome
  imports Pipeline_Spec Job_Store_Spec
begin

text \<open>
  How a job ends when a worker has taken it: what the store records, its reservation, its files.
\<close>

lemma keeps_under: "keeps (\<lambda>w. A \<longrightarrow> P w) m \<Longrightarrow> A \<Longrightarrow> keeps P m"
  by (simp add: triple_def)

lemma triple_under:
  "triple (\<lambda>w. A \<longrightarrow> P w) m (\<lambda>r w. case r of Inl e \<Rightarrow> A \<longrightarrow> P w | Inr x \<Rightarrow> A \<longrightarrow> D x w) \<Longrightarrow> A \<Longrightarrow>
    triple P m (\<lambda>r w. case r of Inl e \<Rightarrow> P w | Inr x \<Rightarrow> D x w)"
  by (simp add: triple_def split: sum.splits) blast

lemma disk_step_passed: "disk_step rn f w = (pass_time rn w)\<lparr>w_disk := f (w_tick w) (w_disk (pass_time rn w))\<rparr>"
  by (simp add: disk_step_def Let_def)

section \<open>The record\<close>

text \<open>A record that has ended: done, or failed with a reason a client can read.\<close>

definition settled :: "job_record \<Rightarrow> bool" where
  "settled r \<longleftrightarrow> finished_at r \<noteq> None \<and>
     (job_status r = Done
      \<or> job_status r = Failed \<and> job_error r \<noteq> None
        \<and> error_code r \<in> Some ` {''cancelled'', ''insufficient_storage'', ''download_failed''})"

definition ended :: "string \<Rightarrow> world \<Rightarrow> bool" where
  "ended i w \<longleftrightarrow> (case jobs (w_store w) i of None \<Rightarrow> True | Some r \<Rightarrow> settled r)"

lemma ended_passes: "others_pass rn i files key \<Longrightarrow> ended i w \<Longrightarrow> ended i (pass_time rn w)"
  using others.absent_kept [OF others_passD [of rn i files key w "w_tick w"]]
    others.ended_kept [OF others_passD [of rn i files key w "w_tick w"]]
  by (fastforce simp: ended_def settled_def pass_time_def split: option.splits)

lemma finish_done_jobs: "jobs (finish_done fmt now t i art backend ex dl mx s) j
    = (if j = i then map_option (done_job now art backend ex dl mx) (jobs s i) else jobs s j)"
  by (simp add: finish_done_def jobs_update)

lemma fail_jobs: "jobs (fail fmt now t i code e s) j
    = (if j = i then map_option (fail_job now code (error_text e)) (jobs s i) else jobs s j)"
  by (simp add: fail_def jobs_update)

lemma start_jobs: "jobs (fst (start fmt now t i c s)) j
    = (if j = i then map_option (start_job now c) (jobs s i) else jobs s j)"
  by (simp add: start_def jobs_update)

lemma done_job_ended [simp]:
  "job_status (done_job now art backend ex dl mx r) = Done"
  "finished_at (done_job now art backend ex dl mx r) = Some now"
  "artifact (done_job now art backend ex dl mx r) = art"
  "storage_backend (done_job now art backend ex dl mx r) = backend"
  "expires_at (done_job now art backend ex dl mx r) = ex"
  by (simp_all add: done_job_def Let_def)

lemma fail_job_settled: "settled (fail_job now (failure_code ctx e) m r)"
  by (simp add: settled_def fail_job_def failure_code_def)

text \<open>Before it is started, the job is queued, or was cancelled or deleted.\<close>

definition waiting :: "string \<Rightarrow> world \<Rightarrow> bool" where
  "waiting i w \<longleftrightarrow> (case jobs (w_store w) i of
     None \<Rightarrow> True | Some r \<Rightarrow> expires_at r = None \<and> (job_status r = Queued \<or> settled r))"

lemma bystander_waiting:
  assumes "other_step fmt i files key w w'" and "waiting i w" shows "waiting i w'"
proof -
  have "bystander fmt i (w_store w) (w_store w') \<or> w_store w' = w_store w"
    using assms(1) by cases auto
  with bystander_job [of fmt i "w_store w" "w_store w'"] assms(2) show ?thesis
    by (fastforce simp: waiting_def settled_def cancel_job_def split: option.splits)
qed

lemma waiting_passes:
  assumes "others_pass rn i files key" and "waiting i w" shows "waiting i (pass_time rn w)"
proof -
  have "waiting i w'" if "(other_step (rn_fmt rn) i files key)\<^sup>*\<^sup>* w w'" for w'
    using that by induction (use assms(2) bystander_waiting in auto)
  with others_passD [OF assms(1)] show ?thesis by (simp add: waiting_def pass_time_def)
qed

lemma started_working:
  assumes "others_pass rn i files key" and "waiting i w" shows "working i (start_running rn i w)"
  using waiting_passes [OF assms]
  by (auto simp: start_running_def store_step_def Let_def waiting_def working_def start_jobs start_job_def
      split: option.splits)

lemma failure_ends:
  assumes "others_pass rn i files key" and "working i w" shows "ended i (record_failure rn i e w)"
  using working_passes [OF assms(1) working_passes [OF assms]]
  by (auto simp: record_failure_def store_step_def Let_def ended_def working_def fail_jobs fail_job_settled)

text \<open>What a turn of a worker does, in its three cases.\<close>

lemma process_job_cases:
  assumes "process_job rn i w = Some w'"
  obtains "w' = pass_time rn w" and "\<forall>r. jobs (w_store w') i = Some r \<longrightarrow> job_status r \<noteq> Queued"
  | r w1 q where "jobs (w_store (pass_time rn w)) i = Some r" and "job_status r = Queued"
      and "run_job rn i r (start_running rn i ((pass_time rn w)\<lparr>w_ctx := rn_parent rn\<rparr>)) = Some (w1, q)"
      and "w' = (case q of Inl e \<Rightarrow> record_failure rn i e w1 | Inr _ \<Rightarrow> w1)"
  using assms
  by (auto simp: process_job_def Let_def get_job_def split: option.splits if_splits sum.splits)

lemma run_job_ends:
  assumes "others_pass rn i files key"
  shows "triple (working i) (run_job rn i r) (\<lambda>r w. case r of Inl e \<Rightarrow> working i w | Inr _ \<Rightarrow> ended i w)"
proof (rule run_job_rule)
  let ?G = "\<lambda>body. triple (working i) body (\<lambda>r w. case r of Inl (e :: error) \<Rightarrow> working i w | Inr (_ :: unit) \<Rightarrow> ended i w)"
  show "keeps (working i) (extract_streams rn r)"
    by (rule keeps_under [OF working_run.extract_keeps assms])
  have job: "?G (\<lambda>w. artifact_job rn i ps body (show_resolved rn i title out w))"
    if "keeps (\<lambda>w. others_pass rn i files key \<longrightarrow> working i w) body" for ps body title out
  proof -
    have "triple (working i) (make_output rn i ps body) (\<lambda>r w. case r of Inl e \<Rightarrow> working i w | Inr sv \<Rightarrow> ended i w)"
      by (rule triple_under [OF working_run.make_output_triple [where D = "\<lambda>_ w. others_pass rn i files key \<longrightarrow> ended i w", OF that] assms])
         (auto simp: ended_def working_def finish_done_jobs settled_def)
    then have "?G (artifact_job rn i ps body)"
      by (rule artifact_job_rule)
         (use working_passes [OF assms] ended_passes [OF assms] in \<open>auto simp: disk_step_passed working_def ended_def\<close>)
    moreover have "working i w \<Longrightarrow> working i (show_resolved rn i title out w)" for w
      using working_run.show_resolved_keeps [of rn i files key w title out] assms by blast
    ultimately show ?thesis by (auto simp: triple_def)
  qed
  show "?G (\<lambda>w. artifact_job rn i ps (video_body rn i r sel ps) (show_resolved rn i title out w))" for title sel out ps
    by (rule job [OF working_run.video_body_keeps])
  show "?G (\<lambda>w. artifact_job rn i ps (audio_only_body rn i r sel ps) (show_resolved rn i title out w))" for title sel out ps
    by (rule job [OF working_run.audio_only_body_keeps])
  show "?G (with_reservation rn i res body)" if "?G body" for res body
    by (rule with_reservation_triple [OF that])
       (use working_passes [OF assms] ended_passes [OF assms] in
         \<open>auto simp: stable_def working_def ended_def split: sum.splits\<close>)
qed simp

lemma process_ends:
  assumes "others_pass rn i files key" and "waiting i w" and "process_job rn i w = Some w'"
  shows "ended i w'"
  using assms(3)
proof (cases rule: process_job_cases)
  case 1
  with waiting_passes [OF assms(1,2)] show ?thesis by (auto simp: waiting_def ended_def split: option.splits)
next
  case (2 r w1 q)
  have "waiting i ((pass_time rn w)\<lparr>w_ctx := rn_parent rn\<rparr>)"
    using waiting_passes [OF assms(1,2)] by (simp add: waiting_def)
  from tripleD [OF run_job_ends [OF assms(1)] started_working [OF assms(1) this] 2(3)] failure_ends [OF assms(1)]
  show ?thesis by (auto simp: 2(4) split: sum.splits)
qed

section \<open>The reservation\<close>

definition reserved_bytes :: "string \<Rightarrow> world \<Rightarrow> u64 option" where
  "reserved_bytes i w = map_of (reservations (w_monitor w)) i"

lemma reserved_passes: "others_pass rn i files key \<Longrightarrow> reserved_bytes i (pass_time rn w) = reserved_bytes i w"
  using others.reservation_kept [OF others_passD [of rn i files key w "w_tick w"]]
  by (simp add: reserved_bytes_def pass_time_def)

interpretation reserved_run: undisturbed rn i ps "\<lambda>w. others_pass rn i files key \<longrightarrow> reserved_bytes i w = x"
  for rn i ps files key x
  by unfold_locales (auto simp: reserved_passes, auto simp: reserved_bytes_def)

text \<open>Whatever the body does to the reservation of this job is undone at its end.\<close>

lemma reservation_undone:
  assumes "others_pass rn i files key" and "\<And>x. keeps (\<lambda>w. reserved_bytes i w = x) body"
    and "\<And>stat m m' r. res stat m = (m', r) \<Longrightarrow> r \<noteq> Inr True \<Longrightarrow> m' = m"
  shows "keeps (\<lambda>w. reserved_bytes i w = None) (with_reservation rn i res body)"
proof (rule tripleI)
  fix w w' r
  assume w: "reserved_bytes i w = None" and r: "with_reservation rn i res body w = Some (w', r)"
  obtain m q where d: "res (rn_stat rn (w_tick w)) (w_monitor (pass_time rn w)) = (m, q)" by fastforce
  have p: "reserved_bytes i (pass_time rn w) = None" using w reserved_passes [OF assms(1)] by simp
  show "reserved_bytes i w' = None"
  proof (cases "q = Inr True")
    case True
    with r d show ?thesis
      by (auto simp: with_reservation_def Let_def reserved_bytes_def release_others split: option.splits)
  next
    case False
    with assms(3) [OF d] have m: "m = w_monitor (pass_time rn w)" by simp
    show ?thesis
    proof (cases q)
      case (Inl e)
      with r d m p show ?thesis by (auto simp: with_reservation_def Let_def reserved_bytes_def)
    next
      case (Inr b)
      with False r d m have "body (pass_time rn w) = Some (w', r)"
        by (auto simp: with_reservation_def Let_def split: option.splits)
      from tripleD [OF assms(2) p this] show ?thesis .
    qed
  qed
qed

lemma artifact_job_reserved:
  assumes "others_pass rn i files key"
    and "keeps (\<lambda>w. others_pass rn i files key \<longrightarrow> reserved_bytes i w = x) body"
  shows "keeps (\<lambda>w. reserved_bytes i w = x) (\<lambda>w. artifact_job rn i ps body (show_resolved rn i title out w))"
proof (rule keeps_under [OF _ assms(1)], rule keeps_prefix)
  let ?P = "\<lambda>w. others_pass rn i files key \<longrightarrow> reserved_bytes i w = x"
  show "keeps ?P (artifact_job rn i ps body)"
    by (rule artifact_job_rule [OF reserved_run.make_output_triple [where D = "\<lambda>_. ?P", OF assms(2)]])
       (auto simp: disk_step_passed reserved_passes, auto simp: reserved_bytes_def reserved_passes [unfolded reserved_bytes_def])
qed (rule reserved_run.show_resolved_keeps)

lemma run_job_released:
  assumes "others_pass rn i files key"
  shows "keeps (\<lambda>w. reserved_bytes i w = None) (run_job rn i r)"
proof (rule run_job_rule [where G = "\<lambda>body. \<forall>x. keeps (\<lambda>w. reserved_bytes i w = x) body"])
  show "keeps (\<lambda>w. reserved_bytes i w = None) (extract_streams rn r)"
    by (rule keeps_under [OF reserved_run.extract_keeps assms])
qed (use assms in \<open>auto intro: artifact_job_reserved reserved_run.video_body_keeps
      reserved_run.audio_only_body_keeps reservation_undone\<close>)

lemma process_released:
  assumes "others_pass rn i files key" and "reserved_bytes i w = None" and "process_job rn i w = Some w'"
  shows "reserved_bytes i w' = None"
  using assms(3)
proof (cases rule: process_job_cases)
  case 1
  with assms(2) reserved_passes [OF assms(1)] show ?thesis by simp
next
  case (2 r w1 q)
  note pass = reserved_passes [OF assms(1)]
  have "reserved_bytes i (start_running rn i ((pass_time rn w)\<lparr>w_ctx := rn_parent rn\<rparr>)) = None"
    using assms(2) pass [of w] pass [of "(pass_time rn w)\<lparr>w_ctx := rn_parent rn\<rparr>"]
    by (simp add: start_running_def store_step_def Let_def reserved_bytes_def)
  from tripleD [OF run_job_released [OF assms(1)] this 2(3)] have "reserved_bytes i w1 = None" .
  then show ?thesis
    using 2(4) pass [of w1] pass [of "pass_time rn w1"]
    by (auto simp: record_failure_def store_step_def Let_def reserved_bytes_def split: sum.splits)
qed

section \<open>The files\<close>

text \<open>Removing a file does not fail, and \<open>ffmpeg\<close> writes the file it is given last.\<close>

definition tidy_runner :: "'u runner \<Rightarrow> bool" where
  "tidy_runner rn \<longleftrightarrow> f_remove (rn_faults rn) = (\<lambda>_. None)
     \<and> (\<forall>n. f_remove (fe_faults (rn_file rn n)) = (\<lambda>_. None))
     \<and> (\<forall>k. f_remove (ae_faults (rn_sabr rn k)) = (\<lambda>_. None))
     \<and> (\<forall>k. writes_last (rn_ffmpeg rn k))"

text \<open>No write of the job leaves a file other than its three targets.\<close>

lemma job_write_tidy:
  assumes "job_write rn ps d d'" and "tidy_runner rn" and "q \<notin> targets_of ps" and "d q = None"
  shows "d' q = None"
  using assms(1)
proof cases
  case (jw_range p n fuel src opts calls r)
  with range_download_frame [OF jw_range(2)] assms show ?thesis
    by (cases "q = part_name p") (auto simp: tidy_runner_def)
next
  case (jw_sabr opts reports res)
  have "q \<notin> targets opts" using jw_sabr(1) assms(3) by blast
  from sabr_download_tidy [OF this _ jw_sabr(2)] assms show ?thesis by (simp add: tidy_runner_def)
next
  case (jw_remux av c0 c1 v vh a ah e)
  with assms remux_frame [of q "ap_output ps" av v vh a ah d] show ?thesis
    by (auto simp: remux_avformat_with_headers_def targets_of_def split: option.splits prod.splits)
next
  case (jw_ffmpeg k v a e)
  with assms ffmpeg_frames(1) [of "rn_ffmpeg rn k" q "ap_output ps" v a d] show ?thesis
    by (simp add: tidy_runner_def targets_of_def)
next
  case (jw_remote k v a e)
  with assms ffmpeg_frames(2) [of "rn_ffmpeg rn k" q "ap_output ps" "rn_lib rn" v a d] show ?thesis
    by (simp add: tidy_runner_def targets_of_def)
next
  case (jw_remote_audio k a e)
  with assms ffmpeg_frames(3) [of "rn_ffmpeg rn k" q "ap_output ps" "rn_lib rn" a d] show ?thesis
    by (simp add: tidy_runner_def targets_of_def)
next
  case jw_remove
  with assms show ?thesis by (simp add: remove_path_def os_remove_other targets_of_def)
qed

lemma files_pass: "others_pass rn i files key \<Longrightarrow> q \<in> files \<Longrightarrow> w_disk (pass_time rn w) q = w_disk w q"
  using others.files_kept [OF others_passD [of rn i files key w "w_tick w"]] by (simp add: pass_time_def)

text \<open>While it works, a job has no files but its targets, among those the others leave alone.\<close>

definition bare :: "string set \<Rightarrow> paths \<Rightarrow> world \<Rightarrow> bool" where
  "bare files ps w \<longleftrightarrow> (\<forall>q\<in>files - targets_of ps. w_disk w q = None)"

lemma bare_passes: "others_pass rn i files key \<Longrightarrow> bare files ps (pass_time rn w) = bare files ps w"
  by (auto simp: bare_def files_pass)

interpretation tidy_run: undisturbed rn i ps
    "\<lambda>w. others_pass rn i files key \<and> tidy_runner rn \<longrightarrow> working i w \<and> bare files ps w"
  for rn i ps files key
  by unfold_locales
    (auto simp: working_passes bare_passes, auto simp: working_def bare_def set_progress_jobs resolve_jobs resolve_job_def
       job_write_tidy)

text \<open>At the end, a file can only be the output of a job that is done and kept on this disk.\<close>

definition kept_here :: "string \<Rightarrow> world \<Rightarrow> bool" where
  "kept_here i w \<longleftrightarrow> (case jobs (w_store w) i of None \<Rightarrow> True
     | Some r \<Rightarrow> job_status r = Done \<and> storage_backend r = ''local'')"

definition only_output :: "'u runner \<Rightarrow> string \<Rightarrow> string set \<Rightarrow> world \<Rightarrow> bool" where
  "only_output rn i files w \<longleftrightarrow> (\<forall>q\<in>files. w_disk w q \<noteq> None \<longrightarrow>
     (\<exists>title container. q = ap_output (job_paths rn i title container)) \<and> kept_here i w)"

definition no_files :: "string set \<Rightarrow> world \<Rightarrow> bool" where
  "no_files files w \<longleftrightarrow> (\<forall>q\<in>files. w_disk w q = None)"

lemma kept_here_passes: "others_pass rn i files key \<Longrightarrow> kept_here i w \<Longrightarrow> kept_here i (pass_time rn w)"
  using others.absent_kept [OF others_passD [of rn i files key w "w_tick w"]]
    others.ended_kept [OF others_passD [of rn i files key w "w_tick w"]]
  by (fastforce simp: kept_here_def pass_time_def split: option.splits)

lemma cleanup_work_other:
  "q \<notin> {ap_video ps, ap_audio ps, ap_output ps} \<Longrightarrow> cleanup_work fl ps keep d q = d q"
  by (simp add: cleanup_work_def remove_path_def Let_def os_remove_other)

lemma cleanup_work_gone:
  assumes "f_remove fl = (\<lambda>_. None)" and "q \<in> targets_of ps" and "keep \<Longrightarrow> q \<noteq> ap_output ps"
  shows "cleanup_work fl ps keep d q = None"
proof -
  have r: "remove_path fl p d' q = (if q = p then None else d' q)" for p d'
    using assms(1) by (simp add: remove_path_def os_remove_gone os_remove_other)
  show ?thesis using assms(2,3) by (auto simp: cleanup_work_def Let_def r targets_of_def)
qed

lemma run_job_tidy:
  assumes "others_pass rn i files key" and "tidy_runner rn"
  shows "triple (\<lambda>w. working i w \<and> no_files files w) (run_job rn i r)
    (\<lambda>r w. case r of Inl e \<Rightarrow> working i w \<and> no_files files w | Inr _ \<Rightarrow> only_output rn i files w)"
    (is "triple ?P _ ?Q")
proof (rule run_job_rule)
  let ?A = "others_pass rn i files key \<and> tidy_runner rn"
  let ?G = "\<lambda>body. triple ?P body (\<lambda>(r :: unit result) w. case r of Inl e \<Rightarrow> ?P w | Inr _ \<Rightarrow> only_output rn i files w)"
  have A: ?A using assms by simp
  note pass = working_passes [OF assms(1)] delivered_passes [OF assms(1)] files_pass [OF assms(1)] bare_passes [OF assms(1)]
  have P_pass: "?P w \<Longrightarrow> ?P (pass_time rn w)" for w by (auto simp: pass no_files_def)
  have Q_pass: "only_output rn i files w \<Longrightarrow> only_output rn i files (pass_time rn w)" for w
    using kept_here_passes [OF assms(1), of w] by (auto simp: only_output_def files_pass [OF assms(1)])
  show "keeps ?P (extract_streams rn r)"
    unfolding extract_streams_def
    by (rule keeps_retry) (auto simp: stable_def P_pass, auto simp: triple_def)
  have job: "?G (\<lambda>w. artifact_job rn i ps body (show_resolved rn i title out w))"
    if "keeps (\<lambda>w. ?A \<longrightarrow> working i w \<and> bare files ps w) body" and "ps = job_paths rn i t c" for ps body title out t c
  proof -
    have "triple (\<lambda>w. working i w \<and> bare files ps w) (make_output rn i ps body)
        (\<lambda>r w. case r of Inl e \<Rightarrow> working i w \<and> bare files ps w | Inr sv \<Rightarrow> delivered i sv w \<and> bare files ps w)"
      by (rule triple_under [OF tidy_run.make_output_triple [where D = "\<lambda>sv w. ?A \<longrightarrow> delivered i sv w \<and> bare files ps w", OF that(1)] A])
         (auto simp: delivered_def working_def bare_def finish_done_jobs)
    then have "triple (\<lambda>w. working i w \<and> bare files ps w) (artifact_job rn i ps body)
        (\<lambda>(r :: unit result) w. case r of Inl e \<Rightarrow> ?P w | Inr _ \<Rightarrow> only_output rn i files w)"
    proof (rule artifact_job_rule)
      fix e w assume w: "working i w \<and> bare files ps w"
      have "cleanup_work (rn_faults rn) ps False (w_disk (pass_time rn w)) q = None" if "q \<in> files" for q
        using w that assms(2) cleanup_work_gone [of "rn_faults rn" q ps False] cleanup_work_other [of q ps]
        by (cases "q \<in> targets_of ps") (auto simp: tidy_runner_def bare_def targets_of_def pass)
      then show "case Inl e of Inl e \<Rightarrow> ?P (disk_step rn (\<lambda>_. cleanup_work (rn_faults rn) ps False) w)
          | Inr _ \<Rightarrow> only_output rn i files (disk_step rn (\<lambda>_. cleanup_work (rn_faults rn) ps False) w)"
        using w pass(1) [of w] by (simp add: disk_step_passed no_files_def working_def)
    next
      fix sv w assume w: "delivered i sv w \<and> bare files ps w"
      let ?keep = "sv_backend sv = ''local''"
      have gone: "cleanup_work (rn_faults rn) ps ?keep (w_disk (pass_time rn w)) q = None"
        if "q \<in> files" "\<not> (?keep \<and> q = ap_output ps)" for q
        using w that assms(2) cleanup_work_gone [of "rn_faults rn" q ps ?keep] cleanup_work_other [of q ps]
        by (cases "q \<in> targets_of ps") (auto simp: tidy_runner_def bare_def targets_of_def pass)
      have "delivered i sv (pass_time rn w)" using w pass(2) by blast
      then show "case Inr () of Inl e \<Rightarrow> ?P (disk_step rn (\<lambda>_. cleanup_work (rn_faults rn) ps ?keep) w)
          | Inr _ \<Rightarrow> only_output rn i files (disk_step rn (\<lambda>_. cleanup_work (rn_faults rn) ps ?keep) w)"
        using gone that(2) by (fastforce simp: disk_step_passed only_output_def kept_here_def delivered_def split: option.splits)
    qed
    moreover have "?P w \<Longrightarrow> working i (show_resolved rn i title out w) \<and> bare files ps (show_resolved rn i title out w)" for w
      using tidy_run.show_resolved_keeps [where rn = rn and i = i and files = files and key = key and w = w and ps = ps and title = title] A by (auto simp: bare_def no_files_def)
    ultimately show ?thesis by (auto simp: triple_def)
  qed
  show "?G (\<lambda>w. artifact_job rn i ps (video_body rn i r sel ps) (show_resolved rn i title out w))"
    if "ps = job_paths rn i title (sel_container sel)" for title sel out ps
    by (rule job [OF tidy_run.video_body_keeps that])
  show "?G (\<lambda>w. artifact_job rn i ps (audio_only_body rn i r sel ps) (show_resolved rn i title out w))"
    if "ps = job_paths rn i title (as_container sel)" for title sel out ps
    by (rule job [OF tidy_run.audio_only_body_keeps that])
  show "?G (with_reservation rn i res body)" if "?G body" for res body
    by (rule with_reservation_triple [OF that])
       (use P_pass Q_pass in \<open>auto simp: stable_def working_def no_files_def only_output_def kept_here_def split: sum.splits\<close>)
qed simp

lemma process_tidy:
  assumes "others_pass rn i files key" and "tidy_runner rn" and "waiting i w" and "no_files files w"
    and "process_job rn i w = Some w'"
  shows "only_output rn i files w'"
  using assms(5)
proof (cases rule: process_job_cases)
  case 1
  with assms(4) show ?thesis by (auto simp: only_output_def no_files_def files_pass [OF assms(1)])
next
  case (2 r w1 q)
  let ?w0 = "(pass_time rn w)\<lparr>w_ctx := rn_parent rn\<rparr>"
  have "waiting i ?w0" using waiting_passes [OF assms(1,3)] by (simp add: waiting_def)
  from started_working [OF assms(1) this] have w: "working i (start_running rn i ?w0)" .
  have d: "no_files files (start_running rn i ?w0)"
    using assms(4) by (auto simp: no_files_def start_running_def store_step_def Let_def files_pass [OF assms(1)])
  from tripleD [OF run_job_tidy [OF assms(1,2)] _ 2(3)] w d
  have r: "case q of Inl e \<Rightarrow> working i w1 \<and> no_files files w1 | Inr _ \<Rightarrow> only_output rn i files w1" by blast
  show ?thesis
  proof (cases q)
    case (Inl e)
    with r 2(4) show ?thesis
      by (auto simp: only_output_def no_files_def record_failure_def store_step_def Let_def files_pass [OF assms(1)])
  next
    case (Inr u)
    with r 2(4) show ?thesis by simp
  qed
qed

section \<open>The properties of a turn\<close>

text \<open>C1: Whatever the other goroutines do between its steps (cancel or delete the job, run others, end the
  context), when a worker's turn with a job is over the job is done, or failed with a reason, or was
  deleted; it is never left queued or running.\<close>

theorem process_settles:
  assumes "others_pass rn i files key" and "waiting i w" and "process_job rn i w = Some w'"
  shows "case jobs (w_store w') i of None \<Rightarrow> True | Some r \<Rightarrow>
    finished_at r \<noteq> None \<and> (job_status r = Done \<or> job_status r = Failed \<and> job_error r \<noteq> None
      \<and> error_code r \<in> Some ` {''cancelled'', ''insufficient_storage'', ''download_failed''})"
  using process_ends [OF assms] by (simp add: ended_def settled_def split: option.splits)

text \<open>C15: Whatever way a job's run takes and however it ends, the disk space reserved for it is released
  when the turn is over.\<close>

theorem process_releases:
  assumes "others_pass rn i files key" and "map_of (reservations (w_monitor w)) i = None"
    and "process_job rn i w = Some w'"
  shows "map_of (reservations (w_monitor w')) i = None"
  using process_released [OF assms(1) _ assms(3)] assms(2) by (simp add: reserved_bytes_def)


section \<open>An example\<close>

text \<open>A video job of two files of two bytes, each in one chunk by one worker, muxed by a library
  that writes the bytes of both, and kept on the local disk; nobody else is at work.\<close>

definition sample_config :: config where
  "sample_config = \<lparr>cf_http_addr = '':1'', cf_public_base_url = ''http://h'', cf_typetype_api_base = ''http://s'',
     cf_data_dir = ''/d'', cf_database_url = [], cf_redis_addr = [], cf_job_ttl_seconds = 600,
     cf_storage_backend = ''local'', cf_s3_endpoint = [], cf_s3_public_endpoint = [], cf_s3_region = [],
     cf_s3_bucket = [], cf_s3_access_key = [], cf_s3_secret_key = [], cf_s3_use_ssl = True, cf_s3_public_use_ssl = True,
     cf_s3_path_style = True, cf_artifact_ttl = 7200, cf_max_workers = 2, cf_download_workers = 1, cf_chunk_size = 3,
     cf_range_mode = ''header'', cf_muxer = ''avformat'', cf_http2 = True, cf_max_queue_size = 100,
     cf_min_free_bytes = 1, cf_min_free_percent = 20\<rparr>"

definition sample_video_item :: video_item where
  "sample_video_item = \<lparr>v_url = ''v'', v_mime_type = ''video/mp4'', v_format = [], v_resolution = [],
     v_bitrate = None, v_codec = Some ''avc1'', v_is_video_only = True, v_itag = 1, v_width = 0, v_height = 720, v_fps = 30,
     v_content_length = 2, v_init_start = 0, v_init_end = 0, v_index_start = 0, v_index_end = 0,
     v_delivery_method = [], v_manifest_url = [], v_sabr_session_url = []\<rparr>"

definition sample_audio_item :: audio_item where
  "sample_audio_item = \<lparr>a_url = ''a'', a_mime_type = ''audio/mp4'', a_format = [], a_bitrate = None,
     a_codec = Some ''mp4a'', a_quality = None, a_itag = 2, a_content_length = 2, a_init_start = 0, a_init_end = 0,
     a_index_start = 0, a_index_end = 0, a_audio_track_id = None, a_audio_track_name = None, a_audio_locale = None,
     a_is_original = False, a_delivery_method = [], a_manifest_url = [], a_sabr_session_url = []\<rparr>"

definition small_file_env :: file_env where
  "small_file_env = \<lparr>fe_chunk = \<lambda>_ _ _. \<lparr>ce_client = \<lambda>_. Inr \<lparr>rs_status = 206, rs_status_line = [],
          rs_headers = [''Content-Range'' \<mapsto> ''bytes 0-1/2''], rs_length = 2, rs_body = \<lparr>r_data = [7, 8], r_end = Eof\<rparr>\<rparr>,
        ce_write = \<lambda>_ bs. (length bs, None), ce_wait = None\<rparr>,
     fe_schedule = replicate 5 (Step 0 5), fe_probe = \<lambda>_. Inl (Err []), fe_faults = no_faults,
     fe_progress = True, fe_started = 0, fe_ended = 9\<rparr>"

definition sample_response :: stream_response where
  "sample_response = \<lparr>sr_id = ''x'', sr_title = ''t'', sr_duration = 1, sr_video_streams = [],
     sr_video_only_streams = [sample_video_item], sr_audio_streams = [sample_audio_item],
     sr_original_audio_track_id = None, sr_preferred_default_audio_id = None, sr_hls_url = [], sr_dash_mpd_url = []\<rparr>"

definition copying_av :: av_lib where
  "copying_av = sample_av\<lparr>av_open := \<lambda>d p h. (0, \<lparr>in_packets =
     map (\<lambda>b. \<lparr>pk_stream = if has_suffix p ''video.mp4'' then 0 else 1, pk_pts = None, pk_dts = Some 0, pk_data = [b]\<rparr>)
       (contents p d), in_end = averror_eof\<rparr>)\<rparr>"

definition sample_runner :: "string runner" where
  "sample_runner = \<lparr>rn_lib = sample_lib, rn_config = sample_config, rn_fmt = (\<lambda>_. []),
     rn_clock = int, rn_clock_bc = int, rn_pass = (\<lambda>_ w. w), rn_parent = None, rn_cancel = 1,
     rn_server = (\<lambda>_ _. Inr \<lparr>rs_status = 200, rs_status_line = [], rs_headers = Map.empty, rs_length = 0,
       rs_body = \<lparr>r_data = [], r_end = Eof\<rparr>\<rparr>), rn_decode = (\<lambda>_. Inr sample_response),
     rn_stat = (\<lambda>_. Inr \<lparr>st_blocks = 1000, st_bavail = 900, st_bsize = 1\<rparr>), rn_mkdir = (\<lambda>_. None),
     rn_faults = no_faults, rn_file = (\<lambda>_. small_file_env), rn_fuel = 9, rn_order = [], rn_audio_first = False,
     rn_sabr = (\<lambda>_. sample_attempt), rn_report_time = (\<lambda>_. 0), rn_speed = (\<lambda>b t. b), rn_av = (\<lambda>_. copying_av),
     rn_header_names = [], rn_ffmpeg = (\<lambda>_ _ d. (d, None)), rn_s3 = (\<lambda>_. \<lparr>sc_new = \<lambda>_. None, sc_put = \<lambda>_. None,
       sc_remove = \<lambda>_. None, sc_presign = \<lambda>_ _. Inr []\<rparr>), rn_files = Local_store\<rparr>"

definition sample_world :: world where
  "sample_world = \<lparr>w_tick = 0, w_store = sample_store Queued, w_monitor = \<lparr>data_dir = ''/d'', min_free_bytes = 0,
     min_free_percent = 20, reservations = []\<rparr>, w_disk = Map.empty, w_objects = Map.empty, w_ctx = None\<rparr>"



text \<open>The same where no directory can be made: the job fails after the space was reserved.\<close>

definition full_runner :: "string runner" where
  "full_runner = sample_runner\<lparr>rn_mkdir := \<lambda>_. Some (Err ''read-only'')\<rparr>"

lemma sample_process:
  "case process_job full_runner ''a'' sample_world of None \<Rightarrow> False
   | Some w \<Rightarrow> map_option job_status (jobs (w_store w) ''a'') = Some Failed"
  by code_simp

lemma sample_process_ends:
  obtains w' r where "process_job full_runner ''a'' sample_world = Some w'"
    and "jobs (w_store w') ''a'' = Some r" and "job_status r = Failed"
  using sample_process by (auto split: option.splits)

lemma sample_others: "others_pass full_runner ''a'' UNIV key"
  by (simp add: others_pass_def full_runner_def sample_runner_def)

lemma sample_waiting: "waiting ''a'' sample_world"
  by (simp add: waiting_def sample_world_def)

lemma sample_runner_tidy: "tidy_runner full_runner"
  by (simp add: tidy_runner_def full_runner_def sample_runner_def small_file_env_def sample_attempt_def no_faults_def
      writes_last_def)

lemma process_settles_witness:
  "\<exists>w' r. process_job full_runner ''a'' sample_world = Some w' \<and> jobs (w_store w') ''a'' = Some r
     \<and> job_status r = Failed \<and> error_code r \<noteq> None \<and> finished_at r \<noteq> None"
proof -
  obtain w' r where w': "process_job full_runner ''a'' sample_world = Some w'"
    and r: "jobs (w_store w') ''a'' = Some r" "job_status r = Failed"
    by (rule sample_process_ends)
  from process_settles [OF sample_others sample_waiting w'] w' r show ?thesis by auto
qed

lemma process_releases_witness:
  "\<exists>w'. process_job full_runner ''a'' sample_world = Some w' \<and> map_of (reservations (w_monitor w')) ''a'' = None"
proof -
  obtain w' where w': "process_job full_runner ''a'' sample_world = Some w'" by (rule sample_process_ends)
  have "map_of (reservations (w_monitor sample_world)) ''a'' = None" by (simp add: sample_world_def)
  from process_releases [OF sample_others this w'] w' show ?thesis by blast
qed


end
