(* ===== verification/Pipeline_Delivery.thy ===== *)
theory Pipeline_Delivery
  imports Pipeline_Outcome
begin

text \<open>
  What a job delivers: the artifact of a job that took the range way is the muxing of exactly the data
  the media servers gave for the two files (\<open>runner.go\<close>, from the download to \<open>Done\<close>).
\<close>

section \<open>Steps that leave a file alone\<close>

lemma store_step_disk: "others_pass rn i files key \<Longrightarrow> q \<in> files \<Longrightarrow> w_disk (store_step rn f w) q = w_disk w q"
  by (simp add: store_step_def Let_def files_pass)

lemma show_progress_disk: "others_pass rn i files key \<Longrightarrow> q \<in> files \<Longrightarrow> w_disk (show_progress rn i pg w) q = w_disk w q"
  by (simp add: show_progress_def store_step_disk)

lemma show_calls_disk: "others_pass rn i files key \<Longrightarrow> q \<in> files \<Longrightarrow> w_disk (show_calls rn i ps c known w) q = w_disk w q"
  by (induction ps arbitrary: c known w) (simp_all add: combined_update_def Let_def show_progress_disk)

lemma triple_conj:
  "triple P m Q \<Longrightarrow> triple P' m Q' \<Longrightarrow> triple (\<lambda>w. P w \<and> P' w) m (\<lambda>r w. Q r w \<and> Q' r w)"
  unfolding triple_def by blast

lemma keeps_prefix_triple: "triple P m Q \<Longrightarrow> (\<And>w. P' w \<Longrightarrow> P (f w)) \<Longrightarrow> triple P' (\<lambda>w. m (f w)) Q"
  unfolding triple_def by blast

section \<open>The two files\<close>

text \<open>The bytes \<open>bs\<close> are, chunk by chunk, what the server of the media gave for exactly these ranges.\<close>

definition served_media :: "'u runner \<Rightarrow> string \<Rightarrow> string \<Rightarrow> int \<Rightarrow> int \<Rightarrow> byte list \<Rightarrow> bool" where
  "served_media rn name url len progress_bytes bs \<longleftrightarrow>
     (\<exists>chunks parts. tiled 0 len chunks \<and> bs = concat (map parts chunks)
        \<and> (\<forall>c\<in>set chunks. chunk_served (rn_lib rn) (fe_chunk (rn_file rn name))
              \<lparr>src_name = name, src_url = url, src_size = len\<rparr>
              (normalized_options (pipeline_dl_options (rn_config rn) progress_bytes)) c (parts c)))"

text \<open>Sizes for which no 64-bit sum wraps around.\<close>

definition size_fits :: "'u runner \<Rightarrow> int \<Rightarrow> bool" where
  "size_fits rn len \<longleftrightarrow> 0 < len
     \<and> len + do_chunk_size (normalized_options (pipeline_dl_options (rn_config rn) 0)) \<le> max_i64"

lemma chunk_size_same: "do_chunk_size (normalized_options (pipeline_dl_options cfg n))
    = do_chunk_size (normalized_options (pipeline_dl_options cfg m))"
  by (simp add: normalized_options_def pipeline_dl_options_def Let_def)

lemma download_file_served:
  assumes "download_file (rn_lib rn) (rn_file rn name) fuel \<lparr>src_name = name, src_url = url, src_size = len\<rparr> p
      (pipeline_dl_options (rn_config rn) n) d = Some (d', calls, None)"
    and "size_fits rn len"
  shows "\<exists>bs. served_media rn name url len n bs \<and> d' p = Some bs"
proof -
  have k: "known_size (rn_lib rn) (rn_file rn name) \<lparr>src_name = name, src_url = url, src_size = len\<rparr>
      (normalized_options (pipeline_dl_options (rn_config rn) n)) = Inr len"
    using assms(2) by (simp add: known_size_def size_fits_def)
  have b: "len + do_chunk_size (normalized_options (pipeline_dl_options (rn_config rn) n)) \<le> max_i64"
    using assms(2) by (simp add: size_fits_def chunk_size_same [of _ n 0])
  from range_download_served [OF assms(1) k b] show ?thesis
    by (auto simp: served_media_def)
qed

text \<open>Targets that do not get in each other's way.\<close>

definition separate :: "paths \<Rightarrow> bool" where
  "separate ps \<longleftrightarrow> ap_video ps \<noteq> ap_audio ps \<and> ap_video ps \<noteq> part_name (ap_audio ps)
     \<and> ap_video ps \<noteq> ap_output ps \<and> ap_audio ps \<noteq> ap_output ps"

definition media_there :: "paths \<Rightarrow> byte list \<Rightarrow> byte list \<Rightarrow> world \<Rightarrow> bool" where
  "media_there ps vb ab w \<longleftrightarrow> w_disk w (ap_video ps) = Some vb \<and> w_disk w (ap_audio ps) = Some ab"

definition media_served :: "'u runner \<Rightarrow> selection \<Rightarrow> byte list \<Rightarrow> byte list \<Rightarrow> bool" where
  "media_served rn sel vb ab \<longleftrightarrow>
     served_media rn ''video'' (v_url (sel_video sel)) (v_content_length (sel_video sel)) (push_bit 20 16) vb
     \<and> served_media rn ''audio'' (a_url (sel_audio sel)) (a_content_length (sel_audio sel)) (push_bit 20 16) ab"

lemma download_media_served:
  assumes "others_pass rn i files key" and "targets_of ps \<subseteq> files" and "tidy_runner rn" and "separate ps"
    and "size_fits rn (v_content_length (sel_video sel))" and "size_fits rn (a_content_length (sel_audio sel))"
    and "download_media rn i sel ps w = Some (w', Inr ms)"
  shows "\<exists>vb ab. media_served rn sel vb ab \<and> media_there ps vb ab w'"
proof -
  have f: "ap_video ps \<in> files" "ap_audio ps \<in> files" using assms(2) by (auto simp: targets_of_def)
  obtain d1 vcalls d2 acalls cs where
    v: "download_file (rn_lib rn) (rn_file rn ''video'') (rn_fuel rn)
          \<lparr>src_name = ''video'', src_url = v_url (sel_video sel), src_size = v_content_length (sel_video sel)\<rparr>
          (ap_video ps) (pipeline_dl_options (rn_config rn) (push_bit 20 16)) (w_disk (pass_time rn w)) = Some (d1, vcalls, None)"
    and a: "download_file (rn_lib rn) (rn_file rn ''audio'') (rn_fuel rn)
          \<lparr>src_name = ''audio'', src_url = a_url (sel_audio sel), src_size = a_content_length (sel_audio sel)\<rparr>
          (ap_audio ps) (pipeline_dl_options (rn_config rn) (push_bit 20 16)) d1 = Some (d2, acalls, None)"
    and w': "w' = show_calls rn i cs new_combined (add64 (v_content_length (sel_video sel)) (a_content_length (sel_audio sel)))
          ((pass_time rn w)\<lparr>w_disk := d2\<rparr>)"
    using assms(7)
    by (auto simp: download_media_def Let_def split: option.splits prod.splits if_splits)
       (metis (no_types, lifting) not_None_eq option.simps(4,5) run_parallel.simps)+
  from download_file_served [OF v assms(5)] obtain vb where
    vb: "served_media rn ''video'' (v_url (sel_video sel)) (v_content_length (sel_video sel)) (push_bit 20 16) vb"
      "d1 (ap_video ps) = Some vb" by blast
  from download_file_served [OF a assms(6)] obtain ab where
    ab: "served_media rn ''audio'' (a_url (sel_audio sel)) (a_content_length (sel_audio sel)) (push_bit 20 16) ab"
      "d2 (ap_audio ps) = Some ab" by blast
  have "d2 (ap_video ps) = d1 (ap_video ps)"
    using range_download_frame [OF a] assms(3,4) by (simp add: tidy_runner_def separate_def)
  with vb ab f show ?thesis
    by (intro exI [of _ vb] exI [of _ ab]) (simp add: media_served_def media_there_def w' show_calls_disk [OF assms(1)])
qed

section \<open>The mux\<close>

text \<open>The file is what libavformat writes for a header, a merge of the two streams, and a trailer, when it
  reads the media from a disk that holds them.\<close>

definition muxed :: "'u runner \<Rightarrow> paths \<Rightarrow> byte list \<Rightarrow> byte list \<Rightarrow> byte list \<Rightarrow> bool" where
  "muxed rn ps vb ab out \<longleftrightarrow>
     (\<exists>av d video audio events. av \<in> range (rn_av rn) \<and> d (ap_video ps) = Some vb \<and> d (ap_audio ps) = Some ab
        \<and> open_input av d (ap_video ps) [] = Inr video \<and> open_input av d (ap_audio ps) [] = Inr audio
        \<and> written 0 events = packets_of (av_best_video av video) video
        \<and> written 1 events = packets_of (av_best_audio av audio) audio
        \<and> out = av_contents av (Header # events @ [Trailer]))"

definition faithful_av :: "'u runner \<Rightarrow> string \<Rightarrow> bool" where
  "faithful_av rn output_path \<longleftrightarrow> (\<forall>k. codes_negative (rn_av rn k) \<and> \<not> av_no_file (rn_av rn k) output_path)"

lemma merge_media_muxes:
  assumes "others_pass rn i files key" and "targets_of ps \<subseteq> files" and "separate ps"
    and "cf_muxer (rn_config rn) = ''avformat''" and "faithful_av rn (ap_output ps)"
  shows "triple (media_there ps vb ab) (merge_media rn (ap_video ps) (ap_audio ps) (ap_output ps))
    (\<lambda>r w. media_there ps vb ab w
        \<and> (r = Inr () \<longrightarrow> (\<exists>out. muxed rn ps vb ab out \<and> w_disk w (ap_output ps) = Some out)))"
proof (rule tripleI)
  fix w w' r
  assume w: "media_there ps vb ab w"
    and m: "merge_media rn (ap_video ps) (ap_audio ps) (ap_output ps) w = Some (w', r)"
  let ?av = "rn_av rn (w_tick w)" and ?w1 = "pass_time rn w"
  have w1: "media_there ps vb ab ?w1"
    using w assms(2) by (simp add: media_there_def files_pass [OF assms(1)] targets_of_def)
  obtain d e where x: "remux_avformat_with_headers ?av (w_ctx w) (w_ctx ?w1) (ap_video ps) [] (ap_audio ps) [] (ap_output ps) (w_disk ?w1) = (d, e)"
    by fastforce
  with m assms(4) have w': "w' = ?w1\<lparr>w_disk := d\<rparr>" and r: "r = (case e of None \<Rightarrow> Inr () | Some e \<Rightarrow> Inl e)"
    by (auto simp: merge_media_def remux_avformat_def Let_def)
  have "job_write rn ps (w_disk ?w1) d" by (rule jw_remux [OF x])
  have keep: "d q = w_disk ?w1 q" if "q \<noteq> ap_output ps" for q
    using x remux_frame [OF that, of ?av "ap_video ps" "[]" "ap_audio ps" "[]" "w_disk ?w1"]
    by (auto simp: remux_avformat_with_headers_def split: option.splits prod.splits)
  have there: "media_there ps vb ab w'"
    using w1 assms(3) keep by (simp add: w' media_there_def separate_def)
  have "\<exists>out. muxed rn ps vb ab out \<and> w_disk w' (ap_output ps) = Some out" if "r = Inr ()"
  proof -
    from that r have "e = None" by (cases e) simp_all
    with x have y: "remux_avformat_with_headers ?av (w_ctx w) (w_ctx ?w1) (ap_video ps) [] (ap_audio ps) [] (ap_output ps) (w_disk ?w1) = (d, None)"
      by simp
    have "codes_negative ?av" "\<not> av_no_file ?av (ap_output ps)" using assms(5) by (simp_all add: faithful_av_def)
    from remux_written [OF y this] obtain video audio events where
      o: "open_input ?av (w_disk ?w1) (ap_video ps) [] = Inr video" "open_input ?av (w_disk ?w1) (ap_audio ps) [] = Inr audio"
      and d: "d = (w_disk ?w1)(ap_output ps \<mapsto> av_contents ?av (Header # events @ [Trailer]))"
      and s: "written 0 events = packets_of (av_best_video ?av video) video"
        "written 1 events = packets_of (av_best_audio ?av audio) audio" by blast
    have "muxed rn ps vb ab (av_contents ?av (Header # events @ [Trailer]))"
      unfolding muxed_def
      by (rule exI [of _ ?av], rule exI [of _ "w_disk ?w1"], rule exI [of _ video], rule exI [of _ audio],
          rule exI [of _ events]) (use o s w1 in \<open>simp add: media_there_def\<close>)
    with d show ?thesis by (simp add: w')
  qed
  with there show "media_there ps vb ab w'
      \<and> (r = Inr () \<longrightarrow> (\<exists>out. muxed rn ps vb ab out \<and> w_disk w' (ap_output ps) = Some out))" by simp
qed

lemma media_stable:
  assumes "others_pass rn i files key" and "targets_of ps \<subseteq> files" shows "stable rn (media_there ps vb ab)"
  using assms by (simp add: stable_def media_there_def files_pass [OF assms(1)] targets_of_def)

lemma mux_retried_muxes:
  assumes "others_pass rn i files key" and "targets_of ps \<subseteq> files" and "separate ps"
    and "cf_muxer (rn_config rn) = ''avformat''" and "faithful_av rn (ap_output ps)"
  shows "triple (media_there ps vb ab)
    (mux_retried rn (ap_output ps) (merge_media rn (ap_video ps) (ap_audio ps) (ap_output ps)))
    (\<lambda>r w. case r of Inl e \<Rightarrow> media_there ps vb ab w
        | Inr _ \<Rightarrow> \<exists>out. muxed rn ps vb ab out \<and> w_disk w (ap_output ps) = Some out)"
  unfolding mux_retried_def
proof (rule triple_retry [OF media_stable [OF assms(1,2)]])
  have "media_there ps vb ab (disk_step rn (\<lambda>_. remove_path (rn_faults rn) (ap_output ps)) w)" if "media_there ps vb ab w" for w
    using that assms(2,3)
    by (simp add: disk_step_passed media_there_def remove_path_def os_remove_other separate_def
        files_pass [OF assms(1)] targets_of_def)
  from keeps_prefix_triple [where P' = "media_there ps vb ab", OF merge_media_muxes [OF assms] this]
  show "triple (media_there ps vb ab)
      (\<lambda>w. merge_media rn (ap_video ps) (ap_audio ps) (ap_output ps)
              (disk_step rn (\<lambda>_. remove_path (rn_faults rn) (ap_output ps)) w))
      (\<lambda>r w. case r of Inl e \<Rightarrow> media_there ps vb ab w
        | Inr _ \<Rightarrow> \<exists>out. muxed rn ps vb ab out \<and> w_disk w (ap_output ps) = Some out)"
    by (rule triple_weaken) (auto split: sum.split)
qed

section \<open>The delivery\<close>

definition kept_local :: "paths \<Rightarrow> saved" where
  "kept_local ps = \<lparr>sv_backend = ''local'', sv_location = ap_output ps, sv_expires = None\<rparr>"

lemma finished_delivered:
  "working i w \<Longrightarrow> delivered i sv (w\<lparr>w_store := finish_done fmt now t i (sv_location sv) (sv_backend sv)
     (sv_expires sv) dl mx (w_store w)\<rparr>)"
  by (auto simp: delivered_def working_def finish_done_jobs)

lemma deliver_local:
  assumes "others_pass rn i files key" and "ap_output ps \<in> files" and "rn_files rn = Local_store"
  shows "triple (\<lambda>w. working i w \<and> w_disk w (ap_output ps) = Some out) (deliver rn i ps dl mx)
    (\<lambda>r w. case r of Inl e \<Rightarrow> True
        | Inr sv \<Rightarrow> sv = kept_local ps \<and> delivered i sv w \<and> w_disk w (ap_output ps) = Some out)"
  unfolding deliver_def
proof (rule triple_bind [where Q = "\<lambda>sv w. sv = kept_local ps \<and> working i w \<and> w_disk w (ap_output ps) = Some out"])
  let ?P = "\<lambda>w. working i w \<and> w_disk w (ap_output ps) = Some out"
  have "stable rn ?P" using working_passes [OF assms(1)] by (simp add: stable_def files_pass [OF assms(1,2)])
  moreover have "triple ?P (save_artifact rn ps) (\<lambda>r w. case r of Inl e \<Rightarrow> ?P w | Inr sv \<Rightarrow> sv = kept_local ps \<and> ?P w)"
    using assms(3) by (auto simp: triple_def save_artifact_def store_save_def local_save_def kept_local_def working_def)
  ultimately have "triple ?P (retry rn 3 ''artifact upload'' (save_artifact rn ps))
      (\<lambda>r w. case r of Inl e \<Rightarrow> ?P w | Inr sv \<Rightarrow> sv = kept_local ps \<and> ?P w)"
    by (rule triple_retry)
  then show "triple ?P (retry rn 3 ''artifact upload'' (save_artifact rn ps))
      (\<lambda>r w. case r of Inl e \<Rightarrow> (case Inl e of Inl e \<Rightarrow> True
          | Inr sv \<Rightarrow> sv = kept_local ps \<and> delivered i sv w \<and> w_disk w (ap_output ps) = Some out)
        | Inr sv \<Rightarrow> sv = kept_local ps \<and> ?P w)"
    by (rule triple_weaken) (auto split: sum.splits)
next
  fix sv
  show "triple (\<lambda>w. sv = kept_local ps \<and> working i w \<and> w_disk w (ap_output ps) = Some out)
      (\<lambda>w. Some (store_step rn (\<lambda>now t. finish_done (rn_fmt rn) now t i (sv_location sv) (sv_backend sv)
             (sv_expires sv) dl mx) w, Inr sv))
      (\<lambda>r w. case r of Inl e \<Rightarrow> True
        | Inr sv \<Rightarrow> sv = kept_local ps \<and> delivered i sv w \<and> w_disk w (ap_output ps) = Some out)"
    using finished_delivered [OF working_passes [OF assms(1)], where sv = sv]
    by (auto simp: triple_def store_step_disk [OF assms(1,2)]) (simp add: store_step_def Let_def)
qed

text \<open>The whole way, from the start of the download.\<close>

lemma range_body_delivers:
  assumes "others_pass rn i files key" and "targets_of ps \<subseteq> files" and "tidy_runner rn" and "separate ps"
    and "size_fits rn (v_content_length (sel_video sel))" and "size_fits rn (a_content_length (sel_audio sel))"
    and "cf_muxer (rn_config rn) = ''avformat''" and "faithful_av rn (ap_output ps)"
  shows "triple (working i) (range_body rn i sel ps)
    (\<lambda>r w. case r of Inl e \<Rightarrow> True
        | Inr _ \<Rightarrow> working i w \<and> (\<exists>vb ab out. media_served rn sel vb ab \<and> muxed rn ps vb ab out \<and> w_disk w (ap_output ps) = Some out))"
proof (rule tripleI)
  fix w w' r
  assume w: "working i w" and b: "range_body rn i sel ps w = Some (w', r)"
  have "keeps (working i) (range_body rn i sel ps)"
    by (rule keeps_under [OF working_run.range_body_keeps assms(1)])
  from tripleD [OF this w b] have w': "working i w'" .
  show "case r of Inl e \<Rightarrow> True
      | Inr _ \<Rightarrow> working i w' \<and> (\<exists>vb ab out. media_served rn sel vb ab \<and> muxed rn ps vb ab out \<and> w_disk w' (ap_output ps) = Some out)"
  proof (cases r)
    case (Inr y)
    from b Inr obtain w1 ms where d: "download_media rn i sel ps w = Some (w1, Inr ms)"
      by (auto simp: range_body_def bind_act_def split: option.splits sum.splits)
    with b obtain pg u where m: "mux_retried rn (ap_output ps) (merge_media rn (ap_video ps) (ap_audio ps) (ap_output ps))
        (show_progress rn i pg (pass_time rn w1)) = Some (w', Inr u)"
      by (auto simp: range_body_def bind_act_def Let_def Inr split: option.splits sum.splits)
    from download_media_served [OF assms(1-6) d] obtain vb ab where
      s: "media_served rn sel vb ab" and t: "media_there ps vb ab w1" by blast
    have "media_there ps vb ab (show_progress rn i pg (pass_time rn w1))"
      using t assms(2) by (simp add: media_there_def show_progress_disk [OF assms(1)] files_pass [OF assms(1)] targets_of_def)
    from tripleD [OF mux_retried_muxes [OF assms(1,2,4,7,8)] this m] s w' show ?thesis by (auto simp: Inr)
  qed simp
qed

lemma range_artifact:
  assumes "others_pass rn i files key" and "targets_of ps \<subseteq> files" and "tidy_runner rn" and "separate ps"
    and "size_fits rn (v_content_length (sel_video sel))" and "size_fits rn (a_content_length (sel_audio sel))"
    and "cf_muxer (rn_config rn) = ''avformat''" and "faithful_av rn (ap_output ps)" and "rn_files rn = Local_store"
  shows "triple (working i) (artifact_job rn i ps (range_body rn i sel ps))
    (\<lambda>r w. case r of Inl e \<Rightarrow> True
        | Inr _ \<Rightarrow> delivered i (kept_local ps) w
            \<and> (\<exists>vb ab out. media_served rn sel vb ab \<and> muxed rn ps vb ab out \<and> w_disk w (ap_output ps) = Some out))"
    (is "triple _ _ ?Q")
proof (rule artifact_job_rule)
  let ?out = "\<lambda>w out. \<exists>vb ab. media_served rn sel vb ab \<and> muxed rn ps vb ab out \<and> w_disk w (ap_output ps) = Some out"
  let ?D = "\<lambda>sv w. sv = kept_local ps \<and> delivered i sv w \<and> (\<exists>out. ?out w out)"
  have f: "ap_output ps \<in> files" using assms(2) by (simp add: targets_of_def)
  have deliver: "triple (\<lambda>w. working i w \<and> (\<exists>out. ?out w out)) (deliver rn i ps dl mx)
      (\<lambda>r w. case r of Inl e \<Rightarrow> True | Inr sv \<Rightarrow> ?D sv w)" for dl mx
  proof (rule tripleI)
    fix w w' r
    assume w: "working i w \<and> (\<exists>out. ?out w out)" and r: "deliver rn i ps dl mx w = Some (w', r)"
    then obtain vb ab out where o: "media_served rn sel vb ab" "muxed rn ps vb ab out" "w_disk w (ap_output ps) = Some out"
      by blast
    with w have "working i w \<and> w_disk w (ap_output ps) = Some out" by simp
    from tripleD [OF deliver_local [OF assms(1) f assms(9)] this r] o
    show "case r of Inl e \<Rightarrow> True | Inr sv \<Rightarrow> ?D sv w'" by (cases r) auto
  qed
  have made: "triple (working i) (bind_act (range_body rn i sel ps) (\<lambda>(dl_ms, mx_ms). deliver rn i ps dl_ms mx_ms))
      (\<lambda>r w. case r of Inl e \<Rightarrow> True | Inr sv \<Rightarrow> ?D sv w)"
    by (rule triple_bind [where Q = "\<lambda>_ w. working i w \<and> (\<exists>out. ?out w out)"],
        rule triple_weaken [OF range_body_delivers [OF assms(1-8)]], assumption, force split: sum.splits,
        simp only: split_beta deliver)
  show "triple (working i) (make_output rn i ps (range_body rn i sel ps))
      (\<lambda>r w. case r of Inl e \<Rightarrow> True | Inr sv \<Rightarrow> ?D sv w)"
  proof (rule tripleI)
    fix w w' r
    assume w: "working i w" and m: "make_output rn i ps (range_body rn i sel ps) w = Some (w', r)"
    from m consider e where "r = Inl e"
      | "bind_act (range_body rn i sel ps) (\<lambda>(dl_ms, mx_ms). deliver rn i ps dl_ms mx_ms) (pass_time rn w) = Some (w', r)"
      by (auto simp: make_output_def Let_def split: option.splits)
    then show "case r of Inl e \<Rightarrow> True | Inr sv \<Rightarrow> ?D sv w'"
      by cases (use tripleD [OF made working_passes [OF assms(1) w]] in auto)
  qed
  fix sv w
  assume d: "?D sv w"
  let ?w' = "disk_step rn (\<lambda>_. cleanup_work (rn_faults rn) ps (sv_backend sv = ''local'')) w"
  have "w_disk ?w' (ap_output ps) = w_disk w (ap_output ps)"
    using d assms(4) f
    by (simp add: disk_step_passed cleanup_work_def remove_path_def Let_def kept_local_def os_remove_other
        separate_def files_pass [OF assms(1)] not_sym)
  moreover have "delivered i (kept_local ps) ?w'"
  proof -
    have "delivered i (kept_local ps) w" using d by blast
    from delivered_passes [OF assms(1) this] show ?thesis by (simp add: disk_step_passed delivered_def)
  qed
  ultimately show "?Q (Inr ()) ?w'" using d by auto
qed simp


text \<open>The paths of a job are of this kind.\<close>

lemma job_paths_separate:
  assumes "cf_data_dir (rn_config rn) \<noteq> []" and "plain i" and "CHR ''/'' \<notin> set container"
  shows "separate (job_paths rn i title container)"
  using job_files_distinct [OF assms, of title] assms by (auto simp: separate_def job_paths_def job_files_def part_name_def)

text \<open>C3: When a video job that takes the range way succeeds on the local store, its record says done and
  names the output; and the output is, through any interference of other goroutines and any number
  of failed tries, what libavformat writes for a merge of the chosen streams of two files that are,
  chunk by chunk, the data the media servers gave for exactly the ranges asked for.\<close>

theorem range_job_delivers:
  assumes "others_pass rn i files key" and "targets_of ps \<subseteq> files" and "tidy_runner rn"
    and "ps = job_paths rn i title container" and "cf_data_dir (rn_config rn) \<noteq> []" and "plain i"
    and "CHR ''/'' \<notin> set container"
    and "size_fits rn (v_content_length (sel_video sel))" and "size_fits rn (a_content_length (sel_audio sel))"
    and "cf_muxer (rn_config rn) = ''avformat''" and "faithful_av rn (ap_output ps)" and "rn_files rn = Local_store"
    and "working i w" and "artifact_job rn i ps (range_body rn i sel ps) w = Some (w', Inr ())"
  shows "(case jobs (w_store w') i of None \<Rightarrow> True | Some r \<Rightarrow>
        job_status r = Done \<and> artifact r = ap_output ps \<and> storage_backend r = ''local'')
    \<and> (\<exists>vb ab out. media_served rn sel vb ab \<and> muxed rn ps vb ab out \<and> w_disk w' (ap_output ps) = Some out)"
proof -
  have "separate ps" using job_paths_separate [OF assms(5-7)] assms(4) by simp
  from tripleD [OF range_artifact [OF assms(1-3) this assms(8-12)] assms(13,14)] show ?thesis
    by (auto simp: delivered_def kept_local_def)
qed

definition small_selection :: selection where
  "small_selection = \<lparr>sel_title = ''t'', sel_video = sample_video_item, sel_audio = sample_audio_item, sel_container = ''mp4''\<rparr>"

lemma sample_artifact:
  "case artifact_job sample_runner ''a'' (job_paths sample_runner ''a'' ''t'' ''mp4'')
      (range_body sample_runner ''a'' small_selection (job_paths sample_runner ''a'' ''t'' ''mp4''))
      (sample_world\<lparr>w_store := sample_store Running\<rparr>) of None \<Rightarrow> False
   | Some (w, Inl e) \<Rightarrow> False
   | Some (w, Inr u) \<Rightarrow> w_disk w ''/d/artifacts/a/t.mp4'' = Some [7, 8, 7, 8]"
  by code_simp

lemma range_job_delivers_witness:
  "\<exists>w' vb ab. artifact_job sample_runner ''a'' (job_paths sample_runner ''a'' ''t'' ''mp4'')
        (range_body sample_runner ''a'' small_selection (job_paths sample_runner ''a'' ''t'' ''mp4''))
        (sample_world\<lparr>w_store := sample_store Running\<rparr>) = Some (w', Inr ())
     \<and> w_disk w' ''/d/artifacts/a/t.mp4'' = Some [7, 8, 7, 8] \<and> media_served sample_runner small_selection vb ab"
proof -
  let ?ps = "job_paths sample_runner ''a'' ''t'' ''mp4''" and ?w = "sample_world\<lparr>w_store := sample_store Running\<rparr>"
  let ?run = "artifact_job sample_runner ''a'' ?ps (range_body sample_runner ''a'' small_selection ?ps) ?w"
  obtain w' r where wr: "?run = Some (w', r)" using sample_artifact by (cases ?run) auto
  have run: "?run = Some (w', Inr ())" and out: "w_disk w' ''/d/artifacts/a/t.mp4'' = Some [7, 8, 7, 8]"
    using sample_artifact unfolding wr by (cases r, simp_all)+
  have o: "others_pass sample_runner ''a'' UNIV key" for key by (simp add: others_pass_def sample_runner_def)
  have t: "tidy_runner sample_runner"
    by (simp add: tidy_runner_def sample_runner_def small_file_env_def sample_attempt_def no_faults_def writes_last_def)
  have c: "cf_data_dir (rn_config sample_runner) \<noteq> []" "cf_muxer (rn_config sample_runner) = ''avformat''"
    by (simp_all add: sample_runner_def sample_config_def)
  have p: "plain ''a''" "CHR ''/'' \<notin> set ''mp4''" by (simp_all add: plain_def)
  have s: "size_fits sample_runner (v_content_length (sel_video small_selection))"
    "size_fits sample_runner (a_content_length (sel_audio small_selection))"
    by (simp_all add: size_fits_def small_selection_def sample_video_item_def sample_audio_item_def sample_runner_def
        sample_config_def normalized_options_def pipeline_dl_options_def Let_def max_i64_def)
  have av: "faithful_av sample_runner (ap_output ?ps)"
    by (simp add: faithful_av_def sample_runner_def copying_av_def codes_negative_def sample_av_def ends_negative_def
        averror_eof_def)
  have l: "rn_files sample_runner = Local_store" by (simp add: sample_runner_def)
  have w: "working ''a'' ?w" by (simp add: working_def)
  from range_job_delivers [OF o subset_UNIV t refl c(1) p s c(2) av l w run] run out show ?thesis by blast
qed

end
