(* ===== verification/Job_Json.thy ===== *)
theory Job_Json
  imports Job_Model
begin

text \<open>
  What \<open>encoding/json\<close> makes of the job package's types, by the tags of \<open>models.go\<close>: the values of
  \<open>Options\<close>, \<open>Progress\<close> and \<open>ResolvedOutput\<close> the database keeps, and the error for a whole
  \<open>Record\<close>, whose last field is a function. A JSON document is a \<open>json\<close> value; its spelling (the
  white space, the escapes, the order of the keys) is not modelled. A nil slice and an empty one are
  the same list here, and become an empty array.
\<close>

section \<open>Strings\<close>

text \<open>\<open>Marshal\<close> replaces each byte that is not part of a UTF-8 sequence by U+FFFD. The ranges of the
  bytes of a sequence are those of \<open>unicode/utf8\<close>.\<close>

fun in_ranges :: "(nat \<times> nat) list \<Rightarrow> string \<Rightarrow> bool" where
  "in_ranges [] s = True"
| "in_ranges (r # rs) [] = False"
| "in_ranges ((a, b) # rs) (c # s) = (a \<le> of_char c \<and> of_char c \<le> b \<and> in_ranges rs s)"

definition utf8_forms :: "(nat \<times> nat) list list" where
  "utf8_forms =
     (let cont = (0x80, 0xBF)
      in [[(0, 0x7F)], [(0xC2, 0xDF), cont], [(0xE0, 0xE0), (0xA0, 0xBF), cont],
          [(0xE1, 0xEC), cont, cont], [(0xED, 0xED), (0x80, 0x9F), cont], [(0xEE, 0xEF), cont, cont],
          [(0xF0, 0xF0), (0x90, 0xBF), cont, cont], [(0xF1, 0xF3), cont, cont, cont],
          [(0xF4, 0xF4), (0x80, 0x8F), cont, cont]])"

definition utf8_width :: "string \<Rightarrow> nat option" where
  "utf8_width s = map_option length (find (\<lambda>form. in_ranges form s) utf8_forms)"

fun coerce_utf8 :: "string \<Rightarrow> string" where
  "coerce_utf8 [] = []"
| "coerce_utf8 (c # s) =
     (case utf8_width (c # s) of
        None \<Rightarrow> [CHR 0xEF, CHR 0xBF, CHR 0xBD] @ coerce_utf8 s
      | Some n \<Rightarrow> c # take (n - 1) s @ coerce_utf8 (drop (n - 1) s))"

definition valid_utf8 :: "string \<Rightarrow> bool" where
  "valid_utf8 s \<longleftrightarrow> coerce_utf8 s = s"

lemma utf8_width_ascii: "(of_char c :: nat) \<le> 0x7F \<Longrightarrow> utf8_width (c # s) = Some 1"
  by (simp add: utf8_width_def utf8_forms_def Let_def)

lemma valid_utf8_ascii: "\<forall>c\<in>set s. (of_char c :: nat) \<le> 0x7F \<Longrightarrow> valid_utf8 s"
  by (induction s) (simp_all add: valid_utf8_def utf8_width_ascii)

section \<open>Encoding\<close>

fun coerce_json :: "json \<Rightarrow> json" where
  "coerce_json (JStr s) = JStr (coerce_utf8 s)"
| "coerce_json (JArr js) = JArr (map coerce_json js)"
| "coerce_json (JObj es) = JObj (map (\<lambda>(k, j). (coerce_utf8 k, coerce_json j)) es)"
| "coerce_json j = j"

definition put_string :: "string \<Rightarrow> json" where
  "put_string s = JStr (coerce_utf8 s)"

definition put_int :: "int \<Rightarrow> json" where
  "put_int i = JNum (itoa i)"

definition put_ptr :: "('a \<Rightarrow> json) \<Rightarrow> 'a option \<Rightarrow> json" where
  "put_ptr enc p = (case p of None \<Rightarrow> JNull | Some v \<Rightarrow> enc v)"

text \<open>\<open>omitempty\<close> leaves out a zero value.\<close>

definition omit_empty :: "bool \<Rightarrow> string \<Rightarrow> json \<Rightarrow> (string \<times> json) list" where
  "omit_empty zero k j = (if zero then [] else [(k, j)])"

definition options_entries :: "options \<Rightarrow> (string \<times> json) list" where
  "options_entries opts =
     [(''mode'', put_string (opt_mode opts)),
      (''quality'', put_string (opt_quality opts)),
      (''format'', put_string (opt_format opts)),
      (''container'', put_string (opt_container opts)),
      (''audioPassthrough'', JBool (opt_audio_passthrough opts)),
      (''videoItag'', put_string (opt_video_itag opts)),
      (''audioItag'', put_string (opt_audio_itag opts)),
      (''height'', put_ptr put_int (opt_height opts)),
      (''fps'', put_ptr put_int (opt_fps opts)),
      (''videoCodec'', put_string (opt_video_codec opts)),
      (''audioCodec'', put_string (opt_audio_codec opts)),
      (''bitrate'', put_ptr put_int (opt_bitrate opts)),
      (''allowQualityFallback'', JBool (opt_allow_quality_fallback opts)),
      (''sponsorBlock'', JBool (opt_sponsor_block opts)),
      (''sponsorBlockCategories'', JArr (map put_string (opt_sponsor_block_categories opts))),
      (''thumbnailOnly'', JBool (opt_thumbnail_only opts)),
      (''subtitles'', coerce_json (opt_subtitles opts))]"

definition options_json :: "options \<Rightarrow> json" where
  "options_json opts = JObj (options_entries opts)"

definition progress_json :: "progress \<Rightarrow> json" where
  "progress_json p = JObj
     [(''Stage'', put_string (pg_stage p)), (''DownloadedBytes'', put_int (pg_downloaded p)),
      (''TotalBytes'', put_int (pg_total p)), (''SpeedBytesPerSecond'', put_int (pg_speed p))]"

definition resolved_json :: "resolved_output \<Rightarrow> json" where
  "resolved_json r = JObj
     (omit_empty (res_video_itag r = []) ''videoItag'' (put_string (res_video_itag r))
      @ omit_empty (res_audio_itag r = []) ''audioItag'' (put_string (res_audio_itag r))
      @ omit_empty (res_height r = 0) ''height'' (put_int (res_height r))
      @ omit_empty (res_fps r = 0) ''fps'' (put_int (res_fps r))
      @ omit_empty (res_video_codec r = []) ''videoCodec'' (put_string (res_video_codec r))
      @ omit_empty (res_audio_codec r = []) ''audioCodec'' (put_string (res_audio_codec r))
      @ omit_empty (res_container r = []) ''container'' (put_string (res_container r))
      @ omit_empty (res_file_name r = []) ''fileName'' (put_string (res_file_name r)))"

text \<open>The field \<open>Cancel func()\<close> has no tag: encoding any record, even one without the function,
  meets a type JSON cannot represent.\<close>

definition record_json :: "job_record \<Rightarrow> json result" where
  "record_json r = Inl (Err ''json: unsupported type: func()'')"

section \<open>Decoding\<close>

text \<open>\<open>Unmarshal\<close> takes the entries of an object in their order; a key belongs to the field whose name
  it is, up to case (of ASCII letters, here), and a later entry overwrites an earlier one. A missing
  key, and a null for anything but a pointer, an interface or a slice, leave the field as it is. A
  value of the wrong type does not stop it, but makes it return an error at the end, and the callers
  drop the target then; the wording of the error is not modelled.\<close>

definition rbind :: "'a result \<Rightarrow> ('a \<Rightarrow> 'b result) \<Rightarrow> 'b result" where
  "rbind x f = (case x of Inl e \<Rightarrow> Inl e | Inr v \<Rightarrow> f v)"

lemma rbind_simps [simp]: "rbind (Inl e) f = Inl e" "rbind (Inr v) f = f v"
  by (simp_all add: rbind_def)

definition bad_type :: error where
  "bad_type = Err ''json: cannot unmarshal value''"

fun as_string :: "string \<Rightarrow> json \<Rightarrow> string result" where
  "as_string old JNull = Inr old"
| "as_string old (JStr s) = Inr s"
| "as_string old j = Inl bad_type"

fun as_bool :: "bool \<Rightarrow> json \<Rightarrow> bool result" where
  "as_bool old JNull = Inr old"
| "as_bool old (JBool b) = Inr b"
| "as_bool old j = Inl bad_type"

fun as_int :: "int \<Rightarrow> json \<Rightarrow> int result" where
  "as_int old JNull = Inr old"
| "as_int old (JNum s) = (case parse_int s of None \<Rightarrow> Inl bad_type | Some i \<Rightarrow> Inr i)"
| "as_int old j = Inl bad_type"

fun as_int_ptr :: "int option \<Rightarrow> json \<Rightarrow> int option result" where
  "as_int_ptr old JNull = Inr None"
| "as_int_ptr old j = rbind (as_int 0 j) (\<lambda>i. Inr (Some i))"

fun all_strings :: "json list \<Rightarrow> string list result" where
  "all_strings [] = Inr []"
| "all_strings (j # js) =
     rbind (as_string [] j) (\<lambda>s. rbind (all_strings js) (\<lambda>ss. Inr (s # ss)))"

fun as_strings :: "string list \<Rightarrow> json \<Rightarrow> string list result" where
  "as_strings old JNull = Inr []"
| "as_strings old (JArr js) = all_strings js"
| "as_strings old j = Inl bad_type"

definition same_key :: "string \<Rightarrow> string \<Rightarrow> bool" where
  "same_key k k' \<longleftrightarrow> to_lower k = to_lower k'"

definition field :: "(string \<times> json) list \<Rightarrow> string \<Rightarrow> ('a \<Rightarrow> json \<Rightarrow> 'a result) \<Rightarrow> 'a \<Rightarrow> 'a result" where
  "field es k dec zero =
     foldl (\<lambda>acc (k', j). if same_key k k' then rbind acc (\<lambda>old. dec old j) else acc) (Inr zero) es"

definition object_of :: "json \<Rightarrow> (string \<times> json) list result" where
  "object_of j = (case j of JObj es \<Rightarrow> Inr es | JNull \<Rightarrow> Inr [] | _ \<Rightarrow> Inl bad_type)"

text \<open>All three targets start from their zero value.\<close>

definition options_of_json :: "json \<Rightarrow> options result" where
  "options_of_json j = rbind (object_of j) (\<lambda>es.
     rbind (field es ''mode'' as_string []) (\<lambda>mode.
     rbind (field es ''quality'' as_string []) (\<lambda>quality.
     rbind (field es ''format'' as_string []) (\<lambda>fmt.
     rbind (field es ''container'' as_string []) (\<lambda>container.
     rbind (field es ''audioPassthrough'' as_bool False) (\<lambda>passthrough.
     rbind (field es ''videoItag'' as_string []) (\<lambda>video_itag.
     rbind (field es ''audioItag'' as_string []) (\<lambda>audio_itag.
     rbind (field es ''height'' as_int_ptr None) (\<lambda>height.
     rbind (field es ''fps'' as_int_ptr None) (\<lambda>fps.
     rbind (field es ''videoCodec'' as_string []) (\<lambda>video_codec.
     rbind (field es ''audioCodec'' as_string []) (\<lambda>audio_codec.
     rbind (field es ''bitrate'' as_int_ptr None) (\<lambda>bitrate.
     rbind (field es ''allowQualityFallback'' as_bool False) (\<lambda>fallback.
     rbind (field es ''sponsorBlock'' as_bool False) (\<lambda>sponsor.
     rbind (field es ''sponsorBlockCategories'' as_strings []) (\<lambda>categories.
     rbind (field es ''thumbnailOnly'' as_bool False) (\<lambda>thumbnail.
     rbind (field es ''subtitles'' (\<lambda>_ j. Inr j) JNull) (\<lambda>subtitles.
       Inr \<lparr>opt_mode = mode, opt_quality = quality, opt_format = fmt, opt_container = container,
            opt_audio_passthrough = passthrough, opt_video_itag = video_itag,
            opt_audio_itag = audio_itag, opt_height = height, opt_fps = fps,
            opt_video_codec = video_codec, opt_audio_codec = audio_codec, opt_bitrate = bitrate,
            opt_allow_quality_fallback = fallback, opt_sponsor_block = sponsor,
            opt_sponsor_block_categories = categories, opt_thumbnail_only = thumbnail,
            opt_subtitles = subtitles\<rparr>))))))))))))))))))"

definition progress_of_json :: "json \<Rightarrow> progress result" where
  "progress_of_json j = rbind (object_of j) (\<lambda>es.
     rbind (field es ''Stage'' as_string []) (\<lambda>stage.
     rbind (field es ''DownloadedBytes'' as_int 0) (\<lambda>downloaded.
     rbind (field es ''TotalBytes'' as_int 0) (\<lambda>tot.
     rbind (field es ''SpeedBytesPerSecond'' as_int 0) (\<lambda>speed.
       Inr \<lparr>pg_stage = stage, pg_downloaded = downloaded, pg_total = tot, pg_speed = speed\<rparr>)))))"

definition resolved_of_json :: "json \<Rightarrow> resolved_output result" where
  "resolved_of_json j = rbind (object_of j) (\<lambda>es.
     rbind (field es ''videoItag'' as_string []) (\<lambda>video_itag.
     rbind (field es ''audioItag'' as_string []) (\<lambda>audio_itag.
     rbind (field es ''height'' as_int 0) (\<lambda>height.
     rbind (field es ''fps'' as_int 0) (\<lambda>fps.
     rbind (field es ''videoCodec'' as_string []) (\<lambda>video_codec.
     rbind (field es ''audioCodec'' as_string []) (\<lambda>audio_codec.
     rbind (field es ''container'' as_string []) (\<lambda>container.
     rbind (field es ''fileName'' as_string []) (\<lambda>name.
       Inr \<lparr>res_video_itag = video_itag, res_audio_itag = audio_itag, res_height = height,
            res_fps = fps, res_video_codec = video_codec, res_audio_codec = audio_codec,
            res_container = container, res_file_name = name\<rparr>)))))))))"

section \<open>Round trips\<close>

text \<open>Values \<open>Marshal\<close> does not have to change: valid strings and integers of the machine.\<close>

fun clean_json :: "json \<Rightarrow> bool" where
  "clean_json (JStr s) = valid_utf8 s"
| "clean_json (JArr js) = list_all clean_json js"
| "clean_json (JObj es) = list_all (\<lambda>(k, j). valid_utf8 k \<and> clean_json j) es"
| "clean_json j = True"

definition clean_options :: "options \<Rightarrow> bool" where
  "clean_options opts \<longleftrightarrow>
     list_all valid_utf8
       ([opt_mode opts, opt_quality opts, opt_format opts, opt_container opts, opt_video_itag opts,
         opt_audio_itag opts, opt_video_codec opts, opt_audio_codec opts]
        @ opt_sponsor_block_categories opts)
     \<and> list_all (pred_option is_i64) [opt_height opts, opt_fps opts, opt_bitrate opts]
     \<and> clean_json (opt_subtitles opts)"

definition clean_progress :: "progress \<Rightarrow> bool" where
  "clean_progress p \<longleftrightarrow>
     valid_utf8 (pg_stage p) \<and> list_all is_i64 [pg_downloaded p, pg_total p, pg_speed p]"

definition clean_resolved :: "resolved_output \<Rightarrow> bool" where
  "clean_resolved r \<longleftrightarrow>
     list_all valid_utf8 [res_video_itag r, res_audio_itag r, res_video_codec r, res_audio_codec r,
       res_container r, res_file_name r]
     \<and> is_i64 (res_height r) \<and> is_i64 (res_fps r)"

lemma coerce_clean: "clean_json j \<Longrightarrow> coerce_json j = j"
proof (induction j rule: coerce_json.induct)
  case (3 es)
  then show ?case by (auto simp: valid_utf8_def list_all_iff intro!: map_idI)
qed (auto simp: valid_utf8_def list_all_iff intro!: map_idI)

lemma as_string_put [simp]: "as_string old (put_string s) = Inr (coerce_utf8 s)"
  by (simp add: put_string_def)

lemma as_int_put [simp]: "is_i64 i \<Longrightarrow> as_int old (put_int i) = Inr i"
  by (simp add: put_int_def parse_int_itoa)

lemma as_int_ptr_put [simp]: "pred_option is_i64 p \<Longrightarrow> as_int_ptr old (put_ptr put_int p) = Inr p"
  by (cases p) (simp_all add: put_ptr_def put_int_def parse_int_itoa)

lemma field_Nil: "field [] k dec z = Inr z"
  by (simp add: field_def)

lemma field_err: "foldl (\<lambda>acc (k', j). if same_key k k' then rbind acc (\<lambda>old. dec old j) else acc) (Inl e) es = Inl e"
  by (induction es) auto

lemma field_Cons:
  "field ((k', j) # es) k dec z =
     (if same_key k k' then rbind (dec z j) (field es k dec) else field es k dec z)"
  by (cases "dec z j") (auto simp: field_def field_err)

text \<open>Where no two keys agree up to case, a field is what its own entry, if it is there, says.\<close>

lemma field_absent: "to_lower k \<notin> set (map (to_lower \<circ> fst) es) \<Longrightarrow> field es k dec z = Inr z"
  by (induction es) (auto simp: field_Nil field_Cons same_key_def)

lemma field_unique:
  "distinct (map (to_lower \<circ> fst) es) \<Longrightarrow> (k, j) \<in> set es \<Longrightarrow> field es k dec z = dec z j"
proof (induction es)
  case Nil
  then show ?case by simp
next
  case (Cons e es)
  obtain k' j' where e: "e = (k', j')" by (cases e)
  show ?case
  proof (cases "(k, j) \<in> set es")
    case True
    then have "to_lower k \<in> set (map (to_lower \<circ> fst) es)" by force
    moreover have "to_lower k' \<notin> set (map (to_lower \<circ> fst) es)" using Cons.prems(1) e by simp
    ultimately have "to_lower k' \<noteq> to_lower k" by metis
    then have "\<not> same_key k k'" by (simp add: same_key_def)
    with Cons True e show ?thesis by (simp add: field_Cons)
  next
    case False
    with Cons.prems e have "k' = k" "j' = j" "field es k dec z' = Inr z'" for z'
      by (auto intro!: field_absent)
    with e show ?thesis by (cases "dec z j") (simp_all add: field_Cons same_key_def)
  qed
qed

lemma field_omitted:
  "distinct (map (\<lambda>(e, k, j). to_lower k) xs) \<Longrightarrow> (e, k, j) \<in> set xs \<Longrightarrow>
   field (concat (map (\<lambda>(e, k, j). omit_empty e k j) xs)) k dec z = (if e then Inr z else dec z j)"
proof -
  assume d: "distinct (map (\<lambda>(e, k, j). to_lower k) xs)" and x: "(e, k, j) \<in> set xs"
  let ?es = "concat (map (\<lambda>(e, k, j). omit_empty e k j) xs)"
  have es: "?es = map snd (filter (\<lambda>(e, k, j). \<not> e) xs)"
    by (induction xs) (auto simp: omit_empty_def)
  have eq: "map (to_lower \<circ> fst) ?es = map (\<lambda>(e, k, j). to_lower k) (filter (\<lambda>(e, k, j). \<not> e) xs)"
    unfolding es by (auto simp: case_prod_beta)
  have dist: "distinct (map (to_lower \<circ> fst) ?es)"
    unfolding eq using d by (rule distinct_map_filter)
  show ?thesis
  proof (cases e)
    case False
    with x have "(k, j) \<in> set ?es" unfolding es by force
    from field_unique [OF dist this] False show ?thesis by simp
  next
    case True
    have "to_lower k \<notin> set (map (to_lower \<circ> fst) ?es)"
    proof
      assume "to_lower k \<in> set (map (to_lower \<circ> fst) ?es)"
      then obtain k' j' where "(False, k', j') \<in> set xs" "to_lower k' = to_lower k"
        unfolding eq by auto
      moreover have "inj_on (\<lambda>(e, k, j). to_lower k) (set xs)" using d by (simp add: distinct_map)
      ultimately have "(False, k', j') = (e, k, j)" using inj_onD [of "\<lambda>(e, k, j). to_lower k" "set xs" "(False, k', j')" "(e, k, j)"] x by simp
      with True show False by simp
    qed
    from field_absent [OF this] True show ?thesis by simp
  qed
qed

lemma all_strings_put: "all_strings (map put_string ss) = Inr (map coerce_utf8 ss)"
  by (induction ss) simp_all

lemma options_keys: "distinct (map (to_lower \<circ> fst) (options_entries opts))"
  by (simp add: options_entries_def to_lower_def lower_char_def)

lemma options_members:
  shows "(''mode'', put_string (opt_mode opts)) \<in> set (options_entries opts)"
    "(''quality'', put_string (opt_quality opts)) \<in> set (options_entries opts)"
    "(''format'', put_string (opt_format opts)) \<in> set (options_entries opts)"
    "(''container'', put_string (opt_container opts)) \<in> set (options_entries opts)"
    "(''audioPassthrough'', JBool (opt_audio_passthrough opts)) \<in> set (options_entries opts)"
    "(''videoItag'', put_string (opt_video_itag opts)) \<in> set (options_entries opts)"
    "(''audioItag'', put_string (opt_audio_itag opts)) \<in> set (options_entries opts)"
    "(''height'', put_ptr put_int (opt_height opts)) \<in> set (options_entries opts)"
    "(''fps'', put_ptr put_int (opt_fps opts)) \<in> set (options_entries opts)"
    "(''videoCodec'', put_string (opt_video_codec opts)) \<in> set (options_entries opts)"
    "(''audioCodec'', put_string (opt_audio_codec opts)) \<in> set (options_entries opts)"
    "(''bitrate'', put_ptr put_int (opt_bitrate opts)) \<in> set (options_entries opts)"
    "(''allowQualityFallback'', JBool (opt_allow_quality_fallback opts)) \<in> set (options_entries opts)"
    "(''sponsorBlock'', JBool (opt_sponsor_block opts)) \<in> set (options_entries opts)"
    "(''sponsorBlockCategories'', JArr (map put_string (opt_sponsor_block_categories opts))) \<in> set (options_entries opts)"
    "(''thumbnailOnly'', JBool (opt_thumbnail_only opts)) \<in> set (options_entries opts)"
    "(''subtitles'', coerce_json (opt_subtitles opts)) \<in> set (options_entries opts)"
  by (simp_all add: options_entries_def)

lemmas options_fields = options_members [THEN field_unique [OF options_keys]]

lemma options_round_trip: "clean_options opts \<Longrightarrow> options_of_json (options_json opts) = Inr opts"
proof -
  assume ok: "clean_options opts"
  then have "map coerce_utf8 (opt_sponsor_block_categories opts) = opt_sponsor_block_categories opts"
    by (auto simp: clean_options_def valid_utf8_def list_all_iff intro!: map_idI)
  with ok show ?thesis
    by (simp add: options_of_json_def options_json_def object_of_def options_fields all_strings_put
        clean_options_def valid_utf8_def coerce_clean)
qed

lemma progress_round_trip: "clean_progress p \<Longrightarrow> progress_of_json (progress_json p) = Inr p"
  by (simp add: progress_of_json_def progress_json_def object_of_def field_Cons field_Nil same_key_def
      to_lower_def lower_char_def clean_progress_def valid_utf8_def)

definition resolved_entries :: "resolved_output \<Rightarrow> (bool \<times> string \<times> json) list" where
  "resolved_entries r =
     [(res_video_itag r = [], ''videoItag'', put_string (res_video_itag r)),
      (res_audio_itag r = [], ''audioItag'', put_string (res_audio_itag r)),
      (res_height r = 0, ''height'', put_int (res_height r)),
      (res_fps r = 0, ''fps'', put_int (res_fps r)),
      (res_video_codec r = [], ''videoCodec'', put_string (res_video_codec r)),
      (res_audio_codec r = [], ''audioCodec'', put_string (res_audio_codec r)),
      (res_container r = [], ''container'', put_string (res_container r)),
      (res_file_name r = [], ''fileName'', put_string (res_file_name r))]"

lemma resolved_json_entries:
  "resolved_json r = JObj (concat (map (\<lambda>(e, k, j). omit_empty e k j) (resolved_entries r)))"
  by (simp add: resolved_json_def resolved_entries_def)

lemma resolved_keys: "distinct (map (\<lambda>(e, k, j). to_lower k) (resolved_entries r))"
  by (simp add: resolved_entries_def to_lower_def lower_char_def)

lemma resolved_members:
  shows "(res_video_itag r = [], ''videoItag'', put_string (res_video_itag r)) \<in> set (resolved_entries r)"
    "(res_audio_itag r = [], ''audioItag'', put_string (res_audio_itag r)) \<in> set (resolved_entries r)"
    "(res_height r = 0, ''height'', put_int (res_height r)) \<in> set (resolved_entries r)"
    "(res_fps r = 0, ''fps'', put_int (res_fps r)) \<in> set (resolved_entries r)"
    "(res_video_codec r = [], ''videoCodec'', put_string (res_video_codec r)) \<in> set (resolved_entries r)"
    "(res_audio_codec r = [], ''audioCodec'', put_string (res_audio_codec r)) \<in> set (resolved_entries r)"
    "(res_container r = [], ''container'', put_string (res_container r)) \<in> set (resolved_entries r)"
    "(res_file_name r = [], ''fileName'', put_string (res_file_name r)) \<in> set (resolved_entries r)"
  by (simp_all add: resolved_entries_def)

lemmas resolved_fields = resolved_members [THEN field_omitted [OF resolved_keys]]

lemma zero_or_value: "(if x = z then Inr z else Inr x) = Inr x"
  by simp

lemma resolved_round_trip: "clean_resolved r \<Longrightarrow> resolved_of_json (resolved_json r) = Inr r"
  by (simp add: resolved_of_json_def resolved_json_entries object_of_def resolved_fields clean_resolved_def
      valid_utf8_def zero_or_value)

end
