(* ===== verification/Job_Writer.thy ===== *)
theory Job_Writer
  imports Job_Model "HOL-Library.Sublist"
begin

text \<open>
  \<open>internal/db/job_writer.go\<close>: the queue between the job store and a database. \<open>SaveJob\<close> offers a
  record without waiting; one goroutine takes the records in order and saves them; \<open>close\<close> refuses
  further records, waits until the queue is empty, cuts the remaining writes short after five
  seconds, and reports what was lost.

  The statements of the writer's goroutine between taking a record and having saved it touch neither
  the queue nor the flags an offer reads, so they are one step; the faults it meets (\<open>'f\<close>) are an
  argument of the step. The counters count at most one record each, far from their width.
\<close>

section \<open>The writer\<close>

record job_writer =
  jw_queue :: "job_record list"
  jw_closed :: bool
  jw_cancelled :: bool
  jw_rejected :: nat
  jw_failures :: nat
  jw_last_error :: "error option"

definition writer_capacity :: nat where
  "writer_capacity = 2048"

definition new_job_writer :: job_writer where
  "new_job_writer =
     \<lparr>jw_queue = [], jw_closed = False, jw_cancelled = False, jw_rejected = 0, jw_failures = 0,
      jw_last_error = None\<rparr>"

definition enqueue_record :: "job_record \<Rightarrow> job_writer \<Rightarrow> job_writer" where
  "enqueue_record r w =
     (if jw_closed w then w
      else if length (jw_queue w) < writer_capacity then w\<lparr>jw_queue := jw_queue w @ [r]\<rparr>
      else w\<lparr>jw_rejected := jw_rejected w + 1\<rparr>)"

definition count_failure :: "error \<Rightarrow> job_writer \<Rightarrow> job_writer" where
  "count_failure e w = w\<lparr>jw_failures := jw_failures w + 1, jw_last_error := Some e\<rparr>"

text \<open>One pass of the loop of \<open>run\<close>, when a record waits.\<close>

definition run_one ::
  "('f \<Rightarrow> job_record \<Rightarrow> 'd \<Rightarrow> 'd \<times> error option) \<Rightarrow> 'f \<Rightarrow> job_writer \<times> 'd \<Rightarrow> job_writer \<times> 'd" where
  "run_one save f = (\<lambda>(w, d).
     (case jw_queue w of
        [] \<Rightarrow> (w, d)
      | r # rs \<Rightarrow>
          (let w1 = w\<lparr>jw_queue := rs\<rparr>
           in if jw_cancelled w then (count_failure Canceled w1, d)
              else case save f r d of
                (d', None) \<Rightarrow> (w1, d')
              | (d', Some e) \<Rightarrow> (count_failure e w1, d'))))"

text \<open>\<open>close\<close>: what it sets before it waits, what the timer sets, and what it returns once the queue
  has been emptied.\<close>

definition close_queue :: "job_writer \<Rightarrow> job_writer" where
  "close_queue w = w\<lparr>jw_closed := True\<rparr>"

definition cut_writes :: "job_writer \<Rightarrow> job_writer" where
  "cut_writes w = (if jw_closed w then w\<lparr>jw_cancelled := True\<rparr> else w)"

definition close_report :: "job_writer \<Rightarrow> error option" where
  "close_report w =
     (if jw_failures w > 0
      then Some (Wrap (''persistence: '' @ itoa (int (jw_failures w)) @ '' writes failed, ''
                       @ itoa (int (jw_rejected w)) @ '' rejected: '')
                   (case jw_last_error w of None \<Rightarrow> Err ''%!w(<nil>)'' | Some e \<Rightarrow> e) [])
      else if jw_rejected w > 0
      then Some (Err (''persistence queue rejected '' @ itoa (int (jw_rejected w)) @ '' writes''))
      else None)"

section \<open>Runs\<close>

datatype 'f writer_event = Offer job_record | Work 'f | Close | Cut

fun writer_step ::
  "('f \<Rightarrow> job_record \<Rightarrow> 'd \<Rightarrow> 'd \<times> error option) \<Rightarrow> job_writer \<times> 'd \<Rightarrow> 'f writer_event
   \<Rightarrow> job_writer \<times> 'd" where
  "writer_step save (w, d) (Offer r) = (enqueue_record r w, d)"
| "writer_step save (w, d) (Work f) = run_one save f (w, d)"
| "writer_step save (w, d) Close = (close_queue w, d)"
| "writer_step save (w, d) Cut = (cut_writes w, d)"

definition writer_run ::
  "('f \<Rightarrow> job_record \<Rightarrow> 'd \<Rightarrow> 'd \<times> error option) \<Rightarrow> 'f writer_event list \<Rightarrow> 'd \<Rightarrow> job_writer \<times> 'd" where
  "writer_run save evs d = foldl (writer_step save) (new_job_writer, d) evs"

text \<open>The records offered before the queue closes; later offers are refused without a count.\<close>

fun offers :: "'f writer_event list \<Rightarrow> job_record list" where
  "offers [] = []"
| "offers (Offer r # evs) = r # offers evs"
| "offers (Work f # evs) = offers evs"
| "offers (Close # evs) = []"
| "offers (Cut # evs) = offers evs"

lemma offers_append: "offers (evs @ evs') = (if Close \<in> set evs then offers evs else offers evs @ offers evs')"
  by (induction evs rule: offers.induct) simp_all

lemma writer_run_snoc: "writer_run save (evs @ [ev]) d = writer_step save (writer_run save evs d) ev"
  by (simp add: writer_run_def)

lemma writer_run_Nil: "writer_run save [] d = (new_job_writer, d)"
  by (simp add: writer_run_def)

text \<open>Emptying the queue takes one step a record.\<close>

lemma run_one_queue: "jw_queue (fst (run_one save f (w, d))) = tl (jw_queue w)"
  by (cases "jw_queue w")
     (auto simp: run_one_def count_failure_def Let_def split: prod.split option.split)

lemma run_one_closed: "jw_closed (fst (run_one save f (w, d))) = jw_closed w"
  by (cases "jw_queue w")
     (auto simp: run_one_def count_failure_def Let_def split: prod.split option.split)

lemma drain_writer:
  "jw_queue (fst (foldl (writer_step save) st (map Work fs))) = drop (length fs) (jw_queue (fst st))"
proof (induction fs arbitrary: st)
  case Nil
  then show ?case by simp
next
  case (Cons f fs)
  obtain w d where st: "st = (w, d)" by (cases st)
  have "jw_queue (fst (run_one save f (w, d))) = tl (jw_queue w)" by (rule run_one_queue)
  with Cons [of "run_one save f (w, d)"] show ?case by (simp add: st drop_Suc)
qed

text \<open>An invariant of the database that saving a good record keeps, when only good ones are offered.\<close>

lemma writer_run_inv:
  assumes step: "\<And>f r d. good r \<Longrightarrow> well d \<Longrightarrow> well (fst (save f r d))" and start: "well d"
    and "\<forall>r\<in>set (offers evs). good r"
  shows "well (snd (writer_run save evs d)) \<and> (\<forall>r\<in>set (jw_queue (fst (writer_run save evs d))). good r)
    \<and> jw_closed (fst (writer_run save evs d)) = (Close \<in> set evs)"
  using assms(3)
proof (induction evs rule: rev_induct)
  case Nil
  with start show ?case by (simp add: writer_run_Nil new_job_writer_def)
next
  case (snoc ev evs)
  obtain w d' where w: "writer_run save evs d = (w, d')" by (cases "writer_run save evs d")
  from snoc have ih: "well d'" "\<forall>r\<in>set (jw_queue w). good r" "jw_closed w = (Close \<in> set evs)"
    by (auto simp: offers_append w split: if_splits)
  show ?case
  proof (cases ev)
    case (Offer r)
    with ih snoc.prems show ?thesis
      by (auto simp: writer_run_snoc w enqueue_record_def offers_append)
  next
    case (Work f)
    show ?thesis
    proof (cases "jw_queue w")
      case Nil
      with ih Work show ?thesis by (simp add: writer_run_snoc w run_one_def)
    next
      case (Cons r q)
      with ih have "well (fst (save f r d'))" by (intro step) simp_all
      with ih Work Cons show ?thesis
        by (auto simp: writer_run_snoc w run_one_def count_failure_def Let_def
            split: prod.split option.split)
    qed
  qed (use ih in \<open>auto simp: writer_run_snoc w close_queue_def cut_writes_def\<close>)
qed

section \<open>What a database promises the writer\<close>

text \<open>
  A write that succeeds has its effect on what the database shows; a write that fails has it or leaves
  the database alone (the error may reach the client after the statement was executed).
\<close>

locale persister =
  fixes save :: "'f \<Rightarrow> job_record \<Rightarrow> 'd \<Rightarrow> 'd \<times> error option"
    and view :: "'d \<Rightarrow> 'v" and put :: "job_record \<Rightarrow> 'v \<Rightarrow> 'v"
  assumes saved: "snd (save f r d) = None \<Longrightarrow> view (fst (save f r d)) = put r (view d)"
    and kept: "view (fst (save f r d)) = view d \<or> view (fst (save f r d)) = put r (view d)"
begin

definition put_all :: "job_record list \<Rightarrow> 'v \<Rightarrow> 'v" where
  "put_all rs v = foldl (\<lambda>v r. put r v) v rs"

lemma put_all_simps: "put_all [] v = v" "put_all (rs @ [r]) v = put r (put_all rs v)"
  by (simp_all add: put_all_def)

text \<open>What shows is the effect of some of the offered records, in their order; the others wait, or are
  counted.\<close>

definition accounted :: "'v \<Rightarrow> 'f writer_event list \<Rightarrow> job_writer \<times> 'd \<Rightarrow> job_record list \<Rightarrow> bool" where
  "accounted v evs st rs \<longleftrightarrow>
     view (snd st) = put_all rs v \<and> subseq (rs @ jw_queue (fst st)) (offers evs)
     \<and> length (offers evs) \<le> length rs + length (jw_queue (fst st))
         + jw_failures (fst st) + jw_rejected (fst st)
     \<and> jw_closed (fst st) = (Close \<in> set evs)
     \<and> length (jw_queue (fst st)) \<le> writer_capacity"

lemma accounted_offer:
  assumes "accounted v evs (w, d) rs"
  shows "accounted v (evs @ [Offer r]) (enqueue_record r w, d) rs"
proof -
  have "subseq (rs @ jw_queue w @ [r]) (offers evs @ [r])"
    using assms subseq_append [of "rs @ jw_queue w" "[r]" "offers evs"] by (simp add: accounted_def)
  moreover have "subseq (rs @ jw_queue w) (offers evs @ [r])"
    using assms by (simp add: accounted_def subseq_rev_drop_many)
  ultimately show ?thesis
    using assms by (auto simp: accounted_def enqueue_record_def offers_append writer_capacity_def)
qed

lemma accounted_work:
  assumes ok: "accounted v evs (w, d) rs"
  shows "\<exists>rs'. accounted v (evs @ [Work f]) (run_one save f (w, d)) rs'"
proof (cases "jw_queue w")
  case Nil
  with ok show ?thesis by (auto simp: run_one_def accounted_def offers_append)
next
  case (Cons r q)
  have sub: "subseq (rs @ r # q) (offers evs)" using ok Cons by (simp add: accounted_def)
  then have rest: "subseq (rs @ q) (offers evs)"
    by (meson list_emb_append_mono subseq_Cons' subseq_order.order_refl subseq_order.order_trans)
  show ?thesis
  proof (cases "\<not> jw_cancelled w \<and> view (fst (save f r d)) = put r (view d)")
    case True
    with ok Cons sub show ?thesis
      by (intro exI [of _ "rs @ [r]"])
         (auto simp: accounted_def run_one_def count_failure_def offers_append put_all_simps Let_def
           split: prod.split option.split)
  next
    case False
    with kept [of f r d] have "\<not> jw_cancelled w \<Longrightarrow> view (fst (save f r d)) = view d" by blast
    moreover have "\<not> jw_cancelled w \<Longrightarrow> snd (save f r d) \<noteq> None" using False saved by blast
    ultimately show ?thesis using ok Cons rest
      by (intro exI [of _ rs])
         (auto simp: accounted_def run_one_def count_failure_def offers_append Let_def
           split: prod.split option.split)
  qed
qed

lemma accounted_step:
  assumes "accounted v evs (w, d) rs"
  shows "\<exists>rs'. accounted v (evs @ [ev]) (writer_step save (w, d) ev) rs'"
proof (cases ev)
  case (Offer r)
  with accounted_offer [OF assms] show ?thesis by auto
next
  case (Work f)
  with accounted_work [OF assms] show ?thesis by simp
qed (use assms in \<open>auto simp: accounted_def close_queue_def cut_writes_def offers_append\<close>)

lemma writer_accounted: "\<exists>rs. accounted (view d) evs (writer_run save evs d) rs"
proof (induction evs rule: rev_induct)
  case Nil
  have "accounted (view d) [] (writer_run save [] d) []"
    by (simp add: accounted_def writer_run_Nil new_job_writer_def put_all_simps)
  then show ?case ..
next
  case (snoc ev evs)
  then show ?case using accounted_step by (metis surj_pair writer_run_snoc)
qed

text \<open>After a shutdown that reports nothing, everything offered is in the database.\<close>

lemma clean_close:
  assumes "jw_queue (fst (writer_run save evs d)) = []"
    and "close_report (fst (writer_run save evs d)) = None"
  shows "view (snd (writer_run save evs d)) = put_all (offers evs) (view d)"
proof -
  obtain rs where rs: "accounted (view d) evs (writer_run save evs d) rs"
    using writer_accounted by blast
  with assms have "subseq rs (offers evs)" "length (offers evs) \<le> length rs"
    by (simp_all add: accounted_def close_report_def split: if_splits)
  then have "rs = offers evs"
    by (metis le_antisym list_emb_length subseq_same_length)
  with rs show ?thesis by (simp add: accounted_def)
qed

end

end
