(* ===== verification/Cleanup.thy ===== *)
theory Cleanup
  imports Artifact_Store
begin

text \<open>
  Package \<open>internal/cleanup\<close>: the sweep of stale files under the data directory (\<open>cleaner.go\<close>) and the
  purge of expired S3 artifacts (\<open>s3_artifacts.go\<close>), which works against interfaces for the
  database, the bucket and the job store. What a walk of a directory shows is an argument; the log
  lines are left out.
\<close>

section \<open>Stale files\<close>

record walk_entry =
  we_path :: string
  we_error :: "error option"
  we_is_dir :: bool
  we_mod_time :: "time result"

text \<open>\<open>filepath.Separator\<close> is the slash.\<close>

definition unfinished_name :: "string \<Rightarrow> bool" where
  "unfinished_name path \<longleftrightarrow>
     has_suffix path ''.part'' \<or> contains path ''/video.'' \<or> contains path ''/audio.''"

definition clean_job_entry :: "faults \<Rightarrow> time \<Rightarrow> walk_entry \<Rightarrow> disk \<Rightarrow> disk" where
  "clean_job_entry fl cutoff e d =
     (if we_error e \<noteq> None \<or> we_is_dir e then d
      else case we_mod_time e of
        Inl _ \<Rightarrow> d
      | Inr t \<Rightarrow> if after t cutoff then d
                 else if unfinished_name (we_path e) then fst (os_remove fl (we_path e) d) else d)"

definition clean_jobs :: "faults \<Rightarrow> time \<Rightarrow> walk_entry list \<Rightarrow> disk \<Rightarrow> disk" where
  "clean_jobs fl cutoff es d = foldl (\<lambda>d e. clean_job_entry fl cutoff e d) d es"

definition clean_artifact_entry :: "faults \<Rightarrow> time \<Rightarrow> walk_entry \<Rightarrow> disk \<Rightarrow> disk" where
  "clean_artifact_entry fl cutoff e d =
     (if we_error e \<noteq> None \<or> we_is_dir e then d
      else case we_mod_time e of
        Inl _ \<Rightarrow> d
      | Inr t \<Rightarrow> if t < cutoff then fst (os_remove fl (we_path e) d) else d)"

definition clean_artifacts :: "faults \<Rightarrow> time \<Rightarrow> walk_entry list \<Rightarrow> disk \<Rightarrow> disk" where
  "clean_artifacts fl cutoff es d = foldl (\<lambda>d e. clean_artifact_entry fl cutoff e d) d es"

text \<open>\<open>walk\<close> lists what \<open>filepath.WalkDir\<close> visits from a root.\<close>

definition clean_data ::
  "faults \<Rightarrow> (string \<Rightarrow> walk_entry list) \<Rightarrow> string \<Rightarrow> string \<Rightarrow> int \<Rightarrow> time \<Rightarrow> disk \<Rightarrow> disk" where
  "clean_data fl walk data backend max_age now d =
     (let cutoff = now - max_age;
          d1 = clean_jobs fl cutoff (walk (join_path [data, ''jobs''])) d
      in if backend = ''s3'' then clean_artifacts fl cutoff (walk (join_path [data, ''artifacts''])) d1
         else d1)"

definition hour :: int where "hour = 60 * minute"

text \<open>The goroutine of \<open>Start\<close>: a sweep at once and one at each tick before the context ends; each
  pass has its time and its walk.\<close>

definition run_cleaner ::
  "faults \<Rightarrow> string \<Rightarrow> string \<Rightarrow> (time \<times> (string \<Rightarrow> walk_entry list)) list \<Rightarrow> disk \<Rightarrow> disk" where
  "run_cleaner fl data backend passes d =
     foldl (\<lambda>d (now, walk). clean_data fl walk data backend hour now d) d passes"

lemma clean_jobs_keeps:
  assumes "\<And>e t. e \<in> set es \<Longrightarrow> we_path e = p \<Longrightarrow> we_error e = None \<Longrightarrow> \<not> we_is_dir e \<Longrightarrow>
    we_mod_time e = Inr t \<Longrightarrow> t \<le> cutoff \<Longrightarrow> unfinished_name p \<Longrightarrow> False"
  shows "clean_jobs fl cutoff es d p = d p"
  using assms unfolding clean_jobs_def
proof (induction es arbitrary: d)
  case Nil
  then show ?case by simp
next
  case (Cons e es)
  have "clean_job_entry fl cutoff e d p = d p"
  proof (cases "we_path e = p")
    case True
    with Cons.prems [of e] show ?thesis
      by (auto simp: clean_job_entry_def after_def split: sum.split)
  next
    case False
    then show ?thesis by (auto simp: clean_job_entry_def os_remove_other split: sum.split)
  qed
  with Cons.IH [of "clean_job_entry fl cutoff e d"] Cons.prems show ?case
    by (metis (no_types, lifting) foldl_Cons list.set_intros(2))
qed

lemma os_remove_stays: "d p = None \<Longrightarrow> fst (os_remove fl q d) p = None"
  by (simp add: os_remove_def split: option.split)

lemma clean_jobs_stays: "d p = None \<Longrightarrow> clean_jobs fl cutoff es d p = None"
  unfolding clean_jobs_def
  by (induction es arbitrary: d)
     (simp_all add: clean_job_entry_def os_remove_stays split: sum.split)

lemma clean_jobs_removes:
  assumes "e \<in> set es" and "we_error e = None" and "\<not> we_is_dir e"
    and "we_mod_time e = Inr t" and "t \<le> cutoff" and "unfinished_name (we_path e)"
    and "f_remove fl (we_path e) = None"
  shows "clean_jobs fl cutoff es d (we_path e) = None"
  using assms
proof (induction es arbitrary: d)
  case Nil
  then show ?case by simp
next
  case (Cons e' es)
  have step: "clean_jobs fl cutoff (e' # es) d = clean_jobs fl cutoff es (clean_job_entry fl cutoff e' d)"
    by (simp add: clean_jobs_def)
  show ?case
  proof (cases "e' = e")
    case True
    with Cons.prems have "clean_job_entry fl cutoff e' d (we_path e) = None"
      by (simp add: clean_job_entry_def after_def os_remove_gone)
    then show ?thesis unfolding step by (rule clean_jobs_stays)
  next
    case False
    with Cons show ?thesis unfolding step by simp
  qed
qed

section \<open>Expired artifacts\<close>

record expired_artifact =
  ea_id :: string
  ea_location :: string
  ea_expires_at :: time

text \<open>The interfaces the purge works against, over the world \<open>'w\<close> they share: whether the context
  lives, \<open>ListExpiredArtifacts\<close>, \<open>DeleteExpiredArtifact\<close>, \<open>Delete\<close> of the artifact store, and
  \<open>RemoveExpiredArtifact\<close> of the job store, which may be nil.\<close>

record 'w purge_env =
  pe_live :: "'w \<Rightarrow> bool"
  pe_list :: "time \<Rightarrow> string \<Rightarrow> int \<Rightarrow> 'w \<Rightarrow> 'w \<times> expired_artifact list result"
  pe_delete_row :: "expired_artifact \<Rightarrow> time \<Rightarrow> 'w \<Rightarrow> 'w \<times> error option"
  pe_delete_object :: "saved \<Rightarrow> 'w \<Rightarrow> 'w \<times> error option"
  pe_forget :: "(string \<Rightarrow> string \<Rightarrow> time \<Rightarrow> 'w \<Rightarrow> 'w) option"

definition batch_size :: nat where
  "batch_size = 100"

definition unsafe_candidate :: "time \<Rightarrow> expired_artifact \<Rightarrow> bool" where
  "unsafe_candidate cutoff c \<longleftrightarrow>
     ea_id c = [] \<or> ea_location c = [] \<or> \<not> has_prefix (ea_location c) ''artifacts/''
     \<or> after (ea_expires_at c) cutoff"

definition candidate_object :: "expired_artifact \<Rightarrow> saved" where
  "candidate_object c = \<lparr>sv_backend = ''s3'', sv_location = ea_location c, sv_expires = None\<rparr>"

definition purge_candidate :: "'w purge_env \<Rightarrow> time \<Rightarrow> 'w \<Rightarrow> expired_artifact \<Rightarrow> 'w" where
  "purge_candidate env cutoff w c =
     (if unsafe_candidate cutoff c then w
      else let w1 = (case pe_forget env of
                       None \<Rightarrow> w | Some forget \<Rightarrow> forget (ea_id c) (ea_location c) cutoff w)
           in case pe_delete_object env (candidate_object c) w1 of
                (w2, Some e) \<Rightarrow> w2
              | (w2, None) \<Rightarrow> fst (pe_delete_row env c cutoff w2))"

text \<open>One round of the loop for each unit of fuel; the first component of the result is the world, and
  \<open>None\<close> means the fuel ran out.\<close>

fun purge_loop :: "'w purge_env \<Rightarrow> time \<Rightarrow> nat \<Rightarrow> string \<Rightarrow> 'w \<Rightarrow> 'w option" where
  "purge_loop env cutoff 0 after_id w = None"
| "purge_loop env cutoff (Suc n) after_id w =
     (if \<not> pe_live env w then Some w
      else case pe_list env cutoff after_id (int batch_size) w of
        (w1, Inl e) \<Rightarrow> Some w1
      | (w1, Inr cs) \<Rightarrow>
          if cs = [] then Some w1
          else let w2 = foldl (purge_candidate env cutoff) w1 cs
               in if length cs < batch_size then Some w2
                  else purge_loop env cutoff n (ea_id (last cs)) w2)"

definition purge_cutoff :: "int \<Rightarrow> time \<Rightarrow> time" where
  "purge_cutoff url_ttl now = now - (if url_ttl < 0 then 0 else url_ttl)"

definition purge_expired :: "'w purge_env \<Rightarrow> int \<Rightarrow> time \<Rightarrow> nat \<Rightarrow> 'w \<Rightarrow> 'w option" where
  "purge_expired env url_ttl now fuel w = purge_loop env (purge_cutoff url_ttl now) fuel [] w"

text \<open>\<open>StartS3ArtifactCleanup\<close>: whether it purges at all. \<open>files\<close> and \<open>repository\<close> tell whether the
  arguments are there.\<close>

definition purge_enabled :: "string \<Rightarrow> bool \<Rightarrow> bool \<Rightarrow> bool" where
  "purge_enabled backend files repository \<longleftrightarrow> backend = ''s3'' \<and> files \<and> repository"

fun run_purges :: "'w purge_env \<Rightarrow> int \<Rightarrow> nat \<Rightarrow> time list \<Rightarrow> 'w \<Rightarrow> 'w option" where
  "run_purges env url_ttl fuel [] w = Some w"
| "run_purges env url_ttl fuel (now # ticks) w =
     (case purge_expired env url_ttl now fuel w of
        None \<Rightarrow> None
      | Some w' \<Rightarrow> run_purges env url_ttl fuel ticks w')"

definition start_s3_cleanup ::
  "'w purge_env \<Rightarrow> string \<Rightarrow> bool \<Rightarrow> bool \<Rightarrow> int \<Rightarrow> nat \<Rightarrow> time list \<Rightarrow> 'w \<Rightarrow> 'w option" where
  "start_s3_cleanup env backend files repository url_ttl fuel ticks w =
     (if purge_enabled backend files repository then run_purges env url_ttl fuel ticks w else Some w)"

section \<open>What the purge needs\<close>

text \<open>
  A property of the world that every call keeps, where the calls are made only for candidates that
  pass the guard, survives the purge. Against a repository whose full batches leave fewer entries
  behind their last identity, the purge ends.
\<close>

locale guarded_purge =
  fixes env :: "'w purge_env" and cutoff :: time and known :: "expired_artifact \<Rightarrow> bool"
    and keep :: "'w \<Rightarrow> bool"
  assumes list_keeps: "keep w \<Longrightarrow> pe_list env cutoff a n w = (w1, r) \<Longrightarrow>
          keep w1 \<and> (\<forall>cs. r = Inr cs \<longrightarrow> (\<forall>c\<in>set cs. known c))"
    and forget_keeps: "pe_forget env = Some f \<Longrightarrow> known c \<Longrightarrow> \<not> unsafe_candidate cutoff c \<Longrightarrow> keep w \<Longrightarrow>
          keep (f (ea_id c) (ea_location c) cutoff w)"
    and object_keeps: "known c \<Longrightarrow> \<not> unsafe_candidate cutoff c \<Longrightarrow> keep w \<Longrightarrow>
          keep (fst (pe_delete_object env (candidate_object c) w))"
    and row_keeps: "known c \<Longrightarrow> \<not> unsafe_candidate cutoff c \<Longrightarrow> keep w \<Longrightarrow>
          keep (fst (pe_delete_row env c cutoff w))"
begin

lemma candidate_keeps: "known c \<Longrightarrow> keep w \<Longrightarrow> keep (purge_candidate env cutoff w c)"
proof (cases "unsafe_candidate cutoff c")
  case True
  then show "keep w \<Longrightarrow> ?thesis" by (simp add: purge_candidate_def)
next
  case False
  assume c: "known c" and w: "keep w"
  let ?w1 = "case pe_forget env of None \<Rightarrow> w | Some f \<Rightarrow> f (ea_id c) (ea_location c) cutoff w"
  have "keep ?w1" using forget_keeps [OF _ c False w] w by (simp split: option.split)
  then have "keep (fst (pe_delete_object env (candidate_object c) ?w1))" by (rule object_keeps [OF c False])
  then show ?thesis using row_keeps [OF c False] False
    by (auto simp: purge_candidate_def Let_def split: prod.split option.split)
qed

lemma batch_keeps: "\<forall>c\<in>set cs. known c \<Longrightarrow> keep w \<Longrightarrow> keep (foldl (purge_candidate env cutoff) w cs)"
  by (induction cs arbitrary: w) (simp_all add: candidate_keeps)

lemma loop_keeps: "keep w \<Longrightarrow> purge_loop env cutoff n a w = Some w' \<Longrightarrow> keep w'"
proof (induction n arbitrary: a w)
  case 0
  then show ?case by simp
next
  case (Suc n)
  obtain w1 r where l: "pe_list env cutoff a (int batch_size) w = (w1, r)" by fastforce
  from list_keeps [OF Suc.prems(1) l] have "keep w1"
    and "r = Inr cs \<Longrightarrow> keep (foldl (purge_candidate env cutoff) w1 cs)" for cs
    by (simp_all add: batch_keeps)
  with Suc l show ?case
    by (fastforce simp: Let_def split: sum.splits if_splits)
qed

end

locale shrinking_source =
  fixes env :: "'w purge_env" and cutoff :: time and left :: "string \<Rightarrow> 'w \<Rightarrow> nat"
  assumes listed: "pe_list env cutoff a (int batch_size) w = (w1, Inr cs) \<Longrightarrow> batch_size \<le> length cs \<Longrightarrow>
      left (ea_id (last cs)) w1 < left a w"
    and purged: "left a (purge_candidate env cutoff w c) \<le> left a w"
begin

lemma batch_left: "left a (foldl (purge_candidate env cutoff) w cs) \<le> left a w"
proof (induction cs arbitrary: w)
  case Nil
  then show ?case by simp
next
  case (Cons c cs)
  from Cons [of "purge_candidate env cutoff w c"] purged [of a w c] show ?case by simp
qed

lemma loop_ends: "left a w < n \<Longrightarrow> purge_loop env cutoff n a w \<noteq> None"
proof (induction n arbitrary: a w)
  case 0
  then show ?case by simp
next
  case (Suc n)
  obtain w1 r where l: "pe_list env cutoff a (int batch_size) w = (w1, r)" by fastforce
  show ?case
  proof (cases "\<exists>cs. r = Inr cs \<and> batch_size \<le> length cs")
    case True
    then obtain cs where cs: "r = Inr cs" "batch_size \<le> length cs" by blast
    let ?w2 = "foldl (purge_candidate env cutoff) w1 cs"
    have "left (ea_id (last cs)) ?w2 \<le> left (ea_id (last cs)) w1" by (rule batch_left)
    also have "\<dots> < left a w" by (rule listed [OF _ cs(2)]) (simp add: l cs)
    finally have "purge_loop env cutoff n (ea_id (last cs)) ?w2 \<noteq> None"
      using Suc.prems by (intro Suc.IH) simp
    with l cs show ?thesis by (simp add: Let_def)
  next
    case False
    with l show ?thesis by (auto simp: Let_def split: sum.split)
  qed
qed

end

end
