(* ===== verification/Postgres.thy ===== *)
theory Postgres
  imports Job_Json Job_Writer Cleanup
begin

text \<open>
  Package \<open>internal/db\<close>: the table of \<open>schema.go\<close> and the statements \<open>postgres.go\<close>, \<open>load.go\<close> and
  \<open>expired_artifacts.go\<close> send to it, and the keys \<open>dragonfly.go\<close> writes.

  A table is the list of its rows, in the order in which the server happens to meet them: a theorem
  for every table covers every order SQL leaves open. Three things of the server and its driver are
  arguments: what becomes of a time stored in a \<open>timestamptz\<close> (\<open>stamp\<close>), the order of text
  (\<open>rank\<close>), and the outcome of a statement.
\<close>

section \<open>The table\<close>

text \<open>The column \<open>status\<close> holds \<open>status_text\<close> of the status here. A column that is not null cannot
  hold one, so the nullable columns alone are options.\<close>

record row =
  row_id :: string
  row_cache_key :: string
  row_url :: string
  row_status :: status
  row_title :: string
  row_options :: json
  row_progress :: json
  row_resolved :: "json option"
  row_artifact :: string
  row_storage :: string
  row_expires_at :: "time option"
  row_error :: "string option"
  row_error_code :: "string option"
  row_queued_at :: time
  row_started_at :: "time option"
  row_finished_at :: "time option"
  row_download_ms :: "int option"
  row_mux_ms :: "int option"
  row_total_ms :: "int option"
  row_updated_at :: time

datatype outcome = Executed | Executed_unheard error | Not_executed error

fun outcome_error :: "outcome \<Rightarrow> error option" where
  "outcome_error Executed = None"
| "outcome_error (Executed_unheard e) = Some e"
| "outcome_error (Not_executed e) = Some e"

definition exec_statement :: "outcome \<Rightarrow> ('t \<Rightarrow> 't) \<Rightarrow> 't \<Rightarrow> 't \<times> error option" where
  "exec_statement oc f t =
     ((case oc of Not_executed _ \<Rightarrow> t | _ \<Rightarrow> f t), outcome_error oc)"

text \<open>The row of the \<open>values\<close> clause. A record without a resolved output stores the JSON null.\<close>

definition job_row :: "(time \<Rightarrow> time) \<Rightarrow> time \<Rightarrow> job_record \<Rightarrow> row" where
  "job_row stamp now r =
     \<lparr>row_id = job_id r, row_cache_key = cache_key r, row_url = job_url r,
      row_status = job_status r, row_title = job_title r,
      row_options = options_json (job_options r), row_progress = progress_json (job_progress r),
      row_resolved = Some (put_ptr resolved_json (resolved r)), row_artifact = artifact r,
      row_storage = storage_backend r, row_expires_at = map_option stamp (expires_at r),
      row_error = job_error r, row_error_code = error_code r, row_queued_at = stamp (queued_at r),
      row_started_at = map_option stamp (started_at r),
      row_finished_at = map_option stamp (finished_at r), row_download_ms = download_ms r,
      row_mux_ms = mux_ms r, row_total_ms = total_ms r, row_updated_at = now\<rparr>"

text \<open>\<open>on conflict (id) do update\<close>: every column but \<open>queued_at\<close> takes the new value.\<close>

definition upsert_row :: "row \<Rightarrow> row list \<Rightarrow> row list" where
  "upsert_row new t =
     (if \<exists>old\<in>set t. row_id old = row_id new
      then map (\<lambda>old. if row_id old = row_id new
                      then new\<lparr>row_queued_at := row_queued_at old\<rparr> else old) t
      else t @ [new])"

definition upsert ::
  "(time \<Rightarrow> time) \<Rightarrow> time \<times> outcome \<Rightarrow> job_record \<Rightarrow> row list \<Rightarrow> row list \<times> error option" where
  "upsert stamp = (\<lambda>(now, oc) r t.
     (case exec_statement oc (upsert_row (job_row stamp now r)) t of
        (t', None) \<Rightarrow> (t', None)
      | (t', Some e) \<Rightarrow> (t', Some (Wrap (''upsert job '' @ job_id r @ '': '') e []))))"

section \<open>Loading\<close>

definition scan_record :: "row \<Rightarrow> job_record result" where
  "scan_record row =
     rbind (options_of_json (row_options row)) (\<lambda>opts.
     rbind (progress_of_json (row_progress row)) (\<lambda>p.
     rbind (case row_resolved row of
              None \<Rightarrow> Inr None
            | Some JNull \<Rightarrow> Inr None
            | Some j \<Rightarrow> rbind (resolved_of_json j) (\<lambda>res. Inr (Some res))) (\<lambda>res.
       Inr \<lparr>job_id = row_id row, cache_key = row_cache_key row, job_url = row_url row,
            authorization = [], job_options = opts, job_status = row_status row,
            job_title = row_title row, job_error = row_error row, error_code = row_error_code row,
            artifact = row_artifact row, expires_at = row_expires_at row,
            storage_backend = row_storage row, resolved = res, job_progress = p,
            queued_at = row_queued_at row, started_at = row_started_at row,
            finished_at = row_finished_at row, download_ms = row_download_ms row,
            mux_ms = row_mux_ms row, total_ms = row_total_ms row, cancel_fn = None\<rparr>)))"

text \<open>The first error, of the query, of a row, or of reading on, is the result.\<close>

fun load_rows :: "error option \<Rightarrow> row list \<Rightarrow> job_record list result" where
  "load_rows rows_err [] = (case rows_err of Some e \<Rightarrow> Inl e | None \<Rightarrow> Inr [])"
| "load_rows rows_err (row # rows) =
     rbind (scan_record row) (\<lambda>r. rbind (load_rows rows_err rows) (\<lambda>rs. Inr (r # rs)))"

definition load_records :: "error option \<Rightarrow> error option \<Rightarrow> row list \<Rightarrow> job_record list result" where
  "load_records query_err rows_err rows =
     (case query_err of Some e \<Rightarrow> Inl e | None \<Rightarrow> load_rows rows_err rows)"

definition load_limit :: nat where
  "load_limit = 10000"

definition servable :: "time \<Rightarrow> row \<Rightarrow> bool" where
  "servable now row \<longleftrightarrow> row_status row = Done \<and> row_artifact row \<noteq> []
     \<and> (case row_expires_at row of None \<Rightarrow> True | Some t \<Rightarrow> t > now)"

text \<open>\<open>order by finished_at desc nulls last\<close>.\<close>

definition newest_first :: "row list \<Rightarrow> row list" where
  "newest_first rows =
     sort_key (\<lambda>row. - (case row_finished_at row of None \<Rightarrow> 0 | Some t \<Rightarrow> t))
       (filter (\<lambda>row. row_finished_at row \<noteq> None) rows)
     @ filter (\<lambda>row. row_finished_at row = None) rows"

definition select_done :: "time \<Rightarrow> row list \<Rightarrow> row list" where
  "select_done now t = take load_limit (newest_first (filter (servable now) t))"

definition select_runnable :: "row list \<Rightarrow> row list" where
  "select_runnable t =
     take load_limit (sort_key row_queued_at
       (filter (\<lambda>row. row_status row = Queued \<or> row_status row = Running) t))"

definition load_done :: "error option \<Rightarrow> error option \<Rightarrow> time \<Rightarrow> row list \<Rightarrow> job_record list result" where
  "load_done query_err rows_err now t = load_records query_err rows_err (select_done now t)"

definition load_runnable :: "error option \<Rightarrow> error option \<Rightarrow> row list \<Rightarrow> job_record list result" where
  "load_runnable query_err rows_err t = load_records query_err rows_err (select_runnable t)"

section \<open>Expired artifacts\<close>

text \<open>A row the purge may list, below a cutoff.\<close>

definition expired_row :: "time \<Rightarrow> row \<Rightarrow> bool" where
  "expired_row before row \<longleftrightarrow> row_status row = Done \<and> row_storage row = ''s3'' \<and> row_artifact row \<noteq> []
     \<and> has_prefix (row_artifact row) ''artifacts/''
     \<and> (case row_expires_at row of None \<Rightarrow> False | Some t \<Rightarrow> t \<le> before)"

definition candidate_of :: "row \<Rightarrow> expired_artifact" where
  "candidate_of row =
     \<lparr>ea_id = row_id row, ea_location = row_artifact row,
      ea_expires_at = (case row_expires_at row of None \<Rightarrow> 0 | Some t \<Rightarrow> t)\<rparr>"

definition select_expired ::
  "(string \<Rightarrow> 'k::linorder) \<Rightarrow> time \<Rightarrow> string \<Rightarrow> int \<Rightarrow> row list \<Rightarrow> row list" where
  "select_expired rank before after_id n t =
     take (nat n) (sort_key (\<lambda>row. rank (row_id row))
       (filter (\<lambda>row. expired_row before row \<and> rank after_id < rank (row_id row)) t))"

text \<open>Where the query can break: when it is sent, at a row, or between rows.\<close>

datatype list_fault = Query_failed error | Scan_failed error | Read_failed error

definition list_expired ::
  "(time \<Rightarrow> time) \<Rightarrow> (string \<Rightarrow> 'k::linorder) \<Rightarrow> list_fault option \<Rightarrow> time \<Rightarrow> string \<Rightarrow> int \<Rightarrow> row list
   \<Rightarrow> expired_artifact list result" where
  "list_expired stamp rank fault before after_id n t =
     (let n' = (if n \<le> 0 \<or> n > 1000 then 1000 else n);
          candidates = map candidate_of (select_expired rank (stamp before) after_id n' t)
      in case fault of
        None \<Rightarrow> Inr candidates
      | Some (Query_failed e) \<Rightarrow> Inl (Wrap ''list expired artifacts: '' e [])
      | Some (Scan_failed e) \<Rightarrow>
          if candidates = [] then Inr [] else Inl (Wrap ''scan expired artifact: '' e [])
      | Some (Read_failed e) \<Rightarrow> Inl (Wrap ''read expired artifacts: '' e []))"

definition deletes_row :: "(time \<Rightarrow> time) \<Rightarrow> expired_artifact \<Rightarrow> time \<Rightarrow> row \<Rightarrow> bool" where
  "deletes_row stamp c before row \<longleftrightarrow>
     row_id row = ea_id c \<and> row_status row = Done \<and> row_storage row = ''s3''
     \<and> row_artifact row = ea_location c \<and> row_expires_at row = Some (stamp (ea_expires_at c))
     \<and> stamp (ea_expires_at c) \<le> stamp before"

definition delete_expired ::
  "(time \<Rightarrow> time) \<Rightarrow> outcome \<Rightarrow> expired_artifact \<Rightarrow> time \<Rightarrow> row list \<Rightarrow> row list \<times> error option" where
  "delete_expired stamp oc c before t =
     (case exec_statement oc (filter (\<lambda>row. \<not> deletes_row stamp c before row)) t of
        (t', None) \<Rightarrow> (t', None)
      | (t', Some e) \<Rightarrow> (t', Some (Wrap (''delete expired artifact record '' @ ea_id c @ '': '') e [])))"

section \<open>Dragonfly\<close>

datatype redis_value = Json_text json | Plain_text string

type_synonym keyspace = "string \<Rightarrow> (redis_value \<times> int) option"

definition dragonfly_ttl :: "int \<Rightarrow> int" where
  "dragonfly_ttl ttl_seconds = mul64 (if ttl_seconds \<le> 0 then 600 else ttl_seconds) 1000000000"

definition dragonfly_keys :: "int \<Rightarrow> json \<Rightarrow> job_record \<Rightarrow> keyspace \<Rightarrow> keyspace" where
  "dragonfly_keys ttl payload r m =
     (let m1 = m(''downloader:job:'' @ job_id r \<mapsto> (Json_text payload, ttl),
                 ''downloader:status:'' @ job_id r \<mapsto> (Plain_text (status_text (job_status r)), ttl))
      in if cache_key r \<noteq> [] \<and> job_status r = Done
         then m1(''downloader:cache:'' @ cache_key r \<mapsto> (Plain_text (job_id r), ttl)) else m1)"

definition dragonfly_save :: "int \<Rightarrow> outcome \<Rightarrow> job_record \<Rightarrow> keyspace \<Rightarrow> keyspace \<times> error option" where
  "dragonfly_save ttl oc r m =
     (case record_json r of
        Inl e \<Rightarrow> (m, Some e)
      | Inr payload \<Rightarrow> exec_statement oc (dragonfly_keys ttl payload r) m)"

section \<open>Closing and opening\<close>

text \<open>\<open>OpenPostgres\<close>: connecting and creating the table can fail; the table itself is kept if it is
  there. \<open>DragonflySink.Close\<close> joins the writer's report and the client's error.\<close>

definition open_postgres :: "error option \<Rightarrow> error option \<Rightarrow> job_writer result" where
  "open_postgres connect_err migrate_err =
     (case connect_err of
        Some e \<Rightarrow> Inl e
      | None \<Rightarrow> (case migrate_err of Some e \<Rightarrow> Inl e | None \<Rightarrow> Inr new_job_writer))"

definition join_errors :: "error option \<Rightarrow> error option \<Rightarrow> error option" where
  "join_errors a b =
     (case (a, b) of
        (None, None) \<Rightarrow> None
      | (Some e, None) \<Rightarrow> Some (Wrap [] e [])
      | (None, Some e) \<Rightarrow> Some (Wrap [] e [])
      | (Some e, Some e') \<Rightarrow> Some (Wrap [] e (CHR 0x0A # error_text e')))"

definition close_dragonfly :: "job_writer \<Rightarrow> error option \<Rightarrow> error option" where
  "close_dragonfly w client_err = join_errors (close_report w) client_err"

section \<open>What a table shows\<close>

text \<open>The row of each identity, but for the time of its last write.\<close>

definition erased :: "row \<Rightarrow> row" where
  "erased row = row\<lparr>row_updated_at := 0\<rparr>"

definition row_of :: "row list \<Rightarrow> string \<Rightarrow> row option" where
  "row_of t i = map_option erased (find (\<lambda>row. row_id row = i) t)"

definition put_job :: "(time \<Rightarrow> time) \<Rightarrow> job_record \<Rightarrow> (string \<Rightarrow> row option) \<Rightarrow> string \<Rightarrow> row option" where
  "put_job stamp r v =
     v(job_id r \<mapsto> (job_row stamp 0 r)
         \<lparr>row_queued_at := (case v (job_id r) of None \<Rightarrow> stamp (queued_at r)
                            | Some old \<Rightarrow> row_queued_at old)\<rparr>)"

lemma find_map_same:
  "(\<And>x. P (f x) = P x) \<Longrightarrow> find P (map f xs) = map_option f (find P xs)"
  by (induction xs) simp_all

lemma find_append: "find P (xs @ ys) = (case find P xs of None \<Rightarrow> find P ys | Some x \<Rightarrow> Some x)"
  by (induction xs) simp_all

lemma find_row_id: "find (\<lambda>row. row_id row = i) t = Some x \<Longrightarrow> row_id x = i"
  by (auto simp: find_Some_iff)

lemma find_row_some: "\<exists>old\<in>set t. row_id old = i \<Longrightarrow> \<exists>old. find (\<lambda>row. row_id row = i) t = Some old"
  by (metis (mono_tags, lifting) find_None_iff not_None_eq)

lemma job_row_simps [simp]:
  "row_id (job_row stamp now r) = job_id r"
  "(job_row stamp now r)\<lparr>row_queued_at := stamp (queued_at r)\<rparr> = job_row stamp now r"
  by (simp_all add: job_row_def)

lemma erased_job_row:
  "erased (job_row stamp now r) = job_row stamp 0 r"
  "erased ((job_row stamp now r)\<lparr>row_queued_at := q\<rparr>) = (job_row stamp 0 r)\<lparr>row_queued_at := q\<rparr>"
  "row_queued_at (erased row) = row_queued_at row" "row_id (erased row) = row_id row"
  by (simp_all add: erased_def job_row_def)

lemma row_of_upsert: "row_of (upsert_row (job_row stamp now r) t) = put_job stamp r (row_of t)"
proof
  fix i
  let ?g = "\<lambda>old. if row_id old = job_id r
    then (job_row stamp now r)\<lparr>row_queued_at := row_queued_at old\<rparr> else old"
  show "row_of (upsert_row (job_row stamp now r) t) i = put_job stamp r (row_of t) i"
  proof (cases "\<exists>old\<in>set t. row_id old = job_id r")
    case True
    then obtain old where old: "find (\<lambda>row. row_id row = job_id r) t = Some old"
      using find_row_some by blast
    have "find (\<lambda>row. row_id row = i) (map ?g t) = map_option ?g (find (\<lambda>row. row_id row = i) t)"
      by (rule find_map_same) simp
    moreover have "upsert_row (job_row stamp now r) t = map ?g t"
      using True by (simp add: upsert_row_def)
    ultimately have new: "row_of (upsert_row (job_row stamp now r) t) i
        = map_option (\<lambda>x. erased (?g x)) (find (\<lambda>row. row_id row = i) t)"
      by (simp add: row_of_def option.map_comp o_def)
    show ?thesis
    proof (cases "i = job_id r")
      case True
      with new old find_row_id [OF old] show ?thesis
        by (simp add: row_of_def [of t] put_job_def erased_job_row)
    next
      case False
      then have "map_option (\<lambda>x. erased (?g x)) (find (\<lambda>row. row_id row = i) t)
          = map_option erased (find (\<lambda>row. row_id row = i) t)"
        using find_row_id [of i t] by (intro option.map_cong) auto
      with new False show ?thesis by (simp add: row_of_def [of t] put_job_def)
    qed
  next
    case False
    then have "find (\<lambda>row. row_id row = job_id r) t = None" by (simp add: find_None_iff)
    with False show ?thesis
      by (auto simp: row_of_def upsert_row_def put_job_def erased_job_row find_append
          split: option.splits)
  qed
qed

lemma exec_statement_cases:
  "fst (exec_statement oc f t) = t \<or> fst (exec_statement oc f t) = f t"
  "snd (exec_statement oc f t) = None \<Longrightarrow> fst (exec_statement oc f t) = f t"
  by (cases oc; simp add: exec_statement_def)+

lemma upsert_effect:
  "fst (upsert stamp (now, oc) r t) = fst (exec_statement oc (upsert_row (job_row stamp now r)) t)"
  "(snd (upsert stamp (now, oc) r t) = None) =
     (snd (exec_statement oc (upsert_row (job_row stamp now r)) t) = None)"
  by (auto simp: upsert_def split: prod.split option.split)

interpretation postgres: persister "upsert stamp" row_of "put_job stamp" for stamp
proof
  fix f :: "time \<times> outcome" and r d
  obtain now oc where f: "f = (now, oc)" by (cases f)
  show "snd (upsert stamp f r d) = None \<Longrightarrow> row_of (fst (upsert stamp f r d)) = put_job stamp r (row_of d)"
    unfolding f upsert_effect by (simp add: exec_statement_cases(2) row_of_upsert)
  show "row_of (fst (upsert stamp f r d)) = row_of d
      \<or> row_of (fst (upsert stamp f r d)) = put_job stamp r (row_of d)"
    unfolding f upsert_effect
    using exec_statement_cases(1) [of oc "upsert_row (job_row stamp now r)" d]
    by (auto simp: row_of_upsert)
qed

interpretation dragonfly: persister "dragonfly_save ttl" "\<lambda>m. m" "\<lambda>r m. m" for ttl
  by unfold_locales (simp_all add: dragonfly_save_def record_json_def)

end
