(* ===== verification/Api.thy ===== *)
theory Api
  imports Postgres Stream_Client Pipeline Disk_Monitor "HOL-Library.AList"
begin

text \<open>
  Package \<open>internal/api\<close>: the HTTP handlers over the job store, the queue, the disk monitor and the
  artifact store. A handler is a function from the state to the state and the reply; before each call
  that reads or changes the shared state the other goroutines take their turn (\<open>web_pass\<close>). A reply's
  body is the value that is encoded, not its text. The parts of \<open>net/http\<close> the routes use are
  written out: the choice of the pattern, after the path is cleaned.
\<close>

section \<open>Requests, replies, state\<close>

record api_request =
  rq_method :: string
  rq_path :: string
  rq_authorization :: string
  rq_body :: "json result"

datatype reply_body = Empty_body | Json_body json | Served_body served | Text_body string

record reply =
  rp_status :: int
  rp_headers :: "(string \<times> string) list"
  rp_body :: reply_body

text \<open>\<open>as_cancelled\<close> are the contexts whose cancel function a handler has called.\<close>

record api_state =
  as_store :: store
  as_queue :: "string list"
  as_monitor :: monitor
  as_disk :: disk
  as_objects :: bucket
  as_cancelled :: "nat list"

text \<open>What a handler meets: the configuration, the clock by the number of the reading, the identity
  \<open>newID\<close> makes, what \<open>statfs\<close> reports, the file system and the artifact store, the health checks with
  what they answer, the status with which \<open>ServeMux\<close> redirects (releases of Go differ), and the other
  goroutines.\<close>

record 'u api_env =
  web_lib :: "'u url_lib"
  web_config :: config
  web_fmt :: "time \<Rightarrow> string"
  web_clock :: "nat \<Rightarrow> time"
  web_digest :: "cache_input \<Rightarrow> string result"
  web_new_id :: "string result"
  web_stat :: "statfs result"
  web_faults :: faults
  web_client :: s3_client
  web_files :: artifact_store
  web_checks :: "(string \<times> error option) list"
  web_build :: "string \<times> string \<times> string"
  web_moved :: int
  web_pass :: "nat \<Rightarrow> api_state \<Rightarrow> api_state"

section \<open>Writing replies\<close>

definition write_json :: "(string \<times> string) list \<Rightarrow> int \<Rightarrow> json \<Rightarrow> reply" where
  "write_json headers status v =
     \<lparr>rp_status = status, rp_headers = headers @ [(''Content-Type'', ''application/json'')],
      rp_body = Json_body v\<rparr>"

definition write_error :: "(string \<times> string) list \<Rightarrow> int \<Rightarrow> string \<Rightarrow> string \<Rightarrow> reply" where
  "write_error headers status code message =
     write_json headers status (JObj [(''error'', put_string message), (''errorCode'', put_string code)])"

definition response_json :: "response \<Rightarrow> json" where
  "response_json r = JObj
     ([(''id'', put_string (rsp_id r)), (''url'', put_string (rsp_url r)),
       (''status'', put_string (status_text (rsp_status r))), (''durationMs'', put_int (rsp_duration_ms r)),
       (''title'', put_string (rsp_title r))]
      @ omit_empty (rsp_error r = None) ''error'' (put_ptr put_string (rsp_error r))
      @ omit_empty (rsp_error_code r = None) ''errorCode'' (put_ptr put_string (rsp_error_code r))
      @ omit_empty (rsp_artifact_url r = None) ''artifactUrl'' (put_ptr put_string (rsp_artifact_url r))
      @ omit_empty (rsp_artifact_expires_at r = None) ''artifactExpiresAt''
          (put_ptr put_string (rsp_artifact_expires_at r))
      @ omit_empty (rsp_resolved r = None) ''resolved'' (put_ptr resolved_json (rsp_resolved r))
      @ omit_empty (rsp_progress_percent r = None) ''progressPercent'' (put_ptr put_int (rsp_progress_percent r))
      @ omit_empty (rsp_downloaded_bytes r = None) ''downloadedBytes'' (put_ptr put_int (rsp_downloaded_bytes r))
      @ omit_empty (rsp_total_bytes r = None) ''totalBytes'' (put_ptr put_int (rsp_total_bytes r))
      @ omit_empty (rsp_eta_seconds r = None) ''etaSeconds'' (put_ptr put_int (rsp_eta_seconds r))
      @ omit_empty (rsp_speed r = None) ''speedBytesPerSecond'' (put_ptr put_int (rsp_speed r))
      @ omit_empty (rsp_stage r = None) ''stage'' (put_ptr put_string (rsp_stage r))
      @ omit_empty (rsp_queued_at r = None) ''queuedAt'' (put_ptr put_string (rsp_queued_at r))
      @ omit_empty (rsp_started_at r = None) ''startedAt'' (put_ptr put_string (rsp_started_at r))
      @ omit_empty (rsp_finished_at r = None) ''finishedAt'' (put_ptr put_string (rsp_finished_at r))
      @ omit_empty (rsp_queue_wait_ms r = None) ''queueWaitMs'' (put_ptr put_int (rsp_queue_wait_ms r))
      @ omit_empty (rsp_run_time_ms r = None) ''runTimeMs'' (put_ptr put_int (rsp_run_time_ms r))
      @ omit_empty (rsp_token_fetch_ms r = None) ''tokenFetchMs'' (put_ptr put_int (rsp_token_fetch_ms r))
      @ omit_empty (rsp_ytdlp_ms r = None) ''ytdlpMs'' (put_ptr put_int (rsp_ytdlp_ms r))
      @ omit_empty (rsp_upload_ms r = None) ''uploadMs'' (put_ptr put_int (rsp_upload_ms r))
      @ omit_empty (rsp_download_ms r = None) ''downloadMs'' (put_ptr put_int (rsp_download_ms r))
      @ omit_empty (rsp_mux_ms r = None) ''muxMs'' (put_ptr put_int (rsp_mux_ms r))
      @ omit_empty (rsp_total_ms r = None) ''totalMs'' (put_ptr put_int (rsp_total_ms r)))"

section \<open>Creating a job\<close>

text \<open>Decoding a \<open>CreateRequest\<close>. Its options start from their zero value, and so a later \<open>options\<close> entry
  of the same document starts from what an earlier one left; here it starts afresh.\<close>

definition create_request_of_json :: "json \<Rightarrow> (string \<times> options) result" where
  "create_request_of_json j = rbind (object_of j) (\<lambda>es.
     rbind (field es ''url'' as_string []) (\<lambda>url.
     rbind (options_of_json JNull) (\<lambda>zero.
     rbind (field es ''options'' (\<lambda>old v. if v = JNull then Inr old else options_of_json v) zero) (\<lambda>opts.
       Inr (url, opts)))))"

definition insufficient_json :: "capacity \<Rightarrow> json" where
  "insufficient_json cap = JObj
     [(''code'', put_string ''insufficient_storage''), (''errorCode'', put_string ''insufficient_storage''),
      (''error'', put_string ''download storage is below the free-space threshold''),
      (''freeBytes'', put_int (uint (cap_free cap))), (''requiredFreeBytes'', put_int (uint (cap_required cap)))]"

text \<open>From the body to the URL and the options, or the reply that refuses it.\<close>

definition read_create_request :: "'u url_lib \<Rightarrow> json result \<Rightarrow> reply + string \<times> options" where
  "read_create_request lib body =
     (case rbind body create_request_of_json of
        Inl _ \<Rightarrow> Inl (write_error [] 400 ''invalid_json'' ''invalid JSON body'')
      | Inr (url, opts) \<Rightarrow>
          if trim_space url = [] then Inl (write_error [] 400 ''invalid_url'' ''url is required'')
          else (case normalize_watch_url lib (trim_space url) of
                  Inl e \<Rightarrow> Inl (write_error [] 400 ''invalid_url'' (error_text e))
                | Inr normalized \<Rightarrow> Inr (normalized, opts)))"

definition created_json :: "string \<Rightarrow> bool \<Rightarrow> json" where
  "created_json i cached = JObj [(''id'', put_string i), (''cached'', JBool cached)]"

text \<open>What follows \<open>Create\<close>: a new job is handed to the workers, or failed when their queue is full.\<close>

definition hand_over :: "'u api_env \<Rightarrow> job_record \<Rightarrow> bool \<Rightarrow> bool \<Rightarrow> api_state \<Rightarrow> api_state \<times> reply" where
  "hand_over srv r cached created st =
     (if created
      then (case enqueue (web_config srv) (job_id r) (as_queue st) of
              (q, None) \<Rightarrow> (st\<lparr>as_queue := q\<rparr>, write_json [] 201 (created_json (job_id r) cached))
            | (q, Some e) \<Rightarrow>
                (let st' = web_pass srv 3 (st\<lparr>as_queue := q\<rparr>)
                 in (st'\<lparr>as_store := fail (web_fmt srv) (web_clock srv 3) (web_clock srv 4) (job_id r)
                            ''queue_full'' e (as_store st')\<rparr>,
                     write_error [] 429 ''queue_full'' (error_text e))))
      else (st, write_json [] 201 (created_json (job_id r) cached)))"

definition create_job :: "'u api_env \<Rightarrow> api_request \<Rightarrow> api_state \<Rightarrow> api_state \<times> reply" where
  "create_job srv rq st =
     (let st0 = web_pass srv 0 st
      in case check (web_stat srv) (as_monitor st0) of
        Inl e \<Rightarrow> (st0, write_error [] 503 ''storage_check_failed'' (error_text e))
      | Inr cap \<Rightarrow>
          if \<not> cap_available cap then (st0, write_json [] 507 (insufficient_json cap))
          else (case read_create_request (web_lib srv) (rq_body rq) of
            Inl rp \<Rightarrow> (st0, rp)
          | Inr (url, opts) \<Rightarrow>
              (let st1 = web_pass srv 1 st0
               in case create (web_digest srv) (web_fmt srv) (web_clock srv 0) (web_clock srv 1) (web_clock srv 2)
                         (web_new_id srv) url opts (rq_authorization rq) (as_store st1) of
                    (s', Inl e) \<Rightarrow> (st1\<lparr>as_store := s'\<rparr>, write_error [] 500 ''create_failed'' (error_text e))
                  | (s', Inr (r, cached, created)) \<Rightarrow>
                      hand_over srv r cached created (web_pass srv 2 (st1\<lparr>as_store := s'\<rparr>)))))"

section \<open>The other handlers of a job\<close>

definition not_found :: "string \<Rightarrow> reply" where
  "not_found message = write_error [] 404 ''not_found'' message"

definition get_job_reply :: "'u api_env \<Rightarrow> string \<Rightarrow> api_state \<Rightarrow> api_state \<times> reply" where
  "get_job_reply srv i st =
     (let st0 = web_pass srv 0 st
      in (st0, case response_of (web_fmt srv) (web_clock srv 0) i (as_store st0) of
                 None \<Rightarrow> not_found ''job not found''
               | Some rsp \<Rightarrow> write_json [] 200 (response_json rsp)))"

definition cancel_reply :: "'u api_env \<Rightarrow> string \<Rightarrow> api_state \<Rightarrow> api_state \<times> reply" where
  "cancel_reply srv i st =
     (let st0 = web_pass srv 0 st
      in case cancel (web_fmt srv) (web_clock srv 0) (web_clock srv 1) i (as_store st0) of
           (s', ok, fn) \<Rightarrow>
             (let st1 = st0\<lparr>as_store := s',
                            as_cancelled := as_cancelled st0 @ (case fn of None \<Rightarrow> [] | Some c \<Rightarrow> [c])\<rparr>
              in if ok
                 then (st1, write_json [] 202 (JObj [(''status'', put_string ''cancelled'')]))
                 else (let st2 = web_pass srv 1 st1
                       in (st2, case get_job i (as_store st2) of
                                  Some _ \<Rightarrow> write_error [] 409 ''not_cancellable'' ''job is not cancellable''
                                | None \<Rightarrow> not_found ''job not found''))))"

text \<open>The artifact is removed from the store the program is configured with, whatever the record says.\<close>

definition delete_reply :: "'u api_env \<Rightarrow> string \<Rightarrow> api_state \<Rightarrow> api_state \<times> reply" where
  "delete_reply srv i st =
     (let st0 = web_pass srv 0 st
      in case delete (web_fmt srv) (web_clock srv 0) i (as_store st0) of
           (s', None) \<Rightarrow>
             (let st1 = web_pass srv 1 (st0\<lparr>as_store := s'\<rparr>)
              in (st1, case get_job i (as_store st1) of
                         Some r \<Rightarrow> if job_status r = Running
                                   then write_error [] 409 ''running'' ''job is running''
                                   else not_found ''job not found''
                       | None \<Rightarrow> not_found ''job not found''))
         | (s', Some r) \<Rightarrow>
             (let st1 = web_pass srv 1 (st0\<lparr>as_store := s'\<rparr>);
                  sv = \<lparr>sv_backend = storage_backend r, sv_location = artifact r, sv_expires = None\<rparr>;
                  st2 = (if artifact r = [] then st1
                         else case store_delete (web_faults srv) (web_client srv) (web_files srv) sv
                                     (as_disk st1) (as_objects st1) of
                                (d', ob', _) \<Rightarrow> st1\<lparr>as_disk := d', as_objects := ob'\<rparr>)
              in (st2, \<lparr>rp_status = 204, rp_headers = [], rp_body = Empty_body\<rparr>)))"

definition served_status :: "served \<Rightarrow> int" where
  "served_status s = (case s of File _ \<Rightarrow> 200 | Redirect _ _ \<Rightarrow> 302)"

definition served_headers :: "served \<Rightarrow> (string \<times> string) list" where
  "served_headers s =
     (case s of
        File _ \<Rightarrow> []
      | Redirect url proxied \<Rightarrow>
          (if proxied then [(''X-TypeType-Artifact-Proxy'', ''1'')] else []) @ [(''Location'', url)])"

definition artifact_reply :: "'u api_env \<Rightarrow> string \<Rightarrow> api_state \<Rightarrow> api_state \<times> reply" where
  "artifact_reply srv i st =
     (let st0 = web_pass srv 0 st
      in case get_job i (as_store st0) of
           None \<Rightarrow> (st0, not_found ''job not found'')
         | Some r \<Rightarrow>
             if job_status r \<noteq> Done \<or> artifact r = []
             then (st0, write_error [] 409 ''artifact_not_ready'' ''artifact is not ready'')
             else if artifact_expired r (web_clock srv 0) then (st0, not_found ''artifact expired'')
             else
               (let name = (case resolved r of None \<Rightarrow> [] | Some res \<Rightarrow> res_file_name res);
                    headers = (if name \<noteq> []
                      then [(''Content-Disposition'', ''attachment; filename=\"'' @ name @ ''\"'')] else []);
                    sv = \<lparr>sv_backend = storage_backend r, sv_location = artifact r, sv_expires = None\<rparr>;
                    st1 = web_pass srv 1 st0
                in (st1, case store_serve (web_client srv) (web_files srv) sv name (as_disk st1) of
                           Inl _ \<Rightarrow> write_error headers 404 ''artifact_missing'' ''artifact missing''
                         | Inr s \<Rightarrow> \<lparr>rp_status = served_status s, rp_headers = headers @ served_headers s,
                                     rp_body = Served_body s\<rparr>)))"

section \<open>Events\<close>

datatype event_choice = Client_gone | Heartbeat | Take_update

datatype event_frame = Keep_alive | Progress json

text \<open>The loop of \<open>events\<close>: which case of the \<open>select\<close> is taken is given; a case is taken only when it is
  ready, so a \<open>Take_update\<close> waits for the buffer to fill. The loop is still running when the choices
  are used up before the client goes. \<open>Marshal\<close> of a response does not fail.\<close>

fun event_loop ::
  "'u api_env \<Rightarrow> nat \<Rightarrow> nat \<Rightarrow> event_choice list \<Rightarrow> api_state \<Rightarrow> api_state \<times> event_frame list \<times> bool" where
  "event_loop srv c k [] st = (st, [], False)"
| "event_loop srv c k (Client_gone # choices) st = (web_pass srv k st, [], True)"
| "event_loop srv c k (Heartbeat # choices) st =
     (case event_loop srv c (Suc k) choices (web_pass srv k st) of
        (st', frames, over) \<Rightarrow> (st', Keep_alive # frames, over))"
| "event_loop srv c k (Take_update # choices) st =
     (let st0 = web_pass srv k st
      in case receive c (as_store st0) of
           None \<Rightarrow> event_loop srv c (Suc k) choices st0
         | Some (s', rsp) \<Rightarrow>
             (case event_loop srv c (Suc k) choices (st0\<lparr>as_store := s'\<rparr>) of
                (st', frames, over) \<Rightarrow> (st', Progress (response_json rsp) # frames, over)))"

definition event_headers :: "(string \<times> string) list" where
  "event_headers =
     [(''Content-Type'', ''text/event-stream''), (''Cache-Control'', ''no-cache''),
      (''Connection'', ''keep-alive''), (''X-Accel-Buffering'', ''no'')]"

datatype event_reply = Refused reply | Streaming "event_frame list" bool

text \<open>\<open>None\<close> while \<open>Subscribe\<close> blocks. The writer of \<open>net/http\<close> can flush.\<close>

definition events_reply ::
  "'u api_env \<Rightarrow> bool \<Rightarrow> event_choice list \<Rightarrow> string \<Rightarrow> api_state \<Rightarrow> (api_state \<times> event_reply) option" where
  "events_reply srv can_flush choices i st =
     (if \<not> can_flush
      then Some (st, Refused (write_error [] 500 ''sse_unsupported'' ''streaming unsupported''))
      else
        (let st0 = web_pass srv 0 st
         in case subscribe (web_fmt srv) (web_clock srv 0) i (as_store st0) of
              None \<Rightarrow> None
            | Some (s', None) \<Rightarrow> Some (st0\<lparr>as_store := s'\<rparr>, Refused (not_found ''job not found''))
            | Some (s', Some c) \<Rightarrow>
                (case event_loop srv c 1 choices (st0\<lparr>as_store := s'\<rparr>) of
                   (st1, frames, over) \<Rightarrow>
                     Some (if over then st1\<lparr>as_store := unsubscribe i c (as_store st1)\<rparr> else st1,
                           Streaming frames over))))"

section \<open>Health and version\<close>

definition health_reply :: reply where
  "health_reply = write_json [] 200
     (JObj [(''status'', put_string ''ok''), (''service'', put_string ''typetype-downloader'')])"

definition health_text :: "int \<Rightarrow> string" where
  "health_text status = (if status = 200 then ''ok'' else ''degraded'')"

definition note_check :: "(string \<times> string) list \<times> int \<Rightarrow> string \<times> error option \<Rightarrow> (string \<times> string) list \<times> int" where
  "note_check acc chk =
     (case snd chk of
        Some e \<Rightarrow> (AList.update (fst chk) (error_text e) (fst acc), 503)
      | None \<Rightarrow> (AList.update (fst chk) ''ok'' (fst acc), snd acc))"

definition health_deep :: "'u api_env \<Rightarrow> api_state \<Rightarrow> api_state \<times> reply" where
  "health_deep srv st =
     (let st0 = web_pass srv 0 st;
          checks = web_checks srv @ [(''disk'', health (web_stat srv) (as_monitor st0))];
          (found, status) = foldl note_check ([(''service'', ''ok'')], 200) checks
      in (st0, write_json [] status
            (JObj [(''status'', put_string (health_text status)),
                   (''checks'', JObj (map (\<lambda>(k, v). (k, put_string v)) found))])))"

definition short_revision :: "string \<Rightarrow> string" where
  "short_revision revision = (if length revision \<le> 12 then revision else take 12 revision)"

definition version_reply :: "'u api_env \<Rightarrow> reply" where
  "version_reply srv =
     (case web_build srv of (version, revision, build_time) \<Rightarrow>
        write_json [] 200 (JObj
          [(''service'', put_string ''downloader''), (''version'', put_string version),
           (''revision'', put_string revision), (''shortRevision'', put_string (short_revision revision)),
           (''buildTime'', put_string build_time)]))"

section \<open>Routes\<close>

definition parse_job_path :: "string \<Rightarrow> (string \<times> string) option" where
  "parse_job_path path =
     (case split_at (CHR ''/'') (trim_chars ''/'' (trim_prefix path ''/jobs/'')) of
        [] \<Rightarrow> None
      | [] # _ \<Rightarrow> None
      | [i] \<Rightarrow> Some (i, [])
      | [i, action] \<Rightarrow> Some (i, action)
      | _ \<Rightarrow> None)"

text \<open>What a request comes to: a reply, or a stream of events.\<close>

datatype routed = Reply "api_state \<times> reply" | Stream string

definition method_not_allowed :: "(string \<times> string) list \<Rightarrow> reply" where
  "method_not_allowed headers = write_error headers 405 ''method_not_allowed'' ''method not allowed''"

definition jobs_route :: "'u api_env \<Rightarrow> api_request \<Rightarrow> api_state \<Rightarrow> api_state \<times> reply" where
  "jobs_route srv rq st =
     (if rq_path rq \<noteq> ''/jobs'' then (st, not_found ''not found'')
      else if rq_method rq \<noteq> ''POST'' then (st, method_not_allowed [(''Allow'', ''POST'')])
      else create_job srv rq st)"

definition job_by_id :: "'u api_env \<Rightarrow> api_request \<Rightarrow> api_state \<Rightarrow> routed" where
  "job_by_id srv rq st =
     (case parse_job_path (rq_path rq) of
        None \<Rightarrow> Reply (st, not_found ''not found'')
      | Some (i, action) \<Rightarrow>
          if action = [] \<and> rq_method rq = ''GET'' then Reply (get_job_reply srv i st)
          else if action = [] \<and> rq_method rq = ''DELETE'' then Reply (delete_reply srv i st)
          else if action = ''events'' \<and> rq_method rq = ''GET'' then Stream i
          else if action = ''artifact'' \<and> rq_method rq = ''GET'' then Reply (artifact_reply srv i st)
          else if action = ''cancel'' \<and> rq_method rq = ''POST'' then Reply (cancel_reply srv i st)
          else Reply (st, method_not_allowed []))"

text \<open>\<open>ServeMux\<close> first sends a client whose path is not clean to the clean one (with the last slash kept).
  The patterns of \<open>Routes\<close> are exact, but for the one that ends in a slash.\<close>

definition mux_path :: "string \<Rightarrow> string" where
  "mux_path p =
     (let q = (if has_prefix p ''/'' then p else ''/'' @ p); c = clean_path q
      in if has_suffix q ''/'' \<and> c \<noteq> ''/'' then c @ ''/'' else c)"

definition routes :: "'u api_env \<Rightarrow> api_request \<Rightarrow> api_state \<Rightarrow> routed" where
  "routes srv rq st =
     (let p = rq_path rq
      in if mux_path p \<noteq> p
         then Reply (st, \<lparr>rp_status = web_moved srv, rp_headers = [(''Location'', mux_path p)], rp_body = Empty_body\<rparr>)
         else if p = ''/health'' then Reply (st, health_reply)
         else if p = ''/health/deep'' then Reply (health_deep srv st)
         else if p = ''/version'' then Reply (st, version_reply srv)
         else if p = ''/jobs'' then Reply (jobs_route srv rq st)
         else if has_prefix p ''/jobs/'' then job_by_id srv rq st
         else Reply (st, \<lparr>rp_status = 404, rp_headers = [(''Content-Type'', ''text/plain; charset=utf-8'')],
                          rp_body = Text_body (''404 page not found'' @ [CHR 0x0A])\<rparr>))"

end
