(* ===== verification/Persistence.thy ===== *)
theory Persistence
  imports Postgres Job_Store_Spec
begin

text \<open>
  The job store, the writer and the database together: the table follows the store, a shutdown that
  reports nothing leaves every job in it, and a restart brings the jobs back, the deleted ones too.
\<close>

section \<open>The table follows the store\<close>

definition sink_log :: "nat \<Rightarrow> store \<Rightarrow> job_record list" where
  "sink_log k s = map snd (filter (\<lambda>(j, r). j = k) (saves s))"

definition stored_log ::
  "(time \<Rightarrow> time) \<Rightarrow> job_record list \<Rightarrow> (string \<Rightarrow> row option) \<Rightarrow> string \<Rightarrow> row option" where
  "stored_log stamp rs v = foldl (\<lambda>v r. put_job stamp r v) v rs"

text \<open>The abstraction: a table mirrors a store when each job of the store has its row. A table may
  hold more.\<close>

definition mirrors :: "(time \<Rightarrow> time) \<Rightarrow> (string \<Rightarrow> row option) \<Rightarrow> store \<Rightarrow> bool" where
  "mirrors stamp v s \<longleftrightarrow>
     (\<forall>i r. jobs s i = Some r \<longrightarrow> job_id r = i \<and> v i = Some (job_row stamp 0 r))"

text \<open>The operations of the store, each run to its end before the next. \<open>used\<close> are the identities the
  database knew at the start; a new one is not among them, nor among those saved since.\<close>

inductive whole_op :: "(time \<Rightarrow> string) \<Rightarrow> string set \<Rightarrow> store \<Rightarrow> store \<Rightarrow> bool" for fmt used where
  op_create: "i \<notin> used \<Longrightarrow> i \<notin> job_id ` snd ` set (saves s) \<Longrightarrow>
     whole_op fmt used s (fst (create digest fmt t1 t2 t3 (Inr i) url opts auth s))"
| op_update: "job_mutation f \<Longrightarrow> whole_op fmt used s (fst (update fmt t i f s))"
| op_delete: "whole_op fmt used s (fst (delete fmt t i s))"
| op_expire: "whole_op fmt used s (fst (remove_expired_artifact fmt t i location now s))"
| op_subscribe: "subscribe fmt t i s = Some (s', c) \<Longrightarrow> whole_op fmt used s s'"
| op_unsubscribe: "whole_op fmt used s (unsubscribe i c s)"
| op_receive: "receive c s = Some (s', resp) \<Longrightarrow> whole_op fmt used s s'"

lemma mutation_keeps_queued: "job_mutation f \<Longrightarrow> queued_at (f r) = queued_at r"
  by (induction rule: job_mutation.induct)
     (simp_all add: start_job_def resolve_job_def done_job_def fail_job_def cancel_job_def Let_def)

lemma sink_log_notify:
  "k < sink_count s \<Longrightarrow> sink_log k (notify r s) = sink_log k s @ [r]"
proof -
  assume k: "k < sink_count s"
  have "filter (\<lambda>(j, r'). j = k) (map (\<lambda>j. (j, r)) [0..<n]) = (if k < n then [(k, r)] else [])" for n
    by (induction n) auto
  with k show ?thesis by (simp add: sink_log_def notify_def)
qed

lemma sink_log_cong: "saves s' = saves s \<Longrightarrow> sink_log k s' = sink_log k s"
  by (simp add: sink_log_def)

lemma stored_log_snoc: "stored_log stamp (rs @ [r]) v = put_job stamp r (stored_log stamp rs v)"
  by (simp add: stored_log_def)

lemma stored_log_dom: "stored_log stamp rs v i \<noteq> None \<Longrightarrow> v i \<noteq> None \<or> i \<in> job_id ` set rs"
  by (induction rs rule: rev_induct) (auto simp: stored_log_def put_job_def split: if_splits)

lemma sink_log_ids: "job_id ` set (sink_log k s) \<subseteq> job_id ` snd ` set (saves s)"
  by (auto simp: sink_log_def)

text \<open>Two shapes of a step: nothing is saved and no job appears or changes; or one job is put, both in
  the store and in the log.\<close>

lemma mirrors_fewer:
  "mirrors stamp v s \<Longrightarrow> (\<And>i r. jobs s' i = Some r \<Longrightarrow> jobs s i = Some r) \<Longrightarrow> mirrors stamp v s'"
  by (auto simp: mirrors_def)

lemma mirrors_put:
  assumes "mirrors stamp v s"
    and "\<And>i q. jobs s' i = Some q \<Longrightarrow> i \<noteq> job_id r \<Longrightarrow> jobs s i = Some q"
    and "jobs s' (job_id r) = Some r"
    and "\<And>old. v (job_id r) = Some old \<Longrightarrow> row_queued_at old = stamp (queued_at r)"
  shows "mirrors stamp (put_job stamp r v) s'"
proof -
  have "put_job stamp r v (job_id r) = Some (job_row stamp 0 r)"
    using assms(4) by (auto simp: put_job_def split: option.split)
  moreover have "put_job stamp r v i = v i" if "i \<noteq> job_id r" for i
    using that by (simp add: put_job_def)
  ultimately show ?thesis
    using assms(1-3) unfolding mirrors_def by (metis option.inject)
qed

lemma mirrors_create:
  assumes m: "mirrors stamp (stored_log stamp (sink_log k s) v0) s" and k: "k < sink_count s"
    and dom: "dom v0 \<subseteq> used" and new: "i \<notin> used" "i \<notin> job_id ` snd ` set (saves s)"
    and that: "s' = fst (create digest fmt t1 t2 t3 (Inr i) url opts auth s)"
  shows "mirrors stamp (stored_log stamp (sink_log k s') v0) s'"
proof -
  obtain kr opts' where ck: "cache_key_of digest url opts auth = (kr, opts')" by fastforce
  show ?thesis
  proof (cases kr)
  case (Inl e)
  then have "s' = s" using that ck by (simp add: create_def)
  with m show ?thesis by simp
next
  case (Inr key)
  let ?rec = "new_record i key url auth opts' t1"
  obtain s1 oc where cl: "create_locked t2 ?rec s = (s1, oc)" by fastforce
  show ?thesis
  proof (cases oc)
    case (Existing r)
    with cl have "s1 = s" using create_locked_existing by blast
    with Existing that cl ck Inr have "s' = s" by (simp add: create_def Let_def)
    with m show ?thesis by simp
  next
    case (Created x)
    let ?s2 = "case x of None \<Rightarrow> s1 | Some j \<Rightarrow> broadcast fmt t3 j s1"
    have s': "s' = notify ?rec (broadcast fmt t3 i ?s2)"
      using Created that cl ck Inr by (simp add: create_def Let_def)
    have s1: "jobs s1 i = Some ?rec" "\<And>j q. jobs s1 j = Some q \<Longrightarrow> j \<noteq> i \<Longrightarrow> jobs s j = Some q"
        "saves s1 = saves s" "sink_count s1 = sink_count s"
      using cl Created by (auto simp: create_locked_def remove_job_def remove_cache_def Let_def
          split: option.splits if_splits)
    have fresh: "stored_log stamp (sink_log k s) v0 i = None"
      using stored_log_dom [of stamp "sink_log k s" v0 i] dom new sink_log_ids [of k s] by blast
    have log: "sink_log k s' = sink_log k s @ [?rec]"
      unfolding s' using k s1 by (subst sink_log_notify) (auto simp: sink_log_def split: option.split)
    have js: "jobs s' = jobs s1" unfolding s' by (simp split: option.split)
    have id: "job_id ?rec = i" by (simp add: new_record_def)
    show ?thesis unfolding log stored_log_snoc
    proof (rule mirrors_put [OF m])
      show "jobs s j = Some q" if "jobs s' j = Some q" "j \<noteq> job_id ?rec" for j q
        using that s1 id js by simp
      show "jobs s' (job_id ?rec) = Some ?rec" using s1 id js by simp
      show "row_queued_at old = stamp (queued_at ?rec)"
        if "stored_log stamp (sink_log k s) v0 (job_id ?rec) = Some old" for old
        using that fresh id by simp
    qed
  qed
  qed
qed

lemma mirrors_update:
  assumes m: "mirrors stamp (stored_log stamp (sink_log k s) v0) s" and k: "k < sink_count s"
    and f: "job_mutation f"
  shows "mirrors stamp (stored_log stamp (sink_log k (fst (update fmt t i f s))) v0) (fst (update fmt t i f s))"
proof (cases "jobs s i")
  case None
  then have "fst (update fmt t i f s) = s" by (simp add: update_def update_locked_def)
  with m show ?thesis by simp
next
  case (Some r)
  let ?s1 = "s\<lparr>jobs := (jobs s)(i \<mapsto> f r)\<rparr>"
  have u: "fst (update fmt t i f s) = notify (f r) (broadcast fmt t i ?s1)"
    using Some by (simp add: update_def update_locked_def)
  have row: "job_id r = i" "stored_log stamp (sink_log k s) v0 i = Some (job_row stamp 0 r)"
    using m Some by (simp_all add: mirrors_def)
  have id: "job_id (f r) = i" using mutation_keeps [OF f] row by simp
  have log: "sink_log k (fst (update fmt t i f s)) = sink_log k s @ [f r]"
    unfolding u using k by (subst sink_log_notify) (simp_all add: sink_log_def)
  show ?thesis unfolding log stored_log_snoc
  proof (rule mirrors_put [OF m])
    show "row_queued_at old = stamp (queued_at (f r))"
      if "stored_log stamp (sink_log k s) v0 (job_id (f r)) = Some old" for old
      using that row id mutation_keeps_queued [OF f] by (auto simp: job_row_def)
  qed (auto simp: u id split: if_splits)
qed

lemma whole_op_removes:
  assumes "saves s' = saves s" and "\<And>i r. jobs s' i = Some r \<Longrightarrow> jobs s i = Some r"
    and "mirrors stamp (stored_log stamp (sink_log k s) v0) s"
  shows "mirrors stamp (stored_log stamp (sink_log k s') v0) s'"
  using mirrors_fewer [OF assms(3), of s'] assms(1,2) sink_log_cong [of s' s k] by simp

lemma forget_saves [simp]: "saves (forget i r s) = saves s"
  by (simp add: forget_def remove_job_def remove_cache_def Let_def)

lemma delete_frame:
  "saves (fst (delete fmt t i s)) = saves s"
  "sink_count (fst (delete fmt t i s)) = sink_count s"
  "jobs (fst (delete fmt t i s)) j = Some r \<Longrightarrow> jobs s j = Some r"
  by (auto simp: delete_def delete_finish_def delete_locked_def forget_def remove_job_def
      remove_cache_def Let_def split: option.splits if_splits)

lemma expire_frame:
  "saves (fst (remove_expired_artifact fmt t i location now s)) = saves s"
  "sink_count (fst (remove_expired_artifact fmt t i location now s)) = sink_count s"
  "jobs (fst (remove_expired_artifact fmt t i location now s)) j = Some r \<Longrightarrow> jobs s j = Some r"
  by (auto simp: remove_expired_artifact_def remove_expired_locked_def forget_def remove_job_def
      remove_cache_def Let_def split: option.splits if_splits)

lemma subscribe_frame:
  "subscribe fmt t i s = Some (s', c) \<Longrightarrow>
     saves s' = saves s \<and> sink_count s' = sink_count s \<and> jobs s' = jobs s"
  by (auto simp: subscribe_def subscribe_locked_def subscribe_send_def Let_def
      split: option.splits if_splits)

lemma unsubscribe_frame:
  "saves (unsubscribe i c s) = saves s" "sink_count (unsubscribe i c s) = sink_count s"
  "jobs (unsubscribe i c s) = jobs s"
  by (auto simp: unsubscribe_def Let_def split: option.splits)

lemma receive_frame:
  "receive c s = Some (s', resp) \<Longrightarrow>
     saves s' = saves s \<and> sink_count s' = sink_count s \<and> jobs s' = jobs s"
  by (auto simp: receive_def split: list.splits)

lemma whole_op_mirrors:
  assumes "whole_op fmt used s s'" and "mirrors stamp (stored_log stamp (sink_log k s) v0) s"
    and "k < sink_count s" and "dom v0 \<subseteq> used"
  shows "mirrors stamp (stored_log stamp (sink_log k s') v0) s'"
  using assms
proof (induction rule: whole_op.induct)
  case op_create
  show ?case by (rule mirrors_create [OF op_create(3,4,5,1,2) refl])
next
  case op_update
  show ?case by (rule mirrors_update [OF op_update(2,3,1)])
next
  case op_delete
  show ?case by (rule whole_op_removes [OF delete_frame(1,3) op_delete(1)])
next
  case op_expire
  show ?case by (rule whole_op_removes [OF expire_frame(1,3) op_expire(1)])
next
  case (op_subscribe t i s s' c)
  with subscribe_frame [OF op_subscribe(1)] show ?case
    by (intro whole_op_removes [OF _ _ op_subscribe(2)]) simp_all
next
  case op_unsubscribe
  show ?case by (rule whole_op_removes [OF _ _ op_unsubscribe(1)]) (simp_all add: unsubscribe_frame)
next
  case (op_receive c s s' resp)
  with receive_frame [OF op_receive(1)] show ?case
    by (intro whole_op_removes [OF _ _ op_receive(2)]) simp_all
qed

lemma create_sinks: "sink_count (fst (create digest fmt t1 t2 t3 new url opts auth s)) = sink_count s"
proof -
  have locked: "sink_count (fst (create_locked t rec s)) = sink_count s" for t rec
    by (simp add: create_locked_def remove_job_def remove_cache_def Let_def split: option.split)
  obtain kr opts' where ck: "cache_key_of digest url opts auth = (kr, opts')" by fastforce
  show ?thesis
  proof (cases kr)
    case (Inl e)
    with ck show ?thesis by (simp add: create_def)
  next
    case key: (Inr key)
    show ?thesis
    proof (cases new)
      case (Inl e)
      with ck key show ?thesis by (simp add: create_def)
    next
      case (Inr i)
      obtain s1 oc where cl: "create_locked t2 (new_record i key url auth opts' t1) s = (s1, oc)"
        by fastforce
      with locked [of t2 "new_record i key url auth opts' t1"] have "sink_count s1 = sink_count s" by simp
      with ck key Inr cl show ?thesis
        by (cases oc) (simp_all add: create_def Let_def split: option.split)
    qed
  qed
qed

lemma whole_op_sinks: "whole_op fmt used s s' \<Longrightarrow> sink_count s' = sink_count s"
  by (induction rule: whole_op.induct)
     (simp_all add: create_sinks delete_frame(2) expire_frame(2) subscribe_frame unsubscribe_frame receive_frame
       update_def update_locked_def split: option.split)

lemma whole_ops_mirror:
  assumes "(whole_op fmt used)\<^sup>*\<^sup>* s0 s" and "mirrors stamp v0 s0" and "saves s0 = []"
    and "k < sink_count s0" and "dom v0 \<subseteq> used"
  shows "mirrors stamp (stored_log stamp (sink_log k s) v0) s \<and> k < sink_count s"
  using assms(1)
proof (induction rule: rtranclp_induct)
  case base
  with assms show ?case by (simp add: sink_log_def stored_log_def)
next
  case (step s s')
  with assms(5) whole_op_mirrors whole_op_sinks show ?case by metis
qed

section \<open>Reading the jobs back\<close>

definition clean_record :: "job_record \<Rightarrow> bool" where
  "clean_record r \<longleftrightarrow> clean_options (job_options r) \<and> clean_progress (job_progress r)
     \<and> pred_option clean_resolved (resolved r)"

text \<open>What a restart knows of a job: its header is not stored, its cancel function cannot be, and its
  times come back as the database keeps them.\<close>

definition persisted :: "(time \<Rightarrow> time) \<Rightarrow> job_record \<Rightarrow> job_record" where
  "persisted stamp r = r
     \<lparr>authorization := [], expires_at := map_option stamp (expires_at r), queued_at := stamp (queued_at r),
      started_at := map_option stamp (started_at r), finished_at := map_option stamp (finished_at r),
      cancel_fn := None\<rparr>"

lemma persisted_queued: "(persisted stamp r)\<lparr>queued_at := stamp (queued_at r)\<rparr> = persisted stamp r"
  by (simp add: persisted_def)

lemma scan_job_row:
  "clean_record r \<Longrightarrow> scan_record ((job_row stamp now r)\<lparr>row_queued_at := q\<rparr>) =
     Inr ((persisted stamp r)\<lparr>queued_at := q\<rparr>)"
proof -
  assume ok: "clean_record r"
  have res: "(case put_ptr resolved_json (resolved r) of JNull \<Rightarrow> Inr None
      | j \<Rightarrow> rbind (resolved_of_json j) (\<lambda>res. Inr (Some res))) = Inr (resolved r)"
  proof (cases "resolved r")
    case None
    then show ?thesis by (simp add: put_ptr_def)
  next
    case (Some x)
    with ok have "resolved_of_json (resolved_json x) = Inr x"
      by (simp add: clean_record_def resolved_round_trip)
    moreover obtain es where "resolved_json x = JObj es" by (simp add: resolved_json_def)
    ultimately show ?thesis by (simp add: Some put_ptr_def)
  qed
  from ok have "options_of_json (options_json (job_options r)) = Inr (job_options r)"
    and "progress_of_json (progress_json (job_progress r)) = Inr (job_progress r)"
    by (simp_all add: clean_record_def options_round_trip progress_round_trip)
  with res show ?thesis by (simp add: scan_record_def job_row_def persisted_def)
qed

text \<open>A table the program alone has written.\<close>

definition written_row :: "(time \<Rightarrow> time) \<Rightarrow> row \<Rightarrow> bool" where
  "written_row stamp row \<longleftrightarrow>
     (\<exists>r now q. clean_record r \<and> row = (job_row stamp now r)\<lparr>row_queued_at := q\<rparr>)"

definition table_ok :: "(time \<Rightarrow> time) \<Rightarrow> row list \<Rightarrow> bool" where
  "table_ok stamp t \<longleftrightarrow>
     distinct (map row_id t) \<and> [] \<notin> set (map row_id t) \<and> (\<forall>row\<in>set t. written_row stamp row)"

lemma written_job_row: "clean_record r \<Longrightarrow> written_row stamp (job_row stamp now r)"
  unfolding written_row_def by (intro exI [of _ r] exI [of _ now] exI [of _ "stamp (queued_at r)"]) simp

lemma upsert_row_ids:
  "map row_id (upsert_row new t) =
     (if row_id new \<in> row_id ` set t then map row_id t else map row_id t @ [row_id new])"
proof (cases "row_id new \<in> row_id ` set t")
  case True
  then have "\<exists>old\<in>set t. row_id old = row_id new" by force
  moreover have "map row_id (map (\<lambda>old. if row_id old = row_id new
      then new\<lparr>row_queued_at := row_queued_at old\<rparr> else old) t) = map row_id t" by simp
  ultimately show ?thesis using True by (simp only: upsert_row_def if_True)
next
  case False
  then have "\<not> (\<exists>old\<in>set t. row_id old = row_id new)" by (metis imageI)
  with False show ?thesis by (simp add: upsert_row_def)
qed

lemma upsert_row_rows:
  assumes "row \<in> set (upsert_row new t)"
  shows "row \<in> set t \<or> row = new \<or> (\<exists>q. row = new\<lparr>row_queued_at := q\<rparr>)"
proof (cases "\<exists>old\<in>set t. row_id old = row_id new")
  case True
  with assms obtain old where "old \<in> set t"
    and "row = (if row_id old = row_id new then new\<lparr>row_queued_at := row_queued_at old\<rparr> else old)"
    by (auto simp only: upsert_row_def if_True set_map image_iff)
  then show ?thesis by (cases "row_id old = row_id new") auto
next
  case False
  with assms show ?thesis by (auto simp: upsert_row_def)
qed

lemma table_ok_upsert:
  assumes "table_ok stamp t" and "clean_record r" and "job_id r \<noteq> []"
  shows "table_ok stamp (upsert_row (job_row stamp now r) t)"
proof -
  have "written_row stamp row" if row: "row \<in> set (upsert_row (job_row stamp now r) t)" for row
  proof -
    consider "row \<in> set t" | q where "row = (job_row stamp now r)\<lparr>row_queued_at := q\<rparr>"
      | "row = job_row stamp now r"
      using upsert_row_rows [OF row] by blast
    then show ?thesis
    proof cases
      case 1
      with assms(1) show ?thesis by (simp add: table_ok_def)
    next
      case (2 q)
      with assms(2) show ?thesis unfolding written_row_def by blast
    next
      case 3
      with assms(2) show ?thesis by (simp add: written_job_row)
    qed
  qed
  moreover have "distinct (map row_id (upsert_row (job_row stamp now r) t))"
    and "[] \<notin> set (map row_id (upsert_row (job_row stamp now r) t))"
    using assms unfolding upsert_row_ids table_ok_def by (auto simp: image_iff)
  ultimately show ?thesis by (simp add: table_ok_def)
qed

definition loaded :: "row \<Rightarrow> job_record" where
  "loaded row = (case scan_record row of Inr r \<Rightarrow> r | Inl _ \<Rightarrow> undefined)"

lemma scan_written:
  assumes "written_row stamp row"
  shows "scan_record row = Inr (loaded row) \<and> job_id (loaded row) = row_id row
    \<and> job_status (loaded row) = row_status row \<and> artifact (loaded row) = row_artifact row
    \<and> expires_at (loaded row) = row_expires_at row \<and> queued_at (loaded row) = row_queued_at row"
proof -
  obtain r now q where "clean_record r" and row: "row = (job_row stamp now r)\<lparr>row_queued_at := q\<rparr>"
    using assms unfolding written_row_def by blast
  then have "scan_record row = Inr ((persisted stamp r)\<lparr>queued_at := q\<rparr>)" by (simp add: scan_job_row)
  then show ?thesis by (simp add: loaded_def row) (simp add: persisted_def job_row_def)
qed

lemma load_written:
  "\<forall>row\<in>set rows. written_row stamp row \<Longrightarrow> load_records None None rows = Inr (map loaded rows)"
proof -
  assume "\<forall>row\<in>set rows. written_row stamp row"
  then have "load_rows None rows = Inr (map loaded rows)"
    by (induction rows) (use scan_written in auto)
  then show ?thesis by (simp add: load_records_def)
qed

lemma set_newest_first: "set (newest_first rows) = set rows"
  by (auto simp: newest_first_def)

lemma distinct_map_sort: "distinct (map f xs) \<Longrightarrow> distinct (map f (sort_key k xs))"
proof -
  have "mset (map f (sort_key k xs)) = mset (map f xs)" by simp
  then show "distinct (map f xs) \<Longrightarrow> ?thesis" by (metis mset_eq_imp_distinct_iff)
qed

lemma distinct_newest_first: "distinct (map row_id rows) \<Longrightarrow> distinct (map row_id (newest_first rows))"
proof -
  assume "distinct (map row_id rows)"
  then have "distinct (map row_id (filter P rows))" for P by (rule distinct_map_filter)
  then have "mset (map row_id (newest_first rows)) = mset (map row_id rows)"
    by (simp add: newest_first_def image_mset_union [symmetric] del: image_mset_union)
  with \<open>distinct (map row_id rows)\<close> show ?thesis by (metis mset_eq_imp_distinct_iff)
qed

lemma row_in_table:
  assumes "distinct (map row_id t)" and "row_of t i = Some row"
  shows "\<exists>raw\<in>set t. row_id raw = i \<and> erased raw = row \<and> (\<forall>raw'\<in>set t. row_id raw' = i \<longrightarrow> raw' = raw)"
proof -
  obtain raw where raw: "find (\<lambda>row. row_id row = i) t = Some raw" "row = erased raw"
    using assms(2) by (auto simp: row_of_def)
  then have "raw \<in> set t" "row_id raw = i" by (auto simp: find_Some_iff)
  with raw(2) assms(1) show ?thesis by (metis inj_onD distinct_map)
qed

lemma ids_of_map_Some: "ids_of (map Some rs) = filter (\<lambda>i. i \<noteq> []) (map job_id rs)"
  by (induction rs) simp_all

lemma restore_Cons: "restore (r # recs) s = restore recs (restore_one s r)"
  by (simp add: restore_def)

lemma jobs_restore_one:
  "jobs (restore_one s (Some r)) =
     (if job_id r = [] then jobs s else (jobs s)(job_id r \<mapsto> r\<lparr>cancel_fn := None\<rparr>))"
  by (simp add: restore_one_def Let_def)

lemma restore_other: "j \<notin> set (ids_of recs) \<Longrightarrow> jobs (restore recs s) j = jobs s j"
proof (induction recs arbitrary: s)
  case Nil
  then show ?case by (simp add: restore_def)
next
  case (Cons r recs)
  then show ?case
    by (cases r) (auto simp: restore_Cons jobs_restore_one restore_one_def [of s None] split: if_splits)
qed

lemma restore_job:
  "distinct (ids_of recs) \<Longrightarrow> Some r \<in> set recs \<Longrightarrow> job_id r \<noteq> [] \<Longrightarrow>
   jobs (restore recs s) (job_id r) = Some (r\<lparr>cancel_fn := None\<rparr>)"
proof (induction recs arbitrary: s)
  case Nil
  then show ?case by simp
next
  case (Cons q recs)
  show ?case
  proof (cases "Some r \<in> set recs")
    case True
    moreover have "distinct (ids_of recs)" using Cons.prems(1) by (cases q) (auto split: if_splits)
    ultimately show ?thesis using Cons.IH Cons.prems(3) by (simp add: restore_Cons)
  next
    case False
    with Cons.prems have q: "q = Some r" by simp
    with Cons.prems have "job_id r \<notin> set (ids_of recs)" by simp
    with q Cons.prems(3) show ?thesis by (simp add: restore_Cons restore_other jobs_restore_one)
  qed
qed

lemma jobs_restarted:
  assumes "distinct (map job_id finished @ map job_id pending)"
    and "[] \<notin> set (map job_id finished @ map job_id pending)"
  shows "r \<in> set finished \<Longrightarrow> jobs (restarted base sinks (map Some finished) (map Some pending)) (job_id r)
           = Some (r\<lparr>cancel_fn := None\<rparr>)"
    and "r \<in> set pending \<Longrightarrow> jobs (restarted base sinks (map Some finished) (map Some pending)) (job_id r)
           = Some (requeued r)"
proof -
  have ne: "filter (\<lambda>i. i \<noteq> []) is = is" if "[] \<notin> set is" for "is" :: "string list"
    using that by (simp add: filter_id_conv) metis
  have ids: "ids_of (map Some finished) = map job_id finished" "ids_of (map Some pending) = map job_id pending"
    using assms(2) ne [of "map job_id finished"] ne [of "map job_id pending"] by (simp_all add: ids_of_map_Some)
  show "jobs (restarted base sinks (map Some finished) (map Some pending)) (job_id r) = Some (r\<lparr>cancel_fn := None\<rparr>)"
    if r: "r \<in> set finished"
  proof -
    have "job_id r \<notin> set (ids_of (map Some pending))" using assms(1) r ids by auto
    moreover have "jobs (restore (map Some finished) (new_store base sinks)) (job_id r) = Some (r\<lparr>cancel_fn := None\<rparr>)"
      by (rule restore_job) (use assms r ids in \<open>auto simp: image_iff\<close>)
    ultimately show ?thesis by (simp add: restarted_def restore_pending_other)
  qed
  show "jobs (restarted base sinks (map Some finished) (map Some pending)) (job_id r) = Some (requeued r)"
    if r: "r \<in> set pending"
    unfolding restarted_def by (rule restore_pending_job) (use assms r ids in \<open>auto simp: image_iff\<close>)
qed

section \<open>After a restart\<close>

definition restored_from :: "string \<Rightarrow> nat \<Rightarrow> time \<Rightarrow> row list \<Rightarrow> store result" where
  "restored_from base sinks now t =
     rbind (load_done None None now t) (\<lambda>finished.
     rbind (load_runnable None None t) (\<lambda>pending.
       Inr (restarted base sinks (map Some finished) (map Some pending))))"

lemma select_done_rows:
  "length t \<le> load_limit \<Longrightarrow> set (select_done now t) = {row \<in> set t. servable now row}"
  "length t \<le> load_limit \<Longrightarrow> set (select_runnable t) =
     {row \<in> set t. row_status row = Queued \<or> row_status row = Running}"
proof -
  assume "length t \<le> load_limit"
  then have small: "length (filter P t) \<le> load_limit" for P
    using length_filter_le [of P t] by linarith
  have len: "length (newest_first rows) = length rows" for rows
    using sum_length_filter_compl [of "\<lambda>row. row_finished_at row \<noteq> None" rows]
    by (simp add: newest_first_def)
  show "set (select_done now t) = {row \<in> set t. servable now row}"
    unfolding select_done_def using small [of "servable now"] by (simp add: len set_newest_first)
  show "set (select_runnable t) = {row \<in> set t. row_status row = Queued \<or> row_status row = Running}"
    unfolding select_runnable_def using small by simp
qed

lemma restored_job:
  assumes ok: "table_ok stamp t" and small: "length t \<le> load_limit"
  shows "\<exists>s'. restored_from base sinks now t = Inr s'
    \<and> (\<forall>row\<in>set t. servable now row \<longrightarrow> jobs s' (row_id row) = Some ((loaded row)\<lparr>cancel_fn := None\<rparr>))
    \<and> (\<forall>row\<in>set t. row_status row = Queued \<or> row_status row = Running \<longrightarrow>
         jobs s' (row_id row) = Some (requeued (loaded row)))"
proof -
  let ?fin = "map loaded (select_done now t)" and ?pen = "map loaded (select_runnable t)"
  have sets: "set (select_done now t) \<subseteq> set t" "set (select_runnable t) \<subseteq> set t"
    using select_done_rows [OF small] by auto
  with ok have written: "\<forall>row\<in>set (select_done now t). written_row stamp row"
      "\<forall>row\<in>set (select_runnable t). written_row stamp row"
    by (auto simp: table_ok_def)
  then have load: "load_done None None now t = Inr ?fin" "load_runnable None None t = Inr ?pen"
    by (simp_all add: load_done_def load_runnable_def load_written)
  have ids: "map job_id ?fin = map row_id (select_done now t)" "map job_id ?pen = map row_id (select_runnable t)"
    using written scan_written by auto
  have d: "distinct (map row_id (filter P t))" for P
    using ok by (simp add: table_ok_def distinct_map_filter)
  have "distinct (map row_id (select_done now t))"
    unfolding select_done_def take_map [symmetric] by (intro distinct_take distinct_newest_first d)
  moreover have "distinct (map row_id (select_runnable t))"
    unfolding select_runnable_def take_map [symmetric] by (intro distinct_take distinct_map_sort d)
  moreover have "row_id ` set (select_done now t) \<inter> row_id ` set (select_runnable t) = {}"
  proof -
    have "inj_on row_id (set t)" using ok by (simp add: table_ok_def distinct_map)
    moreover have "set (select_done now t) \<inter> set (select_runnable t) = {}"
      using select_done_rows [OF small] by (auto simp: servable_def)
    ultimately show ?thesis using inj_on_image_Int [OF _ sets] by (metis image_empty)
  qed
  ultimately have dist: "distinct (map job_id ?fin @ map job_id ?pen)"
    unfolding ids by simp
  have ne: "[] \<notin> set (map job_id ?fin @ map job_id ?pen)"
    unfolding ids using ok sets by (auto simp: table_ok_def)
  let ?s = "restarted base sinks (map Some ?fin) (map Some ?pen)"
  have "restored_from base sinks now t = Inr ?s" by (simp add: restored_from_def load)
  moreover have "jobs ?s (row_id row) = Some ((loaded row)\<lparr>cancel_fn := None\<rparr>)"
    if "row \<in> set t" "servable now row" for row
  proof -
    have "row \<in> set (select_done now t)" using that select_done_rows(1) [OF small] by simp
    with jobs_restarted(1) [OF dist ne, of "loaded row" base sinks] written(1) scan_written
    show ?thesis by fastforce
  qed
  moreover have "jobs ?s (row_id row) = Some (requeued (loaded row))"
    if "row \<in> set t" "row_status row = Queued \<or> row_status row = Running" for row
  proof -
    have "row \<in> set (select_runnable t)" using that select_done_rows(2) [OF small] by simp
    with jobs_restarted(2) [OF dist ne, of "loaded row" base sinks] written(2) scan_written
    show ?thesis by fastforce
  qed
  ultimately show ?thesis by blast
qed

section \<open>What survives a shutdown\<close>

lemma log_stored: "postgres.put_all stamp rs v = stored_log stamp rs v"
  by (simp add: postgres.put_all_def stored_log_def)


definition sample_options :: options where
  "sample_options =
     \<lparr>opt_mode = [], opt_quality = [], opt_format = [], opt_container = [],
      opt_audio_passthrough = False, opt_video_itag = [], opt_audio_itag = [], opt_height = None,
      opt_fps = None, opt_video_codec = [], opt_audio_codec = [], opt_bitrate = None,
      opt_allow_quality_fallback = False, opt_sponsor_block = False,
      opt_sponsor_block_categories = [], opt_thumbnail_only = False, opt_subtitles = JNull\<rparr>"

definition created_store :: store where
  "created_store = fst (create (\<lambda>_. Inr ''k'') (\<lambda>_. []) 1 1 1 (Inr ''a'') ''u'' sample_options []
     (new_store [] 1))"

lemma created_store_eq:
  "jobs created_store = [''a'' \<mapsto> new_record ''a'' ''k'' ''u'' [] sample_options 1]"
  "saves created_store = [(0, new_record ''a'' ''k'' ''u'' [] sample_options 1)]"
proof -
  have ck: "cache_key_of (\<lambda>_. Inr ''k'') ''u'' sample_options [] = (Inr ''k'', sample_options)"
    by (simp add: cache_key_of_def trim_categories_def sample_options_def)
  show "jobs created_store = [''a'' \<mapsto> new_record ''a'' ''k'' ''u'' [] sample_options 1]"
    by (simp add: created_store_def create_def ck create_locked_def new_store_def Let_def)
  show "saves created_store = [(0, new_record ''a'' ''k'' ''u'' [] sample_options 1)]"
    by (simp add: created_store_def create_def ck create_locked_def new_store_def notify_def
        broadcast_def listeners_of_def Let_def)
qed


lemma restart_ok:
  assumes "table_ok stamp t" and "length t \<le> 10000" and "mirrors stamp (row_of t) s"
    and clean: "\<And>i r. jobs s i = Some r \<Longrightarrow> clean_record r"
  shows "\<exists>s'. restored_from base sinks now t = Inr s' \<and> (\<forall>i r. jobs s i = Some r \<longrightarrow>
      (job_status r = Done \<and> artifact r \<noteq> []
         \<and> (case expires_at r of None \<Rightarrow> True | Some x \<Rightarrow> stamp x > now)
       \<longrightarrow> jobs s' i = Some (persisted stamp r))
      \<and> (job_status r = Queued \<or> job_status r = Running
       \<longrightarrow> jobs s' i = Some (requeued (persisted stamp r))))"
proof -
  have small: "length t \<le> load_limit" using assms(2) by (simp add: load_limit_def)
  obtain s' where s': "restored_from base sinks now t = Inr s'"
    and fin: "\<And>row. row \<in> set t \<Longrightarrow> servable now row \<Longrightarrow>
        jobs s' (row_id row) = Some ((loaded row)\<lparr>cancel_fn := None\<rparr>)"
    and pen: "\<And>row. row \<in> set t \<Longrightarrow> row_status row = Queued \<or> row_status row = Running \<Longrightarrow>
        jobs s' (row_id row) = Some (requeued (loaded row))"
    using restored_job [OF assms(1) small, of base sinks now] by blast
  have row: "\<exists>row\<in>set t. row_id row = i \<and> loaded row = persisted stamp r
      \<and> row_status row = job_status r \<and> row_artifact row = artifact r
      \<and> row_expires_at row = map_option stamp (expires_at r)" if "jobs s i = Some r" for i r
  proof -
    have "row_of t i = Some (job_row stamp 0 r)" using assms(3) that by (simp add: mirrors_def)
    then obtain raw where raw: "raw \<in> set t" "row_id raw = i" "erased raw = job_row stamp 0 r"
      using row_in_table assms(1) by (metis table_ok_def)
    have "scan_record raw = scan_record (erased raw)" by (simp add: scan_record_def erased_def)
    also have "\<dots> = Inr (persisted stamp r)"
      using scan_job_row [OF clean [OF that], where stamp = stamp and now = 0 and q = "stamp (queued_at r)"]
      by (simp add: raw(3) persisted_queued)
    finally have "loaded raw = persisted stamp r" by (simp add: loaded_def)
    moreover have "row_status raw = row_status (erased raw)" "row_artifact raw = row_artifact (erased raw)"
      "row_expires_at raw = row_expires_at (erased raw)"
      by (simp_all add: erased_def)
    ultimately show ?thesis using raw by (auto simp: job_row_def)
  qed
  have nc: "(persisted stamp r)\<lparr>cancel_fn := None\<rparr> = persisted stamp r" for r
    by (simp add: persisted_def)
  show ?thesis
  proof (intro exI [of _ s'] conjI s' allI impI)
    fix i r assume j: "jobs s i = Some r"
    from row [OF j] obtain raw where raw: "raw \<in> set t" "row_id raw = i" "loaded raw = persisted stamp r"
      "row_status raw = job_status r" "row_artifact raw = artifact r"
      "row_expires_at raw = map_option stamp (expires_at r)" by blast
    show "jobs s' i = Some (persisted stamp r)"
      if "job_status r = Done \<and> artifact r \<noteq> [] \<and> (case expires_at r of None \<Rightarrow> True | Some x \<Rightarrow> stamp x > now)"
      using fin [OF raw(1)] raw(2-6) that nc by (auto simp: servable_def split: option.splits)
    show "jobs s' i = Some (requeued (persisted stamp r))" if "job_status r = Queued \<or> job_status r = Running"
      using pen [OF raw(1)] raw that by simp
  qed
qed

text \<open>C16: A restart recovers the jobs. From a table the program has written, with at most 10000 rows and
  a row for each job of the store that ended, both queries succeed, and the new store has every
  finished job whose artifact has not expired, and has every queued or running job queued again; the
  records differ from the old ones in the authorization, the cancel function, and the resolution of
  the times.\<close>

theorem restart_recovers:
  assumes "table_ok stamp t" and "length t \<le> 10000" and "mirrors stamp (row_of t) s"
    and clean: "\<And>i r. jobs s i = Some r \<Longrightarrow> clean_record r"
  shows "\<exists>s'. restored_from base sinks now t = Inr s' \<and> (\<forall>i r. jobs s i = Some r \<longrightarrow>
      (job_status r = Done \<and> artifact r \<noteq> []
         \<and> (case expires_at r of None \<Rightarrow> True | Some x \<Rightarrow> stamp x > now)
       \<longrightarrow> jobs s' i = Some (persisted stamp r))
      \<and> (job_status r = Queued \<or> job_status r = Running
       \<longrightarrow> jobs s' i = Some (requeued (persisted stamp r))))"
  by (rule restart_ok [OF assms])

text \<open>A table with one finished job, and the store that has it.\<close>

definition finished_job :: job_record where
  "finished_job = done_job 5 ''/o/f.mp4'' ''local'' None 1 1
     (new_record ''a'' ''k'' ''u'' ''Bearer'' sample_options 1)"

definition finished_store :: store where
  "finished_store = (new_store [] 1)\<lparr>jobs := [''a'' \<mapsto> finished_job], cache := [''k'' \<mapsto> ''a'']\<rparr>"

lemma finished_job_simps:
  "job_id finished_job = ''a''" "job_status finished_job = Done" "artifact finished_job = ''/o/f.mp4''"
  "expires_at finished_job = None" "cache_key finished_job = ''k''"
  "job_options finished_job = sample_options" "job_progress finished_job = zero_progress"
  "resolved finished_job = None"
  by (simp_all add: finished_job_def done_job_def new_record_def zero_progress_def Let_def)

lemma valid_utf8_Nil: "valid_utf8 []"
  by (simp add: valid_utf8_def)

lemma finished_job_clean: "clean_record finished_job"
  by (simp add: clean_record_def finished_job_simps clean_options_def sample_options_def
      clean_progress_def zero_progress_def valid_utf8_Nil is_i64_iff)

lemma finished_table:
  "table_ok (\<lambda>x. x) [job_row (\<lambda>x. x) 7 finished_job]"
  "mirrors (\<lambda>x. x) (row_of [job_row (\<lambda>x. x) 7 finished_job]) finished_store"
proof -
  have "written_row (\<lambda>x. x) (job_row (\<lambda>x. x) 7 finished_job)"
    by (rule written_job_row) (rule finished_job_clean)
  then show "table_ok (\<lambda>x. x) [job_row (\<lambda>x. x) 7 finished_job]"
    by (simp add: table_ok_def finished_job_simps)
  show "mirrors (\<lambda>x. x) (row_of [job_row (\<lambda>x. x) 7 finished_job]) finished_store"
    by (simp add: mirrors_def finished_store_def row_of_def finished_job_simps erased_job_row)
qed

lemma finished_store_jobs: "jobs finished_store i = Some r \<longleftrightarrow> i = ''a'' \<and> r = finished_job"
  by (auto simp: finished_store_def)

lemma restart_recovers_witness:
  "\<exists>s'. restored_from [] 0 9 [job_row (\<lambda>x. x) 7 finished_job] = Inr s'
    \<and> jobs s' ''a'' = Some (persisted (\<lambda>x. x) finished_job)"
  using restart_recovers [OF finished_table(1) _ finished_table(2), where base = "[]" and sinks = 0 and now = 9]
  by (auto simp: finished_store_jobs finished_job_clean finished_job_simps)

text \<open>C34: A deleted job comes back. Deleting a finished job takes it from the store and hands nothing to
  the sinks, so its row stays in the database; after the next restart the store has the job again,
  finished, with the artifact the deletion has removed, and serves it from the cache.\<close>

theorem deleted_job_returns:
  assumes "table_ok stamp t" and "length t \<le> 10000" and "mirrors stamp (row_of t) s"
    and "\<And>i r. jobs s i = Some r \<Longrightarrow> clean_record r"
    and job: "jobs s i = Some r" "job_status r = Done" "artifact r \<noteq> []" "expires_at r = None"
  shows "\<exists>s1 s'. delete fmt t1 i s = (s1, Some r) \<and> jobs s1 i = None \<and> saves s1 = saves s
    \<and> restored_from base sinks now t = Inr s'
    \<and> jobs s' i = Some (persisted stamp r) \<and> job_status (persisted stamp r) = Done
    \<and> artifact (persisted stamp r) = artifact r"
proof -
  let ?s1 = "fst (delete fmt t1 i s)"
  have del: "delete fmt t1 i s = (?s1, Some r)" "jobs ?s1 i = None" "saves ?s1 = saves s"
    using job by (simp_all add: delete_def delete_finish_def delete_locked_def)
  obtain s' where "restored_from base sinks now t = Inr s'" "jobs s' i = Some (persisted stamp r)"
    using restart_ok [OF assms(1-4), where base = base and sinks = sinks and now = now] job by fastforce
  moreover have "job_status (persisted stamp r) = Done" "artifact (persisted stamp r) = artifact r"
    using job by (simp_all add: persisted_def)
  ultimately show ?thesis using del by blast
qed

lemma deleted_job_returns_witness:
  "\<exists>s1 s'. delete (\<lambda>_. []) 8 ''a'' finished_store = (s1, Some finished_job) \<and> jobs s1 ''a'' = None
    \<and> restored_from [] 0 9 [job_row (\<lambda>x. x) 7 finished_job] = Inr s'
    \<and> jobs s' ''a'' = Some (persisted (\<lambda>x. x) finished_job)"
  using deleted_job_returns [OF finished_table(1) _ finished_table(2), where i = "''a''" and r = finished_job
      and fmt = "\<lambda>_. []" and ?t1.0 = 8 and base = "[]" and sinks = 0 and now = 9]
  by (auto simp: finished_store_jobs finished_job_clean finished_job_simps)

section \<open>The other sink\<close>

lemma dragonfly_save_fails:
  "dragonfly_save ttl oc r m = (m, Some (Err ''json: unsupported type: func()''))"
  by (simp add: dragonfly_save_def record_json_def)


end
