(* ===== verification/Purge_Spec.thy ===== *)
theory Purge_Spec
  imports Cleanup Persistence
begin

text \<open>
  The purge of expired S3 artifacts against the database, the bucket and the job store of this
  program: it ends, it removes nothing it should not, and without faults it removes all it should.
  Other goroutines may write rows meanwhile; here the purge runs alone.
\<close>

section \<open>The world of the purge\<close>

record purge_world =
  pw_store :: store
  pw_objects :: bucket
  pw_rows :: "row list"

text \<open>The outcomes of the statements, by the identity they are about, and whether the context lives.\<close>

record purge_faults =
  pf_live :: "purge_world \<Rightarrow> bool"
  pf_list :: "string \<Rightarrow> list_fault option"
  pf_delete :: "string \<Rightarrow> outcome"

definition postgres_env ::
  "(time \<Rightarrow> string) \<Rightarrow> time \<Rightarrow> (time \<Rightarrow> time) \<Rightarrow> (string \<Rightarrow> 'k::linorder) \<Rightarrow> s3_client \<Rightarrow> purge_faults
   \<Rightarrow> purge_world purge_env" where
  "postgres_env fmt t_bc stamp rank client pf =
     \<lparr>pe_live = pf_live pf,
      pe_list = (\<lambda>before a n w. (w, list_expired stamp rank (pf_list pf a) before a n (pw_rows w))),
      pe_delete_row = (\<lambda>c before w.
        (case delete_expired stamp (pf_delete pf (ea_id c)) c before (pw_rows w) of
           (t', e) \<Rightarrow> (w\<lparr>pw_rows := t'\<rparr>, e))),
      pe_delete_object = (\<lambda>sv w.
        (case s3_delete client sv (pw_objects w) of (ob', e) \<Rightarrow> (w\<lparr>pw_objects := ob'\<rparr>, e))),
      pe_forget = Some (\<lambda>i location before w.
        w\<lparr>pw_store := fst (remove_expired_artifact fmt t_bc i location before (pw_store w))\<rparr>)\<rparr>"

lemma delete_expired_rows:
  "fst (delete_expired stamp oc c before t) = t
   \<or> fst (delete_expired stamp oc c before t) = filter (\<lambda>row. \<not> deletes_row stamp c before row) t"
  by (cases oc) (auto simp: delete_expired_def exec_statement_def)

lemma delete_row_env:
  "fst (pe_delete_row (postgres_env fmt t_bc stamp rank client pf) c before w) = w
   \<or> fst (pe_delete_row (postgres_env fmt t_bc stamp rank client pf) c before w) =
       w\<lparr>pw_rows := filter (\<lambda>row. \<not> deletes_row stamp c before row) (pw_rows w)\<rparr>"
  using delete_expired_rows [of stamp "pf_delete pf (ea_id c)" c before "pw_rows w"]
  by (auto simp: postgres_env_def split: prod.split)

lemma delete_object_env:
  "fst (pe_delete_object (postgres_env fmt t_bc stamp rank client pf) (candidate_object c) w) = w
   \<or> fst (pe_delete_object (postgres_env fmt t_bc stamp rank client pf) (candidate_object c) w) =
       w\<lparr>pw_objects := (pw_objects w)(ea_location c := None)\<rparr>"
  by (auto simp: postgres_env_def s3_delete_def candidate_object_def split: option.split)

section \<open>The purge ends\<close>

definition rows_left :: "(string \<Rightarrow> 'k::linorder) \<Rightarrow> string \<Rightarrow> purge_world \<Rightarrow> nat" where
  "rows_left rank a w = length (filter (\<lambda>row. rank a < rank (row_id row)) (pw_rows w))"

lemma rows_left_candidate:
  "rows_left rank a (purge_candidate (postgres_env fmt t_bc stamp rank client pf) cutoff w c)
     \<le> rows_left rank a w"
proof (cases "unsafe_candidate cutoff c")
  case True
  then show ?thesis by (simp add: purge_candidate_def)
next
  case False
  let ?env = "postgres_env fmt t_bc stamp rank client pf"
  let ?w1 = "w\<lparr>pw_store := fst (remove_expired_artifact fmt t_bc (ea_id c) (ea_location c) cutoff (pw_store w))\<rparr>"
  obtain w2 e where obj: "pe_delete_object ?env (candidate_object c) ?w1 = (w2, e)" by fastforce
  have r2: "pw_rows w2 = pw_rows w"
    using delete_object_env [of fmt t_bc stamp rank client pf c ?w1] obj by auto
  have "purge_candidate ?env cutoff w c = (case e of Some _ \<Rightarrow> w2 | None \<Rightarrow> fst (pe_delete_row ?env c cutoff w2))"
    using False obj by (simp add: purge_candidate_def Let_def postgres_env_def [of fmt t_bc] split: option.split)
  moreover have "length (filter P (filter Q xs)) \<le> length (filter P xs)" for P Q and xs :: "row list"
    by (induction xs) auto
  ultimately show ?thesis
    using delete_row_env [of fmt t_bc stamp rank client pf c cutoff w2] r2
    by (auto simp: rows_left_def split: option.split)
qed

lemma select_expired_last:
  assumes "select_expired rank before a n t \<noteq> []"
  shows "last (select_expired rank before a n t) \<in> set t
    \<and> rank a < rank (row_id (last (select_expired rank before a n t)))"
proof -
  have "last (select_expired rank before a n t) \<in> set (select_expired rank before a n t)"
    using assms by simp
  then show ?thesis by (auto simp: select_expired_def dest!: in_set_takeD)
qed

lemma rows_left_list:
  assumes "pe_list (postgres_env fmt t_bc stamp rank client pf) cutoff a (int batch_size) w = (w1, Inr cs)"
    and "batch_size \<le> length cs"
  shows "rows_left rank (ea_id (last cs)) w1 < rows_left rank a w"
proof -
  let ?sel = "select_expired rank (stamp cutoff) a 100 (pw_rows w)"
  have w1: "w1 = w" and cs: "cs = map candidate_of ?sel"
    using assms(1) by (auto simp: postgres_env_def list_expired_def batch_size_def Let_def
        split: option.splits list_fault.splits if_splits)
  have ne: "?sel \<noteq> []" using assms(2) cs by (auto simp: batch_size_def)
  let ?l = "last ?sel"
  have l: "?l \<in> set (pw_rows w)" "rank a < rank (row_id ?l)"
    using select_expired_last [OF ne] by simp_all
  have id: "ea_id (last cs) = row_id ?l" using ne by (simp add: cs last_map candidate_of_def)
  have "length (filter (\<lambda>row. rank (row_id ?l) < rank (row_id row)) t)
      < length (filter (\<lambda>row. rank a < rank (row_id row)) t)" if "?l \<in> set t" for t
    using that l(2)
  proof (induction t)
    case Nil
    then show ?case by simp
  next
    case (Cons x t)
    have "length (filter (\<lambda>row. rank (row_id ?l) < rank (row_id row)) t)
        \<le> length (filter (\<lambda>row. rank a < rank (row_id row)) t)"
      using l(2) by (induction t) auto
    with Cons l(2) show ?case by (cases "x = ?l") auto
  qed
  with l(1) show ?thesis by (simp add: rows_left_def w1 id)
qed

interpretation postgres_source: shrinking_source
  "postgres_env fmt t_bc stamp rank client pf" cutoff "rows_left rank"
  for fmt t_bc stamp client pf cutoff and rank :: "string \<Rightarrow> 'k::linorder"
  by unfold_locales (rule rows_left_list rows_left_candidate; assumption?)+

text \<open>C29: The purge ends. Whatever the database, the bucket and the context do, a purge of a table makes
  at most one round for each of its rows, and one more: each full batch of 100 moves on past its last
  identity.\<close>

theorem purge_ends:
  assumes "length (pw_rows w) < fuel"
  shows "purge_expired (postgres_env fmt t_bc stamp rank client pf) url_ttl now fuel w \<noteq> None"
proof -
  have "rows_left rank [] w \<le> length (pw_rows w)" by (simp add: rows_left_def)
  with assms show ?thesis
    unfolding purge_expired_def by (intro postgres_source.loop_ends) simp
qed

section \<open>The purge is safe\<close>

definition stale_row :: "(time \<Rightarrow> time) \<Rightarrow> int \<Rightarrow> time \<Rightarrow> row \<Rightarrow> bool" where
  "stale_row stamp url_ttl now row \<longleftrightarrow> expired_row (stamp (purge_cutoff url_ttl now)) row"

text \<open>What stays: the rows that are not stale, the objects no stale row names, and the jobs that are
  unfinished or not expired.\<close>

definition kept_from :: "(time \<Rightarrow> time) \<Rightarrow> time \<Rightarrow> purge_world \<Rightarrow> purge_world \<Rightarrow> bool" where
  "kept_from stamp cutoff w w' \<longleftrightarrow>
     set (pw_rows w') \<subseteq> set (pw_rows w)
     \<and> (\<forall>row\<in>set (pw_rows w). \<not> expired_row (stamp cutoff) row \<longrightarrow> row \<in> set (pw_rows w'))
     \<and> (\<forall>key. (\<forall>row\<in>set (pw_rows w). expired_row (stamp cutoff) row \<longrightarrow> row_artifact row \<noteq> key) \<longrightarrow>
          pw_objects w' key = pw_objects w key)
     \<and> (\<forall>i r. jobs (pw_store w) i = Some r \<longrightarrow> job_status r \<noteq> Done \<or> \<not> artifact_expired r cutoff \<longrightarrow>
          jobs (pw_store w') i = Some r)"

definition known_candidate :: "(time \<Rightarrow> time) \<Rightarrow> time \<Rightarrow> row list \<Rightarrow> expired_artifact \<Rightarrow> bool" where
  "known_candidate stamp cutoff t c \<longleftrightarrow>
     (\<exists>row\<in>set t. expired_row (stamp cutoff) row \<and> c = candidate_of row)"

lemma listed_known:
  "list_expired stamp rank fault cutoff a n t = Inr cs \<Longrightarrow> \<forall>c\<in>set cs. known_candidate stamp cutoff t c"
proof -
  have "known_candidate stamp cutoff t (candidate_of row)"
    if "row \<in> set (select_expired rank (stamp cutoff) a k t)" for row k
    using that by (auto simp: select_expired_def known_candidate_def dest!: in_set_takeD)
  then show "list_expired stamp rank fault cutoff a n t = Inr cs \<Longrightarrow> ?thesis"
    by (auto simp: list_expired_def Let_def split: option.splits list_fault.splits if_splits)
qed

lemma deletes_row_expired:
  assumes "deletes_row stamp c cutoff row" and "has_prefix (ea_location c) ''artifacts/''"
    and "ea_location c \<noteq> []"
  shows "expired_row (stamp cutoff) row"
  using assms by (auto simp: deletes_row_def expired_row_def)

lemma expire_keeps_job:
  assumes "jobs s i = Some r" and "job_status r \<noteq> Done \<or> \<not> artifact_expired r now"
  shows "jobs (fst (remove_expired_artifact fmt t j location now s)) i = Some r"
  using assms by (auto simp: remove_expired_artifact_def remove_expired_locked_def split: option.splits)

lemma postgres_guarded:
  "guarded_purge (postgres_env fmt t_bc stamp rank client pf) cutoff
     (known_candidate stamp cutoff (pw_rows w0)) (kept_from stamp cutoff w0)"
proof
  let ?env = "postgres_env fmt t_bc stamp rank client pf"
  fix w a n w1 r
  assume k: "kept_from stamp cutoff w0 w" and l: "pe_list ?env cutoff a n w = (w1, r)"
  have "set (pw_rows w) \<subseteq> set (pw_rows w0)" using k by (simp add: kept_from_def)
  then have "known_candidate stamp cutoff (pw_rows w) c \<Longrightarrow> known_candidate stamp cutoff (pw_rows w0) c" for c
    by (auto simp: known_candidate_def)
  with k l listed_known [of stamp rank "pf_list pf a" cutoff a n "pw_rows w"]
  show "kept_from stamp cutoff w0 w1 \<and> (\<forall>cs. r = Inr cs \<longrightarrow>
      (\<forall>c\<in>set cs. known_candidate stamp cutoff (pw_rows w0) c))"
    by (auto simp: postgres_env_def)
next
  let ?env = "postgres_env fmt t_bc stamp rank client pf"
  fix f c w
  assume "pe_forget ?env = Some f" and "kept_from stamp cutoff w0 w"
  then show "kept_from stamp cutoff w0 (f (ea_id c) (ea_location c) cutoff w)"
    by (auto simp: postgres_env_def kept_from_def intro!: expire_keeps_job)
next
  let ?env = "postgres_env fmt t_bc stamp rank client pf"
  fix c w
  assume c: "known_candidate stamp cutoff (pw_rows w0) c" and k: "kept_from stamp cutoff w0 w"
  from c obtain row where row: "row \<in> set (pw_rows w0)" "expired_row (stamp cutoff) row"
    "ea_location c = row_artifact row"
    by (auto simp: known_candidate_def candidate_of_def)
  have "kept_from stamp cutoff w0 (w\<lparr>pw_objects := (pw_objects w)(ea_location c := None)\<rparr>)"
    using k row by (auto simp: kept_from_def)
  with k delete_object_env [of fmt t_bc stamp rank client pf c w]
  show "kept_from stamp cutoff w0 (fst (pe_delete_object ?env (candidate_object c) w))" by auto
next
  let ?env = "postgres_env fmt t_bc stamp rank client pf"
  fix c w
  assume safe: "\<not> unsafe_candidate cutoff c" and k: "kept_from stamp cutoff w0 w"
  have "expired_row (stamp cutoff) row" if "deletes_row stamp c cutoff row" for row
    using deletes_row_expired [OF that] safe by (auto simp: unsafe_candidate_def)
  then have "kept_from stamp cutoff w0
      (w\<lparr>pw_rows := filter (\<lambda>row. \<not> deletes_row stamp c cutoff row) (pw_rows w)\<rparr>)"
    using k by (auto simp: kept_from_def)
  with k delete_row_env [of fmt t_bc stamp rank client pf c cutoff w]
  show "kept_from stamp cutoff w0 (fst (pe_delete_row ?env c cutoff w))" by auto
qed

interpretation postgres_purge: guarded_purge
  "postgres_env fmt t_bc stamp rank client pf" cutoff
  "known_candidate stamp cutoff (pw_rows w0)" "kept_from stamp cutoff w0"
  for fmt t_bc stamp client pf cutoff w0 and rank :: "string \<Rightarrow> 'k::linorder"
  by (rule postgres_guarded)

text \<open>C12: The purge removes nothing else. Whatever fails on the way, a purge leaves every row that is not
  an expired S3 artifact, every object no such row names, and every job that is unfinished or whose
  artifact has not expired by the cutoff, which lies the lifetime of a URL in the past.\<close>

theorem purge_safe:
  assumes "purge_expired (postgres_env fmt t_bc stamp rank client pf) url_ttl now fuel w = Some w'"
  shows "(\<forall>row\<in>set (pw_rows w). \<not> stale_row stamp url_ttl now row \<longrightarrow> row \<in> set (pw_rows w'))
    \<and> (\<forall>key. (\<forall>row\<in>set (pw_rows w). stale_row stamp url_ttl now row \<longrightarrow> row_artifact row \<noteq> key) \<longrightarrow>
         pw_objects w' key = pw_objects w key)
    \<and> (\<forall>key. \<not> has_prefix key ''artifacts/'' \<longrightarrow> pw_objects w' key = pw_objects w key)
    \<and> (\<forall>i r. jobs (pw_store w) i = Some r \<longrightarrow>
         job_status r \<noteq> Done \<or> \<not> artifact_expired r (now - max 0 url_ttl) \<longrightarrow> jobs (pw_store w') i = Some r)"
proof -
  have c: "purge_cutoff url_ttl now = now - max 0 url_ttl" by (simp add: purge_cutoff_def)
  have "kept_from stamp (purge_cutoff url_ttl now) w w'"
  proof (rule postgres_purge.loop_keeps)
    show "kept_from stamp (purge_cutoff url_ttl now) w w" by (simp add: kept_from_def)
    show "purge_loop (postgres_env fmt t_bc stamp rank client pf) (purge_cutoff url_ttl now) fuel [] w = Some w'"
      using assms by (simp add: purge_expired_def)
  qed
  then have kept: "\<forall>row\<in>set (pw_rows w). \<not> stale_row stamp url_ttl now row \<longrightarrow> row \<in> set (pw_rows w')"
    and ob: "\<forall>key. (\<forall>row\<in>set (pw_rows w). stale_row stamp url_ttl now row \<longrightarrow> row_artifact row \<noteq> key) \<longrightarrow>
         pw_objects w' key = pw_objects w key"
    and js: "\<forall>i r. jobs (pw_store w) i = Some r \<longrightarrow>
         job_status r \<noteq> Done \<or> \<not> artifact_expired r (now - max 0 url_ttl) \<longrightarrow> jobs (pw_store w') i = Some r"
    by (simp_all add: kept_from_def stale_row_def c)
  have "has_prefix (row_artifact row) ''artifacts/''" if "stale_row stamp url_ttl now row" for row
    using that by (simp add: stale_row_def expired_row_def)
  with ob have "\<forall>key. \<not> has_prefix key ''artifacts/'' \<longrightarrow> pw_objects w' key = pw_objects w key"
    by metis
  with kept ob js show ?thesis by (intro conjI)
qed

section \<open>The purge is complete\<close>

text \<open>Nothing fails: the context lives, every statement is executed, every object can be removed.\<close>

definition quiet :: "s3_client \<Rightarrow> purge_faults \<Rightarrow> bool" where
  "quiet client pf \<longleftrightarrow> (\<forall>w. pf_live pf w) \<and> (\<forall>a. pf_list pf a = None)
     \<and> (\<forall>i. pf_delete pf i = Executed) \<and> (\<forall>key. sc_remove client key = None)"

text \<open>A table as the server holds it: identities are distinct and not empty, the order of text tells
  them apart and puts the empty one first, and a stored time is stored again as it is.\<close>

definition table_sound :: "(time \<Rightarrow> time) \<Rightarrow> (string \<Rightarrow> 'k::linorder) \<Rightarrow> row list \<Rightarrow> bool" where
  "table_sound stamp rank t \<longleftrightarrow> distinct (map row_id t) \<and> inj_on rank (row_id ` set t)
     \<and> (\<forall>row\<in>set t. row_id row \<noteq> [] \<and> rank [] < rank (row_id row)
         \<and> pred_option (\<lambda>x. stamp x = x) (row_expires_at row))"

definition forgotten :: "time \<Rightarrow> store \<Rightarrow> row \<Rightarrow> bool" where
  "forgotten cutoff s row \<longleftrightarrow>
     \<not> (\<exists>r. jobs s (row_id row) = Some r \<and> job_status r = Done \<and> artifact r = row_artifact row
         \<and> artifact_expired r cutoff)"

text \<open>The world after exactly the rows \<open>rs\<close> have been purged.\<close>

definition purged :: "time \<Rightarrow> row list \<Rightarrow> purge_world \<Rightarrow> purge_world \<Rightarrow> bool" where
  "purged cutoff rs w w' \<longleftrightarrow>
     pw_rows w' = filter (\<lambda>row. row \<notin> set rs) (pw_rows w)
     \<and> pw_objects w' = (\<lambda>key. if \<exists>row\<in>set rs. row_artifact row = key then None else pw_objects w key)
     \<and> (\<forall>i r. jobs (pw_store w') i = Some r \<longrightarrow> jobs (pw_store w) i = Some r)
     \<and> (\<forall>row\<in>set rs. forgotten cutoff (pw_store w') row)"

lemma forgotten_mono:
  "forgotten cutoff s row \<Longrightarrow> (\<And>i r. jobs s' i = Some r \<Longrightarrow> jobs s i = Some r) \<Longrightarrow> forgotten cutoff s' row"
  by (auto simp: forgotten_def)

lemma purged_Nil: "purged cutoff [] w w"
  by (simp add: purged_def)

lemma purged_append:
  assumes "purged cutoff rs w w1" and "purged cutoff rs' w1 w2"
  shows "purged cutoff (rs @ rs') w w2"
proof -
  have "forgotten cutoff (pw_store w2) row" if "row \<in> set rs" for row
    using assms that forgotten_mono [of cutoff "pw_store w1" row "pw_store w2"] by (simp add: purged_def)
  moreover have "pw_objects w2 key =
      (if \<exists>row\<in>set (rs @ rs'). row_artifact row = key then None else pw_objects w key)" for key
    using assms by (auto simp: purged_def)
  moreover have "pw_rows w2 = filter (\<lambda>row. row \<notin> set (rs @ rs')) (pw_rows w)"
    using assms by (auto simp: purged_def intro: filter_cong)
  ultimately show ?thesis using assms unfolding purged_def by auto
qed

lemma expire_forgets:
  assumes "row_id row = i" and "row_artifact row = location"
  shows "forgotten cutoff (fst (remove_expired_artifact fmt t i location cutoff s)) row"
  using assms
  by (auto simp: forgotten_def remove_expired_artifact_def remove_expired_locked_def split: option.splits if_splits)

lemma purge_candidate_exact:
  assumes quiet: "quiet client pf" and sound: "table_sound stamp rank (pw_rows w)"
    and le: "stamp cutoff \<le> cutoff" and row: "row \<in> set (pw_rows w)" "expired_row (stamp cutoff) row"
  shows "purged cutoff [row] w
    (purge_candidate (postgres_env fmt t_bc stamp rank client pf) cutoff w (candidate_of row))"
proof -
  let ?env = "postgres_env fmt t_bc stamp rank client pf" and ?c = "candidate_of row"
  obtain x where x: "row_expires_at row = Some x" "x \<le> stamp cutoff"
    using row(2) by (auto simp: expired_row_def split: option.splits)
  have sx: "stamp x = x" and id: "row_id row \<noteq> []"
    using sound row(1) x by (auto simp: table_sound_def)
  have safe: "\<not> unsafe_candidate cutoff ?c"
    using row(2) id x le by (auto simp: unsafe_candidate_def candidate_of_def expired_row_def after_def)
  have "inj_on row_id (set (pw_rows w))" using sound by (simp add: table_sound_def distinct_map)
  then have del: "deletes_row stamp ?c cutoff r \<longleftrightarrow> r = row" if "r \<in> set (pw_rows w)" for r
    using that row x sx by (auto simp: deletes_row_def candidate_of_def expired_row_def dest: inj_onD)
  have "purge_candidate ?env cutoff w ?c =
      \<lparr>pw_store = fst (remove_expired_artifact fmt t_bc (row_id row) (row_artifact row) cutoff (pw_store w)),
       pw_objects = (pw_objects w)(row_artifact row := None),
       pw_rows = filter (\<lambda>r. \<not> deletes_row stamp ?c cutoff r) (pw_rows w)\<rparr>"
    using quiet safe row(2)
    by (simp add: purge_candidate_def postgres_env_def s3_delete_def candidate_object_def quiet_def
        delete_expired_def exec_statement_def Let_def) (simp add: candidate_of_def expired_row_def)
  moreover have "filter (\<lambda>r. \<not> deletes_row stamp ?c cutoff r) (pw_rows w) = filter (\<lambda>r. r \<notin> set [row]) (pw_rows w)"
    using del by (auto intro: filter_cong)
  moreover have "forgotten cutoff
      (fst (remove_expired_artifact fmt t_bc (row_id row) (row_artifact row) cutoff (pw_store w))) row"
    by (rule expire_forgets) simp_all
  ultimately show ?thesis by (auto simp: purged_def dest: expire_frame(3))
qed

lemma table_sound_filter: "table_sound stamp rank t \<Longrightarrow> table_sound stamp rank (filter P t)"
  by (auto simp: table_sound_def distinct_map_filter intro: inj_on_subset)

lemma purge_batch_exact:
  assumes quiet: "quiet client pf" and le: "stamp cutoff \<le> cutoff"
  shows "table_sound stamp rank (pw_rows w) \<Longrightarrow> distinct rs \<Longrightarrow>
    \<forall>row\<in>set rs. row \<in> set (pw_rows w) \<and> expired_row (stamp cutoff) row \<Longrightarrow>
    purged cutoff rs w (foldl (purge_candidate (postgres_env fmt t_bc stamp rank client pf) cutoff) w
      (map candidate_of rs))"
proof (induction rs arbitrary: w)
  case Nil
  then show ?case by (simp add: purged_Nil)
next
  case (Cons row rs)
  let ?w1 = "purge_candidate (postgres_env fmt t_bc stamp rank client pf) cutoff w (candidate_of row)"
  have w1: "purged cutoff [row] w ?w1"
    using Cons.prems by (intro purge_candidate_exact quiet le) simp_all
  then have rows: "pw_rows ?w1 = filter (\<lambda>r. r \<notin> set [row]) (pw_rows w)" by (simp add: purged_def)
  have "purged cutoff rs ?w1 (foldl (purge_candidate (postgres_env fmt t_bc stamp rank client pf) cutoff) ?w1
      (map candidate_of rs))"
    using Cons.prems by (intro Cons.IH) (auto simp: rows table_sound_filter)
  from purged_append [OF w1 this] show ?case by simp
qed

text \<open>A batch takes the expired rows with the lowest identities; those it leaves come after its last.\<close>

lemma select_expired_cover:
  assumes sound: "table_sound stamp rank t" and row: "row \<in> set t" "expired_row before row"
    and low: "rank a < rank (row_id row)" and out: "row \<notin> set (select_expired rank before a n t)"
  shows "length (select_expired rank before a n t) = nat n
    \<and> (select_expired rank before a n t \<noteq> [] \<longrightarrow>
        rank (row_id (last (select_expired rank before a n t))) < rank (row_id row))"
proof -
  let ?k = "\<lambda>row. rank (row_id row)"
  let ?E = "sort_key ?k (filter (\<lambda>row. expired_row before row \<and> rank a < rank (row_id row)) t)"
  have E: "row \<in> set ?E" using row low by simp
  have sel: "select_expired rank before a n t = take (nat n) ?E" by (simp add: select_expired_def)
  have late: "row \<in> set (drop (nat n) ?E)"
    using E out unfolding sel by (metis append_take_drop_id UnE set_append)
  then have len: "nat n < length ?E" by (metis drop_all empty_iff empty_set not_le)
  have "?k x < ?k row" if x: "x \<in> set (take (nat n) ?E)" for x
  proof -
    have "sorted (map ?k (take (nat n) ?E @ drop (nat n) ?E))" by simp
    with x late have "?k x \<le> ?k row" unfolding map_append sorted_append by simp
    moreover have "x \<noteq> row" using x out sel by metis
    moreover have "x \<in> set t" using x by (auto dest!: in_set_takeD)
    then have "?k x = ?k row \<longrightarrow> x = row"
      using sound row(1) by (auto simp: table_sound_def distinct_map dest: inj_onD)
    ultimately show ?thesis by force
  qed
  with len show ?thesis unfolding sel by auto
qed

lemma purge_loop_exact:
  assumes quiet: "quiet client pf" and le: "stamp cutoff \<le> cutoff"
  shows "table_sound stamp rank (pw_rows w) \<Longrightarrow>
    \<forall>row\<in>set (pw_rows w). expired_row (stamp cutoff) row \<longrightarrow> rank a < rank (row_id row) \<Longrightarrow>
    rows_left rank a w < n \<Longrightarrow>
    \<exists>w' rs. purge_loop (postgres_env fmt t_bc stamp rank client pf) cutoff n a w = Some w'
      \<and> purged cutoff rs w w' \<and> set rs = {row \<in> set (pw_rows w). expired_row (stamp cutoff) row}"
proof (induction n arbitrary: a w)
  case 0
  then show ?case by simp
next
  case (Suc n)
  let ?env = "postgres_env fmt t_bc stamp rank client pf"
  let ?E = "{row \<in> set (pw_rows w). expired_row (stamp cutoff) row}"
  let ?sel = "select_expired rank (stamp cutoff) a 100 (pw_rows w)"
  have live: "pe_live ?env w" using quiet by (simp add: postgres_env_def quiet_def)
  have list: "pe_list ?env cutoff a (int batch_size) w = (w, Inr (map candidate_of ?sel))"
    using quiet by (simp add: postgres_env_def quiet_def list_expired_def batch_size_def)
  have sub: "set ?sel \<subseteq> ?E" by (auto simp: select_expired_def dest!: in_set_takeD)
  have "distinct ?sel"
    using Suc.prems(1) by (simp add: select_expired_def table_sound_def distinct_map)
  let ?w2 = "foldl (purge_candidate ?env cutoff) w (map candidate_of ?sel)"
  have w2: "purged cutoff ?sel w ?w2"
    by (rule purge_batch_exact [OF quiet le Suc.prems(1) \<open>distinct ?sel\<close>]) (use sub in auto)
  have cover: "length ?sel = 100 \<and> (?sel \<noteq> [] \<longrightarrow> rank (row_id (last ?sel)) < rank (row_id row))"
    if "row \<in> ?E" "row \<notin> set ?sel" for row
    using select_expired_cover [OF Suc.prems(1), of row "stamp cutoff" a 100] that Suc.prems(2) by simp
  show ?case
  proof (cases "length ?sel < batch_size")
    case True
    with cover have "set ?sel = ?E" using sub by (fastforce simp: batch_size_def)
    moreover have "purge_loop ?env cutoff (Suc n) a w = Some ?w2"
      using live list True by (simp add: Let_def)
    ultimately show ?thesis using w2 by blast
  next
    case False
    then have ne: "?sel \<noteq> []" and full: "batch_size \<le> length (map candidate_of ?sel)"
      by (auto simp: batch_size_def)
    have id: "ea_id (last (map candidate_of ?sel)) = row_id (last ?sel)"
      using ne by (simp add: last_map candidate_of_def)
    have rows: "pw_rows ?w2 = filter (\<lambda>row. row \<notin> set ?sel) (pw_rows w)" using w2 by (simp add: purged_def)
    have "rows_left rank (row_id (last ?sel)) ?w2 \<le> rows_left rank (row_id (last ?sel)) w"
      using postgres_source.batch_left by blast
    also have "\<dots> < rows_left rank a w"
      using rows_left_list [OF list full] by (simp only: id)
    finally have left: "rows_left rank (row_id (last ?sel)) ?w2 < n" using Suc.prems(3) by simp
    have "\<exists>w' rs. purge_loop ?env cutoff n (row_id (last ?sel)) ?w2 = Some w' \<and> purged cutoff rs ?w2 w'
        \<and> set rs = {row \<in> set (pw_rows ?w2). expired_row (stamp cutoff) row}"
      by (rule Suc.IH) (use left rows Suc.prems(1) cover ne in \<open>auto simp: table_sound_filter\<close>)
    then obtain w' rs where w': "purge_loop ?env cutoff n (row_id (last ?sel)) ?w2 = Some w'"
      "purged cutoff rs ?w2 w'" "set rs = {row \<in> set (pw_rows ?w2). expired_row (stamp cutoff) row}"
      by blast
    have "purge_loop ?env cutoff (Suc n) a w = Some w'"
      using live list False ne w'(1) by (simp add: Let_def id)
    moreover have "set (?sel @ rs) = ?E" using sub w'(3) rows by auto
    ultimately show ?thesis using purged_append [OF w2 w'(2)] by blast
  qed
qed

text \<open>C13: The purge removes all it should. When nothing fails, one purge takes exactly the stale rows out
  of the table, all of them however many batches that takes; the objects they name are gone and the
  others as they were; and the job store holds no stale job of theirs any more.\<close>

theorem purge_complete:
  assumes "quiet client pf" and "table_sound stamp rank (pw_rows w)"
    and "stamp (purge_cutoff url_ttl now) \<le> purge_cutoff url_ttl now"
    and "length (pw_rows w) < fuel"
  shows "\<exists>w'. purge_expired (postgres_env fmt t_bc stamp rank client pf) url_ttl now fuel w = Some w'
    \<and> pw_rows w' = filter (\<lambda>row. \<not> stale_row stamp url_ttl now row) (pw_rows w)
    \<and> pw_objects w' = (\<lambda>key. if \<exists>row\<in>set (pw_rows w). stale_row stamp url_ttl now row \<and> row_artifact row = key
         then None else pw_objects w key)
    \<and> (\<forall>row\<in>set (pw_rows w). stale_row stamp url_ttl now row \<longrightarrow>
         forgotten (purge_cutoff url_ttl now) (pw_store w') row)"
proof -
  have "rows_left rank [] w \<le> length (pw_rows w)" by (simp add: rows_left_def)
  with assms(4) have "rows_left rank [] w < fuel" by simp
  moreover have "\<forall>row\<in>set (pw_rows w). expired_row (stamp (purge_cutoff url_ttl now)) row \<longrightarrow>
      rank [] < rank (row_id row)" using assms(2) by (simp add: table_sound_def)
  ultimately obtain w' rs where w': "purge_loop (postgres_env fmt t_bc stamp rank client pf)
        (purge_cutoff url_ttl now) fuel [] w = Some w'"
    and p: "purged (purge_cutoff url_ttl now) rs w w'"
    and rs: "set rs = {row \<in> set (pw_rows w). stale_row stamp url_ttl now row}"
    unfolding stale_row_def
    using purge_loop_exact [OF assms(1,3,2), where a = "[]" and n = fuel and fmt = fmt and t_bc = t_bc]
    by blast
  have "filter (\<lambda>row. row \<notin> set rs) (pw_rows w) = filter (\<lambda>row. \<not> stale_row stamp url_ttl now row) (pw_rows w)"
    by (auto simp: rs intro: filter_cong)
  moreover have "(\<exists>row\<in>set rs. row_artifact row = key) =
      (\<exists>row\<in>set (pw_rows w). stale_row stamp url_ttl now row \<and> row_artifact row = key)" for key
    unfolding rs by blast
  ultimately show ?thesis using w' p rs by (auto simp: purge_expired_def purged_def)
qed

definition expired_job_row :: row where
  "expired_job_row = (job_row (\<lambda>x. x) 7 finished_job)
     \<lparr>row_storage := ''s3'', row_artifact := ''artifacts/a/f.mp4'', row_expires_at := Some 3\<rparr>"

definition sample_purge_world :: purge_world where
  "sample_purge_world = \<lparr>pw_store = new_store [] 0,
     pw_objects = [''artifacts/a/f.mp4'' \<mapsto> [1], ''other'' \<mapsto> [2]], pw_rows = [expired_job_row]\<rparr>"

definition calm_faults :: purge_faults where
  "calm_faults = \<lparr>pf_live = \<lambda>_. True, pf_list = \<lambda>_. None, pf_delete = \<lambda>_. Executed\<rparr>"

definition calm_client :: s3_client where
  "calm_client = \<lparr>sc_new = \<lambda>_. None, sc_put = \<lambda>_. None, sc_remove = \<lambda>_. None, sc_presign = \<lambda>_ _. Inr []\<rparr>"

lemma sample_purge_simps:
  "pw_rows sample_purge_world = [expired_job_row]" "row_id expired_job_row = ''a''"
  "row_artifact expired_job_row = ''artifacts/a/f.mp4''" "row_expires_at expired_job_row = Some 3"
  "quiet calm_client calm_faults" "stale_row (\<lambda>x. x) 2 9 expired_job_row"
  "pw_objects sample_purge_world ''other'' = Some [2]"
  by (simp_all add: sample_purge_world_def expired_job_row_def finished_job_simps quiet_def calm_client_def
      calm_faults_def stale_row_def expired_row_def purge_cutoff_def job_row_def has_prefix_def)

lemma purge_complete_witness:
  "\<exists>w'. purge_expired (postgres_env (\<lambda>_. []) 0 (\<lambda>x. x) length calm_client calm_faults) 2 9 2 sample_purge_world
      = Some w' \<and> pw_rows w' = [] \<and> pw_objects w' ''artifacts/a/f.mp4'' = None \<and> pw_objects w' ''other'' = Some [2]"
  using purge_complete [of calm_client calm_faults "\<lambda>x. x" length sample_purge_world 2 9 2 "\<lambda>_. []" 0]
  by (auto simp: sample_purge_simps table_sound_def)

lemma purge_ends_witness:
  "purge_expired (postgres_env (\<lambda>_. []) 0 (\<lambda>x. x) length calm_client calm_faults) 2 9 2 sample_purge_world \<noteq> None"
  using purge_ends [of sample_purge_world 2 "\<lambda>_. []" 0 "\<lambda>x. x" length calm_client calm_faults 2 9]
  by (simp add: sample_purge_simps)

lemma purge_safe_witness:
  "\<exists>w'. purge_expired (postgres_env (\<lambda>_. []) 0 (\<lambda>x. x) length calm_client
        (calm_faults\<lparr>pf_list := \<lambda>_. Some (Query_failed (Err []))\<rparr>)) 2 9 1 sample_purge_world = Some w'
    \<and> pw_objects w' ''other'' = Some [2]"
proof -
  let ?pf = "calm_faults\<lparr>pf_list := \<lambda>_. Some (Query_failed (Err []))\<rparr>"
  have "purge_expired (postgres_env (\<lambda>_. []) 0 (\<lambda>x. x) length calm_client ?pf) 2 9 1 sample_purge_world
      = Some sample_purge_world"
    by (simp add: purge_expired_def postgres_env_def calm_faults_def list_expired_def)
  from purge_safe [OF this] this show ?thesis
    by (auto simp: sample_purge_simps has_prefix_def)
qed

section \<open>The sweep of stale files\<close>

text \<open>C30: With the artifacts on the local disk, the hourly sweep removes exactly the files below the
  directory of the jobs that are old enough and whose path names a partial file, a video or an audio
  file; every other file, the finished artifacts among them, stays. Whether a job is still running
  does not matter.\<close>

theorem sweep_exact:
  assumes "backend \<noteq> ''s3''" and "\<And>p. f_remove fl p = None"
  shows "clean_data fl walk data backend max_age now d p =
    (if \<exists>e\<in>set (walk (join_path [data, ''jobs''])). we_path e = p \<and> we_error e = None \<and> \<not> we_is_dir e
          \<and> (\<exists>t. we_mod_time e = Inr t \<and> t \<le> now - max_age) \<and> unfinished_name p
     then None else d p)"
proof (cases "\<exists>e\<in>set (walk (join_path [data, ''jobs''])). we_path e = p \<and> we_error e = None \<and> \<not> we_is_dir e
          \<and> (\<exists>t. we_mod_time e = Inr t \<and> t \<le> now - max_age) \<and> unfinished_name p")
  case True
  then obtain e t where e: "e \<in> set (walk (join_path [data, ''jobs'']))" "we_path e = p" "we_error e = None"
    "\<not> we_is_dir e" "we_mod_time e = Inr t" "t \<le> now - max_age" "unfinished_name p" by blast
  with clean_jobs_removes [of e, OF e(1,3,4,5,6)] assms(2) True assms(1) show ?thesis
    by (simp add: clean_data_def Let_def)
next
  case False
  then have "clean_jobs fl (now - max_age) (walk (join_path [data, ''jobs''])) d p = d p"
    by (intro clean_jobs_keeps) blast
  with False assms(1) show ?thesis by (simp only: clean_data_def Let_def if_False)
qed

lemma sweep_exact_witness:
  "clean_data no_faults
     (\<lambda>root. [\<lparr>we_path = ''/d/jobs/a/video.mp4'', we_error = None, we_is_dir = False, we_mod_time = Inr 1\<rparr>])
     ''/d'' ''local'' 10 20 [''/d/jobs/a/video.mp4'' \<mapsto> [1], ''/d/artifacts/a/f.mp4'' \<mapsto> [2]] ''/d/artifacts/a/f.mp4''
   = Some [2]
   \<and> clean_data no_faults
     (\<lambda>root. [\<lparr>we_path = ''/d/jobs/a/video.mp4'', we_error = None, we_is_dir = False, we_mod_time = Inr 1\<rparr>])
     ''/d'' ''local'' 10 20 [''/d/jobs/a/video.mp4'' \<mapsto> [1], ''/d/artifacts/a/f.mp4'' \<mapsto> [2]] ''/d/jobs/a/video.mp4''
   = None"
  by (simp add: sweep_exact no_faults_def unfinished_name_def has_prefix_def)

end
