(* ===== verification/Api_Spec.thy ===== *)
theory Api_Spec
  imports Api Purge_Spec Pipeline_Outcome
begin

text \<open>
  What the handlers of the API promise: what a posted job leaves behind on every branch and how it is
  answered for once a worker has had its turn, that an artifact is served only while it may be, what
  a deletion removes, what the deep health check reports, and how paths lead to jobs.
\<close>

section \<open>Creating\<close>

text \<open>The requests of one client run alone.\<close>

definition alone :: "'u api_env \<Rightarrow> bool" where
  "alone srv \<longleftrightarrow> web_pass srv = (\<lambda>_ st. st)"

lemma aloneD [simp]: "alone srv \<Longrightarrow> web_pass srv k st = st"
  by (simp add: alone_def)

lemma create_error: "create digest fmt t1 t2 t3 new url opts auth s = (s', Inl e) \<Longrightarrow> s' = s"
  by (auto simp: create_def Let_def split: prod.splits sum.splits create_outcome.splits)

lemma create_existing:
  "create digest fmt t1 t2 t3 new url opts auth s = (s', Inr (r, cached, False)) \<Longrightarrow> s' = s"
proof -
  assume c: "create digest fmt t1 t2 t3 new url opts auth s = (s', Inr (r, cached, False))"
  obtain kr opts' where ck: "cache_key_of digest url opts auth = (kr, opts')" by fastforce
  with c obtain key i where k: "kr = Inr key" "new = Inr i"
    by (auto simp: create_def Let_def split: sum.splits)
  obtain s1 oc where cl: "create_locked t2 (new_record i key url auth opts' t1) s = (s1, oc)" by fastforce
  with c ck k show ?thesis
    by (cases oc) (auto simp: create_def Let_def dest: create_locked_existing)
qed

lemma create_fresh:
  assumes "create digest fmt t1 t2 t3 new url opts auth s = (s', Inr (r, cached, True))"
  shows "new = Inr (job_id r) \<and> jobs s' (job_id r) = Some r \<and> job_status r = Queued
    \<and> expires_at r = None \<and> \<not> cached"
proof -
  obtain kr opts' where ck: "cache_key_of digest url opts auth = (kr, opts')" by fastforce
  with assms obtain key i where k: "kr = Inr key" "new = Inr i"
    by (auto simp: create_def Let_def split: sum.splits)
  let ?rec = "new_record i key url auth opts' t1"
  obtain s1 oc where cl: "create_locked t2 ?rec s = (s1, oc)" by fastforce
  with assms ck k obtain x where x: "oc = Created x"
    by (cases oc) (auto simp: create_def Let_def)
  with cl have j: "jobs s1 (job_id ?rec) = Some ?rec" using create_locked_created by blast
  have "s' = notify ?rec (broadcast fmt t3 i (case x of None \<Rightarrow> s1 | Some j \<Rightarrow> broadcast fmt t3 j s1))"
    and r: "r = ?rec" "\<not> cached"
    using assms ck k cl x by (auto simp: create_def Let_def)
  then have "jobs s' = jobs s1" by (simp split: option.split)
  with j r k show ?thesis by simp
qed

lemma read_create_request_status:
  "read_create_request lib body = Inl rp \<Longrightarrow> rp_status rp = 400"
  by (auto simp: read_create_request_def write_error_def write_json_def split: sum.splits if_splits)

text \<open>What a posted job can leave behind.\<close>

definition posted :: "'u api_env \<Rightarrow> api_state \<Rightarrow> api_state \<Rightarrow> reply \<Rightarrow> bool" where
  "posted srv st st' rp \<longleftrightarrow>
     (if rp_status rp = 201
      then (\<exists>i cached. rp_body rp = Json_body (created_json i cached)
        \<and> (st' = st
           \<or> as_queue st' = as_queue st @ [i] \<and> web_new_id srv = Inr i \<and> \<not> cached
             \<and> int (length (as_queue st)) < cf_max_queue_size (web_config srv)
             \<and> (\<exists>r. jobs (as_store st') i = Some r \<and> job_status r = Queued \<and> expires_at r = None)))
      else if rp_status rp = 429
      then as_queue st' = as_queue st \<and> cf_max_queue_size (web_config srv) \<le> int (length (as_queue st))
        \<and> (\<exists>i r. web_new_id srv = Inr i \<and> jobs (as_store st') i = Some r \<and> job_status r = Failed
             \<and> error_code r = Some ''queue_full'')
      else st' = st \<and> rp_status rp \<in> {400, 500, 503, 507})"

lemma write_status [simp]:
  "rp_status (write_json h n v) = n" "rp_body (write_json h n v) = Json_body v"
  "rp_status (write_error h n c m) = n" "rp_status (not_found m) = 404"
  by (simp_all add: write_json_def write_error_def not_found_def)

lemma hand_over_posted:
  assumes "alone srv" and new: "created \<Longrightarrow> web_new_id srv = Inr (job_id r)
      \<and> jobs (as_store st1) (job_id r) = Some r \<and> job_status r = Queued \<and> expires_at r = None \<and> \<not> cached"
    and old: "\<not> created \<Longrightarrow> st1 = st" and q: "as_queue st1 = as_queue st"
    and h: "hand_over srv r cached created st1 = (st', rp)"
  shows "posted srv st st' rp"
proof (cases created)
  case False
  with h old have "st' = st" "rp = write_json [] 201 (created_json (job_id r) cached)"
    by (auto simp: hand_over_def)
  then show ?thesis by (simp add: posted_def) blast
next
  case True
  show ?thesis
  proof (cases "int (length (as_queue st)) < cf_max_queue_size (web_config srv)")
    case fits: True
    with h True q have "as_queue st' = as_queue st @ [job_id r]" "as_store st' = as_store st1"
      "rp = write_json [] 201 (created_json (job_id r) cached)"
      by (auto simp: hand_over_def enqueue_def)
    with new [OF True] fits show ?thesis unfolding posted_def by fastforce
  next
    case full: False
    with h True q have st': "st' = st1\<lparr>as_store := fail (web_fmt srv) (web_clock srv 3) (web_clock srv 4) (job_id r)
          ''queue_full'' (Err ''job queue is full'') (as_store st1)\<rparr>" "rp_status rp = 429"
      using assms(1) by (auto simp: hand_over_def enqueue_def Let_def)
    have "jobs (as_store st') (job_id r) = Some (fail_job (web_clock srv 3) ''queue_full''
        (error_text (Err ''job queue is full'')) r)"
      using new [OF True] by (simp add: st'(1) fail_def jobs_update)
    with st' full q new [OF True] show ?thesis
      by (auto simp: posted_def fail_job_def)
  qed
qed

lemma create_job_posted:
  assumes "alone srv" and "create_job srv rq st = (st', rp)"
  shows "posted srv st st' rp"
proof -
  note c = assms(2) [unfolded create_job_def Let_def, simplified aloneD [OF assms(1)]]
  consider e where "check (web_stat srv) (as_monitor st) = Inl e"
    | cap where "check (web_stat srv) (as_monitor st) = Inr cap" "\<not> cap_available cap"
    | cap rp' where "check (web_stat srv) (as_monitor st) = Inr cap" "cap_available cap"
        "read_create_request (web_lib srv) (rq_body rq) = Inl rp'"
    | cap url opts where "check (web_stat srv) (as_monitor st) = Inr cap" "cap_available cap"
        "read_create_request (web_lib srv) (rq_body rq) = Inr (url, opts)"
    by (metis surj_pair sum.exhaust)
  then show ?thesis
  proof cases
    case 4
    let ?c = "create (web_digest srv) (web_fmt srv) (web_clock srv 0) (web_clock srv 1) (web_clock srv 2)
                (web_new_id srv) url opts (rq_authorization rq) (as_store st)"
    obtain s' out where cr: "?c = (s', out)" by fastforce
    show ?thesis
    proof (cases out)
      case (Inl e)
      with cr have "s' = as_store st" using create_error by blast
      with c 4 cr Inl show ?thesis by (auto simp: posted_def)
    next
      case (Inr x)
      obtain r cached created where x: "x = (r, cached, created)" by (cases x)
      with c 4 cr Inr have h: "hand_over srv r cached created (st\<lparr>as_store := s'\<rparr>) = (st', rp)" by simp
      show ?thesis
      proof (rule hand_over_posted [OF assms(1) _ _ _ h])
        show "web_new_id srv = Inr (job_id r) \<and> jobs (as_store (st\<lparr>as_store := s'\<rparr>)) (job_id r) = Some r
            \<and> job_status r = Queued \<and> expires_at r = None \<and> \<not> cached" if created
          using create_fresh [of "web_digest srv" "web_fmt srv"] cr Inr x that by fastforce
        show "st\<lparr>as_store := s'\<rparr> = st" if "\<not> created"
          using create_existing [of "web_digest srv" "web_fmt srv"] cr Inr x that by fastforce
      qed simp
    qed
  qed (use c read_create_request_status in \<open>auto simp: posted_def\<close>)
qed

text \<open>C11: What a posted job leaves behind. A request that is refused before a job is made (the disk cannot
  be checked or is full, the body or the URL is bad, the identity cannot be made) changes nothing. An
  accepted one either finds an existing job, and changes nothing, or leaves its new job queued in the
  store and last in the queue of the workers. When that queue is full, it stays as it is and the new
  job is left failed, so that it is neither run nor served to the next request.\<close>

theorem post_outcomes:
  assumes "alone srv" and "create_job srv rq st = (st', rp)"
  shows "if rp_status rp = 201
      then \<exists>i cached. rp_body rp = Json_body (created_json i cached)
        \<and> (st' = st
           \<or> as_queue st' = as_queue st @ [i] \<and> web_new_id srv = Inr i \<and> \<not> cached
             \<and> int (length (as_queue st)) < cf_max_queue_size (web_config srv)
             \<and> (\<exists>r. jobs (as_store st') i = Some r \<and> job_status r = Queued \<and> expires_at r = None))
      else if rp_status rp = 429
      then as_queue st' = as_queue st \<and> cf_max_queue_size (web_config srv) \<le> int (length (as_queue st))
        \<and> (\<exists>i r. web_new_id srv = Inr i \<and> jobs (as_store st') i = Some r \<and> job_status r = Failed
             \<and> error_code r = Some ''queue_full'')
      else st' = st \<and> rp_status rp \<in> {400, 500, 503, 507}"
  using create_job_posted [OF assms] unfolding posted_def .

text \<open>C10: A posted job is answered for. Once a worker has had its turn with a job the API has just made,
  whatever the other goroutines did in the meantime, asking for the job gives a response that says it is done
  or failed, or that it is not there (when it was deleted).\<close>

theorem posted_job_answered:
  assumes "alone srv" and "create_job srv rq st = (st', rp)" and "rp_status rp = 201" and "st' \<noteq> st"
    and "i = last (as_queue st')" and "others_pass rn i files key" and "w_store w = as_store st'"
    and "process_job rn i w = Some w'"
  shows "let rp' = snd (get_job_reply srv i (st'\<lparr>as_store := w_store w'\<rparr>))
    in rp' = not_found ''job not found''
       \<or> (\<exists>r. jobs (w_store w') i = Some r \<and> job_status r \<in> {Done, Failed}
            \<and> rp' = write_json [] 200 (response_json
                 (to_response (web_fmt srv) (base_url (w_store w')) (web_clock srv 0) r)))"
proof -
  have "waiting i w"
    using create_job_posted [OF assms(1,2)] assms(3-5,7) by (auto simp: posted_def waiting_def)
  then have "ended i w'" using process_ends assms(6,8) by blast
  then show ?thesis using assms(1)
    by (auto simp: ended_def settled_def get_job_reply_def response_of_def Let_def split: option.splits)
qed

section \<open>The other requests\<close>

text \<open>C21: An artifact is served only while it may be. Whatever the other goroutines do, a request for an
  artifact is answered with one only if the job, as the handler read it, was done, had an artifact, and
  this had not expired; and what is served is what the store of artifacts keeps at the location of the
  record, under the file name of the record.\<close>

theorem artifact_guarded:
  assumes "artifact_reply srv i st = (st', rp)" and "rp_body rp = Served_body sv"
  shows "\<exists>r. jobs (as_store (web_pass srv 0 st)) i = Some r \<and> job_status r = Done \<and> artifact r \<noteq> []
    \<and> (case expires_at r of None \<Rightarrow> True | Some t \<Rightarrow> web_clock srv 0 < t)
    \<and> store_serve (web_client srv) (web_files srv)
        \<lparr>sv_backend = storage_backend r, sv_location = artifact r, sv_expires = None\<rparr>
        (case resolved r of None \<Rightarrow> [] | Some res \<Rightarrow> res_file_name res)
        (as_disk (web_pass srv 1 (web_pass srv 0 st))) = Inr sv
    \<and> as_store st' = as_store (web_pass srv 1 (web_pass srv 0 st))"
proof (cases "jobs (as_store (web_pass srv 0 st)) i")
  case None
  with assms show ?thesis by (auto simp: artifact_reply_def get_job_def not_found_def write_error_def write_json_def)
next
  case (Some r)
  with assms have live: "\<not> (job_status r \<noteq> Done \<or> artifact r = [])" "\<not> artifact_expired r (web_clock srv 0)"
    by (auto simp: artifact_reply_def get_job_def not_found_def write_error_def write_json_def Let_def
        split: if_splits)
  with assms Some show ?thesis
    by (auto simp: artifact_reply_def get_job_def write_error_def write_json_def artifact_expired_def
        after_def Let_def split: sum.splits option.splits)
qed


lemma note_checks_status:
  "snd (foldl note_check acc checks) = (if \<exists>(n, e)\<in>set checks. e \<noteq> None then 503 else snd acc)"
  by (induction checks arbitrary: acc) (auto simp: note_check_def split: option.split)

text \<open>The deep health check is sound. It answers 200 and says ok exactly when every check passed and the
  disk is healthy, and answers 503 and says degraded otherwise.\<close>

theorem health_deep_sound:
  assumes "health_deep srv st = (st', rp)"
  shows "rp_status rp \<in> {200, 503}
    \<and> (rp_status rp = 200 \<longleftrightarrow> (\<forall>(n, e)\<in>set (web_checks srv). e = None)
         \<and> health (web_stat srv) (as_monitor (web_pass srv 0 st)) = None)
    \<and> (\<exists>found. rp_body rp = Json_body (JObj
         [(''status'', put_string (if rp_status rp = 200 then ''ok'' else ''degraded'')), (''checks'', found)]))"
proof -
  let ?cs = "web_checks srv @ [(''disk'', health (web_stat srv) (as_monitor (web_pass srv 0 st)))]"
  obtain found status where f: "foldl note_check ([(''service'', ''ok'')], 200) ?cs = (found, status)"
    by fastforce
  have st: "status = (if \<exists>(n, e)\<in>set ?cs. e \<noteq> None then 503 else 200)"
    using note_checks_status [of "([(''service'', ''ok'')], 200)" ?cs] unfolding f by simp
  have "rp = write_json [] status (JObj [(''status'', put_string (health_text status)),
      (''checks'', JObj (map (\<lambda>(k, v). (k, put_string v)) found))])"
    using assms f by (simp add: health_deep_def Let_def del: foldl_append)
  then show ?thesis using st by (auto simp: health_text_def)
qed

section \<open>Paths\<close>

lemma trim_prefix_append: "trim_prefix (p @ s) p = s"
  by (simp add: trim_prefix_def)

lemma hd_append_no_slash: "CHR ''/'' \<notin> set i \<Longrightarrow> i \<noteq> [] \<Longrightarrow> hd (i @ s) \<notin> set ''/''"
  by (cases i) auto

lemma parse_job_path_sound:
  assumes "parse_job_path p = Some (i, action)"
  shows "i \<noteq> [] \<and> CHR ''/'' \<notin> set i \<and> CHR ''/'' \<notin> set action"
proof -
  let ?w = "split_at (CHR ''/'') (trim_chars ''/'' (trim_prefix p ''/jobs/''))"
  have ns: "\<forall>e\<in>set ?w. CHR ''/'' \<notin> set e" by (rule split_at_no_sep)
  show ?thesis
  proof (cases ?w)
    case Nil
    with assms show ?thesis by (simp add: parse_job_path_def)
  next
    case (Cons a ws)
    show ?thesis
    proof (cases a)
      case Nil
      with assms Cons show ?thesis by (simp add: parse_job_path_def)
    next
      case (Cons c cs)
      with assms \<open>?w = a # ws\<close> ns show ?thesis
        by (cases ws; cases "tl ws") (auto simp: parse_job_path_def split: list.splits)
    qed
  qed
qed

lemma parse_job_path_job:
  assumes "i \<noteq> []" and "CHR ''/'' \<notin> set i"
  shows "parse_job_path (''/jobs/'' @ i) = Some (i, [])"
proof -
  have "last i \<notin> set ''/''" using assms by (metis last_in_set list.set(1,2) singletonD)
  then have "trim_chars ''/'' i = i"
    using hd_append_no_slash [of i "[]"] assms by (intro trim_chars_same) simp
  moreover have "split_at (CHR ''/'') i = [i]" using assms(2) by (rule split_at_one)
  ultimately have "parse_job_path (''/jobs/'' @ i) = (case [i] of [] \<Rightarrow> None | [] # _ \<Rightarrow> None
      | [i] \<Rightarrow> Some (i, []) | [i, action] \<Rightarrow> Some (i, action) | _ \<Rightarrow> None)"
    by (simp only: parse_job_path_def trim_prefix_append)
  with assms(1) show ?thesis by (cases i) simp_all
qed

lemma parse_job_path_action:
  assumes "i \<noteq> []" and "CHR ''/'' \<notin> set i" and "action \<noteq> []" and "CHR ''/'' \<notin> set action"
  shows "parse_job_path (''/jobs/'' @ i @ ''/'' @ action) = Some (i, action)"
proof -
  have "last action \<notin> set ''/''" using assms by (metis last_in_set list.set(1,2) singletonD)
  then have "trim_chars ''/'' (i @ ''/'' @ action) = i @ ''/'' @ action"
    using hd_append_no_slash [of i "''/'' @ action"] assms by (intro trim_chars_same) simp
  moreover have "split_at (CHR ''/'') (i @ ''/'' @ action) = [i, action]"
    using assms split_at_append [of "CHR ''/''" i action] by (simp add: split_at_one)
  ultimately show ?thesis using assms(1)
    by (simp only: parse_job_path_def trim_prefix_append) (cases i; simp)
qed

text \<open>Paths and jobs correspond. The path of a job, and that of an action on it, lead back to the job
  and the action, and whatever path is accepted, neither the identity nor the action it leads to has a
  slash and the identity is not empty.\<close>

theorem job_path_round_trip:
  "(i \<noteq> [] \<and> CHR ''/'' \<notin> set i \<longrightarrow> parse_job_path (''/jobs/'' @ i) = Some (i, []))
   \<and> (i \<noteq> [] \<and> CHR ''/'' \<notin> set i \<and> action \<noteq> [] \<and> CHR ''/'' \<notin> set action \<longrightarrow>
        parse_job_path (''/jobs/'' @ i @ ''/'' @ action) = Some (i, action))
   \<and> (parse_job_path p = Some (j, act) \<longrightarrow> j \<noteq> [] \<and> CHR ''/'' \<notin> set j \<and> CHR ''/'' \<notin> set act)"
  using parse_job_path_job parse_job_path_action parse_job_path_sound by blast

section \<open>Examples\<close>

definition web_sample :: "string api_env" where
  "web_sample = \<lparr>web_lib = sample_lib, web_config = sample_config, web_fmt = (\<lambda>_. []), web_clock = int,
     web_digest = (\<lambda>_. Inr ''k''), web_new_id = Inr ''a'',
     web_stat = Inr \<lparr>st_blocks = 1000, st_bavail = 900, st_bsize = 1\<rparr>, web_faults = no_faults,
     web_client = calm_client, web_files = Local_store, web_checks = [(''artifact'', None)],
     web_build = ([], [], []), web_moved = 307, web_pass = (\<lambda>_ st. st)\<rparr>"

definition idle_state :: api_state where
  "idle_state = \<lparr>as_store = new_store [] 0, as_queue = [], as_monitor = w_monitor sample_world,
     as_disk = Map.empty, as_objects = Map.empty, as_cancelled = []\<rparr>"

definition post_request :: api_request where
  "post_request = \<lparr>rq_method = ''POST'', rq_path = ''/jobs'', rq_authorization = [],
     rq_body = Inr (JObj [(''url'', JStr '' u '')])\<rparr>"

definition finished_state :: api_state where
  "finished_state = idle_state\<lparr>as_store := finished_store, as_disk := [''/o/f.mp4'' \<mapsto> [1], ''/o/g'' \<mapsto> [2]]\<rparr>"

lemma sample_post:
  "case create_job web_sample post_request idle_state of (st', rp) \<Rightarrow>
     rp_status rp = 201 \<and> as_queue st' = [''a'']
     \<and> (case process_job full_runner ''a'' (sample_world\<lparr>w_store := as_store st'\<rparr>) of
          None \<Rightarrow> False | Some w \<Rightarrow> map_option job_status (jobs (w_store w) ''a'') = Some Failed)"
  by code_simp

lemma sample_alone: "alone web_sample"
  by (simp add: alone_def web_sample_def)

lemma post_outcomes_witness:
  "\<exists>st' rp. create_job web_sample post_request idle_state = (st', rp) \<and> rp_status rp = 201
    \<and> (\<exists>r. jobs (as_store st') ''a'' = Some r \<and> job_status r = Queued)"
proof -
  obtain st' rp where c: "create_job web_sample post_request idle_state = (st', rp)" by fastforce
  with sample_post have rp: "rp_status rp = 201" and q: "as_queue st' = [''a'']" by simp_all
  have "as_queue idle_state = []" by (simp add: idle_state_def)
  with q have "st' \<noteq> idle_state" by auto
  with post_outcomes [OF sample_alone c] rp q \<open>as_queue idle_state = []\<close> c show ?thesis by auto
qed

lemma posted_job_answered_witness:
  "\<exists>(st' :: api_state) (w' :: world) r. jobs (w_store w') ''a'' = Some r \<and> job_status r = Failed
    \<and> snd (get_job_reply web_sample ''a'' (st'\<lparr>as_store := w_store w'\<rparr>)) =
        write_json [] 200 (response_json (to_response (\<lambda>_. []) (base_url (w_store w')) 0 r))"
proof -
  obtain st' rp where c: "create_job web_sample post_request idle_state = (st', rp)" by fastforce
  let ?w = "sample_world\<lparr>w_store := as_store st'\<rparr>"
  from c sample_post have rp: "rp_status rp = 201" and q: "as_queue st' = [''a'']" by simp_all
  from c sample_post obtain w' r where w': "process_job full_runner ''a'' ?w = Some w'"
    and r: "jobs (w_store w') ''a'' = Some r" "job_status r = Failed"
    by (auto split: option.splits)
  have "as_queue idle_state = []" by (simp add: idle_state_def)
  with q have ne: "st' \<noteq> idle_state" by auto
  have "snd (get_job_reply web_sample ''a'' (st'\<lparr>as_store := w_store w'\<rparr>)) \<noteq> not_found ''job not found''"
    using r sample_alone by (simp add: get_job_reply_def response_of_def not_found_def write_error_def write_json_def Let_def)
  with posted_job_answered [OF sample_alone c rp ne _ sample_others _ w'] q r
  have "snd (get_job_reply web_sample ''a'' (st'\<lparr>as_store := w_store w'\<rparr>)) =
      write_json [] 200 (response_json (to_response (web_fmt web_sample) (base_url (w_store w')) (web_clock web_sample 0) r))"
    by (auto simp: Let_def)
  moreover have "web_fmt web_sample = (\<lambda>_. [])" "web_clock web_sample 0 = 0" by (simp_all add: web_sample_def)
  ultimately have "snd (get_job_reply web_sample ''a'' (st'\<lparr>as_store := w_store w'\<rparr>)) =
      write_json [] 200 (response_json (to_response (\<lambda>_. []) (base_url (w_store w')) 0 r))" by simp
  then show ?thesis using r by blast
qed

lemma artifact_guarded_witness:
  "\<exists>st' rp r. artifact_reply web_sample ''a'' finished_state = (st', rp)
    \<and> rp_body rp = Served_body (File ''/o/f.mp4'') \<and> jobs (as_store finished_state) ''a'' = Some r
    \<and> job_status r = Done"
proof -
  obtain st' rp where a: "artifact_reply web_sample ''a'' finished_state = (st', rp)" by fastforce
  then have b: "rp_body rp = Served_body (File ''/o/f.mp4'')"
    by (auto simp: artifact_reply_def web_sample_def finished_state_def get_job_def finished_store_def
        finished_job_simps artifact_expired_def store_serve_def local_serve_def Let_def)
  from artifact_guarded [OF a b] a b show ?thesis by (auto simp: web_sample_def)
qed

lemma finished_store_inv: "store_inv finished_store"
  by (auto simp: store_inv_def index_inv_def chan_inv_def finished_store_def new_store_def listeners_of_def
      finished_job_simps split: if_splits)


lemma job_path_round_trip_witness:
  "parse_job_path ''/jobs/0a'' = Some (''0a'', []) \<and> parse_job_path ''/jobs/0a/cancel'' = Some (''0a'', ''cancel'')"
  using job_path_round_trip [of "''0a''" "''cancel''"] by simp

end
