(* ===== verification/Server_Main.thy ===== *)
theory Server_Main
  imports Api_Spec
begin

text \<open>
  \<open>cmd/server\<close> (\<open>main.go\<close>, \<open>lifecycle.go\<close>) and \<open>internal/job/id.go\<close>: what the process opens, starts,
  restores and serves, and the order in which it ends it all. The trace lists the effects; the servers
  it talks to, the file system and the listener are arguments.
\<close>

section \<open>Identities\<close>

definition byte_hex :: "byte \<Rightarrow> string" where
  "byte_hex b = (let n = unat b; digit = (\<lambda>d. if d < 10 then char_of (48 + d) else char_of (87 + d))
     in [digit (n div 16), digit (n mod 16)])"

definition hex_encode :: "byte list \<Rightarrow> string" where
  "hex_encode bs = concat (map byte_hex bs)"

text \<open>\<open>random\<close> is what \<open>rand.Read\<close> makes of an array of 12 bytes.\<close>

definition new_id :: "byte list result \<Rightarrow> string result" where
  "new_id random =
     (case random of
        Inl e \<Rightarrow> Inl (Wrap ''generate job id: '' e [])
      | Inr bs \<Rightarrow> Inr (hex_encode bs))"

section \<open>The artifact store\<close>

definition artifact_url_ttl :: "config \<Rightarrow> int" where
  "artifact_url_ttl cfg =
     (let ttl = mul64 (cf_artifact_ttl cfg) 1000000000 in if ttl \<le> 0 then 15 * minute else ttl)"

definition artifact_store_of :: "s3_client \<Rightarrow> config \<Rightarrow> artifact_store result" where
  "artifact_store_of client cfg =
     (if cf_storage_backend cfg = ''s3''
      then rbind (new_s3_store client
             \<lparr>s3_endpoint = cf_s3_endpoint cfg, s3_public_endpoint = cf_s3_public_endpoint cfg,
              s3_region = cf_s3_region cfg, s3_bucket = cf_s3_bucket cfg,
              s3_access_key = cf_s3_access_key cfg, s3_secret_key = cf_s3_secret_key cfg,
              s3_use_ssl = cf_s3_use_ssl cfg, s3_public_use_ssl = cf_s3_public_use_ssl cfg,
              s3_path_style = cf_s3_path_style cfg, s3_url_ttl = artifact_url_ttl cfg\<rparr>)
             (\<lambda>st. Inr (S3_store st))
      else Inr Local_store)"

section \<open>The sinks\<close>

datatype sink_kind = Dragonfly | Postgres

datatype effect =
    Open_sink sink_kind
  | Close_sink sink_kind
  | Workers_started int
  | Purge_started bool
  | Cleaner_started
  | Serving
  | Workers_cancelled
  | Purge_awaited
  | Workers_awaited

text \<open>What the database answers.\<close>

record db_env =
  de_connect :: "error option"
  de_migrate :: "error option"
  de_done :: "job_record list result"
  de_runnable :: "job_record list result"

text \<open>The trace, and the sinks with the records to restore, or the error.\<close>

definition open_sinks ::
  "config \<Rightarrow> db_env \<Rightarrow> effect list \<times> (sink_kind list \<times> job_record list \<times> job_record list) result" where
  "open_sinks cfg db =
     (let first = (if cf_redis_addr cfg \<noteq> [] then [Dragonfly] else []); opened = map Open_sink first
      in if cf_database_url cfg = [] then (opened, Inr (first, [], []))
         else case open_postgres (de_connect db) (de_migrate db) of
           Inl e \<Rightarrow> (opened @ map Close_sink first, Inl e)
         | Inr _ \<Rightarrow>
             (case de_done db of
                Inl e \<Rightarrow> (opened @ [Open_sink Postgres, Close_sink Postgres] @ map Close_sink first, Inl e)
              | Inr restored \<Rightarrow>
                  (case de_runnable db of
                     Inl e \<Rightarrow> (opened @ [Open_sink Postgres, Close_sink Postgres] @ map Close_sink first, Inl e)
                   | Inr todo \<Rightarrow>
                       (opened @ [Open_sink Postgres], Inr (first @ [Postgres], restored, todo)))))"

section \<open>Serving\<close>

definition server_closed :: error where
  "server_closed = Err ''http: Server closed''"

text \<open>Which comes first: the listener's error, or the end of the context.\<close>

datatype serve_end = Listen_failed error | Context_done

definition serve :: "serve_end \<Rightarrow> error option \<Rightarrow> error option \<Rightarrow> error \<Rightarrow> error option" where
  "serve first shutdown_err close_err listen_err =
     (case first of
        Listen_failed e \<Rightarrow> Some e
      | Context_done \<Rightarrow>
          (let stopped = (case shutdown_err of
                            None \<Rightarrow> None | Some e \<Rightarrow> join_errors (Some e) close_err);
               listened = (if errors_is listen_err server_closed then None else Some listen_err)
           in join_errors stopped listened))"

section \<open>The run of the server\<close>

text \<open>Queueing the pending jobs while the workers already take some (\<open>room\<close>): \<open>None\<close> while one waits for
  room. A job whose turn does not come before the context ends is only logged.\<close>

fun restore_queue ::
  "config \<Rightarrow> (nat \<Rightarrow> string list \<Rightarrow> string list) \<Rightarrow> (nat \<Rightarrow> bool) \<Rightarrow> (nat \<Rightarrow> error option) \<Rightarrow> nat
   \<Rightarrow> string list \<Rightarrow> string list \<Rightarrow> string list option" where
  "restore_queue cfg room sends ctx k [] q = Some q"
| "restore_queue cfg room sends ctx k (i # ids) q =
     (case enqueue_blocking cfg (sends k) (ctx k) i (room k q) of
        None \<Rightarrow> None
      | Some (q', _) \<Rightarrow> restore_queue cfg room sends ctx (Suc k) ids q')"

record main_env =
  me_client :: s3_client
  me_db :: db_env
  me_mkdir :: "error option"
  me_room :: "nat \<Rightarrow> string list \<Rightarrow> string list"
  me_sends :: "nat \<Rightarrow> bool"
  me_ctx :: "nat \<Rightarrow> error option"
  me_end :: serve_end
  me_shutdown :: "error option"
  me_close :: "error option"
  me_listen :: error

text \<open>What the server has when it starts to listen.\<close>

record running =
  ru_store :: store
  ru_queue :: "string list"
  ru_monitor :: monitor
  ru_files :: artifact_store
  ru_sinks :: "sink_kind list"
  ru_checks :: "string list"

definition sink_name :: "sink_kind \<Rightarrow> string" where
  "sink_name s = (case s of Dragonfly \<Rightarrow> ''dragonfly'' | Postgres \<Rightarrow> ''postgres'')"

definition files_name :: "artifact_store \<Rightarrow> string" where
  "files_name f = (case f of Local_store \<Rightarrow> ''artifact'' | S3_store _ \<Rightarrow> ''s3'')"

text \<open>The calls deferred by \<open>run\<close>, last first: end the workers and wait for them, then close the sinks.\<close>

definition stop_effects :: "sink_kind list \<Rightarrow> effect list" where
  "stop_effects sinks = [Workers_cancelled, Purge_awaited, Workers_awaited] @ map Close_sink sinks"

text \<open>\<open>None\<close> while \<open>run\<close> waits for room in the queue. The result has the trace, the state the handlers got,
  when it came to that, and the error \<open>run\<close> returns.\<close>

definition run_server ::
  "main_env \<Rightarrow> config \<Rightarrow> (effect list \<times> running option \<times> error option) option" where
  "run_server me cfg =
     (case artifact_store_of (me_client me) cfg of
        Inl e \<Rightarrow> Some ([], None, Some e)
      | Inr files \<Rightarrow>
          (case open_sinks cfg (me_db me) of
             (trace, Inl e) \<Rightarrow> Some (trace, None, Some e)
           | (trace, Inr (sinks, restored, todo)) \<Rightarrow>
               (let store0 = new_store (cf_public_base_url cfg) (length sinks);
                    (store1, ids) = restore_pending (map Some todo) (restore (map Some restored) store0)
                in case new_monitor (me_mkdir me) (cf_data_dir cfg) (cf_min_free_bytes cfg)
                          (cf_min_free_percent cfg) of
                     Inl e \<Rightarrow> Some (trace @ map Close_sink sinks, None, Some e)
                   | Inr disk \<Rightarrow>
                       (case restore_queue cfg (me_room me) (me_sends me) (me_ctx me) 0 ids [] of
                          None \<Rightarrow> None
                        | Some q \<Rightarrow>
                            Some (trace
                              @ [Workers_started (cf_max_workers cfg),
                                 Purge_started (purge_enabled (cf_storage_backend cfg) True (Postgres \<in> set sinks)),
                                 Cleaner_started, Serving]
                              @ stop_effects sinks,
                              Some \<lparr>ru_store = store1, ru_queue = q, ru_monitor = disk, ru_files = files,
                                    ru_sinks = sinks, ru_checks = map sink_name sinks @ [files_name files]\<rparr>,
                              serve (me_end me) (me_shutdown me) (me_close me) (me_listen me))))))"

text \<open>\<open>main\<close>: the exit code of the process.\<close>

definition exit_code :: "error option \<Rightarrow> int" where
  "exit_code e = (case e of None \<Rightarrow> 0 | Some _ \<Rightarrow> 1)"

section \<open>Identities are safe names\<close>

lemma byte_hex_safe: "set (byte_hex b) \<subseteq> set ''0123456789abcdef'' \<and> length (byte_hex b) = 2"
proof -
  have digit: "(if d < 10 then char_of (48 + d) else char_of (87 + d) :: char) \<in> set ''0123456789abcdef''"
    if "d < 16" for d :: nat
  proof -
    have "d = 0 \<or> d = 1 \<or> d = 2 \<or> d = 3 \<or> d = 4 \<or> d = 5 \<or> d = 6 \<or> d = 7 \<or> d = 8 \<or> d = 9
      \<or> d = 10 \<or> d = 11 \<or> d = 12 \<or> d = 13 \<or> d = 14 \<or> d = 15" using that by presburger
    then show ?thesis by (elim disjE) (simp_all add: char_of_def bit_numeral_rec bit_Suc_0_iff)
  qed
  have "unat b < 256" using unsigned_less [of b, where 'a = nat] by simp
  then have "unat b div 16 < 16" "unat b mod 16 < 16" by auto
  then show ?thesis using digit by (simp add: byte_hex_def Let_def)
qed

lemma hex_encode_safe: "set (hex_encode bs) \<subseteq> set ''0123456789abcdef'' \<and> length (hex_encode bs) = 2 * length bs"
  using byte_hex_safe by (induction bs) (auto simp: hex_encode_def)

lemma hex_digit_inj:
  "a < 16 \<Longrightarrow> b < 16 \<Longrightarrow>
   (if a < 10 then char_of (48 + a) else char_of (87 + a) :: char)
     = (if b < 10 then char_of (48 + b) else char_of (87 + b)) \<Longrightarrow> a = (b :: nat)"
  by (auto simp: char_of_eq_iff take_bit_nat_eq_self split: if_splits)

lemma byte_hex_inj: "byte_hex a = byte_hex b \<Longrightarrow> a = b"
proof -
  assume eq: "byte_hex a = byte_hex b"
  have small: "unat a div 16 < 16" "unat a mod 16 < 16" "unat b div 16 < 16" "unat b mod 16 < 16"
    using unsigned_less [of a, where 'a = nat] unsigned_less [of b, where 'a = nat] by auto
  from eq have "unat a div 16 = unat b div 16" "unat a mod 16 = unat b mod 16"
    using small hex_digit_inj by (auto simp: byte_hex_def Let_def simp del: if_split_asm)
  then have "unat a = unat b" by (metis div_mult_mod_eq)
  then show ?thesis by (rule unsigned_word_eqI)
qed

lemma hex_encode_inj: "hex_encode as = hex_encode bs \<Longrightarrow> as = bs"
proof (induction as arbitrary: bs)
  case Nil
  then have "length (hex_encode bs) = 0" by (simp add: hex_encode_def)
  then show ?case using hex_encode_safe [of bs] by simp
next
  case (Cons a as)
  then have "length (hex_encode bs) = 2 * Suc (length as)" using hex_encode_safe [of "a # as"] by simp
  then obtain b cs where bs: "bs = b # cs" using hex_encode_safe [of bs] by (cases bs) auto
  have "byte_hex a @ hex_encode as = byte_hex b @ hex_encode cs"
    using Cons.prems unfolding bs by (simp add: hex_encode_def)
  then have "byte_hex a = byte_hex b" "hex_encode as = hex_encode cs"
    using byte_hex_safe by simp_all
  then show ?case using Cons.IH byte_hex_inj unfolding bs by blast
qed

text \<open>An identity the program has made names one directory: its 24 digits have no slash and are not
  a dot, so it is a plain name; and two draws of twelve bytes give the same identity only if they are
  the same bytes. When there is no randomness, no identity is made.\<close>

theorem identities_plain:
  assumes "length bs = 12"
  shows "(\<exists>i. new_id (Inr bs) = Inr i \<and> length i = 24 \<and> plain i
      \<and> (\<forall>cs. new_id (Inr cs) = Inr i \<longrightarrow> cs = bs))
    \<and> (\<exists>e'. new_id (Inl e) = Inl e' \<and> errors_is e' e)"
proof -
  have "set (hex_encode bs) \<subseteq> set ''0123456789abcdef''" "length (hex_encode bs) = 24"
    using hex_encode_safe assms by auto
  then have "plain (hex_encode bs)" by (auto simp: plain_def)
  then show ?thesis
    using hex_encode_safe assms hex_encode_inj by (auto simp: new_id_def)
qed

lemma identities_plain_witness:
  "\<exists>i. new_id (Inr (replicate 12 255)) = Inr i \<and> length i = 24 \<and> plain i
      \<and> (\<forall>cs. new_id (Inr cs) = Inr i \<longrightarrow> cs = replicate 12 255)"
  using identities_plain [of "replicate 12 255"] by simp

section \<open>Order of a run\<close>

lemma open_sinks_cases:
  "open_sinks cfg db = (tr, Inl e) \<Longrightarrow>
     \<exists>sinks. distinct sinks \<and> tr = map Open_sink sinks @ map Close_sink (rev sinks)"
  "open_sinks cfg db = (tr, Inr (sinks, x)) \<Longrightarrow> distinct sinks \<and> tr = map Open_sink sinks"
proof -
  show "\<exists>sinks. distinct sinks \<and> tr = map Open_sink sinks @ map Close_sink (rev sinks)"
    if "open_sinks cfg db = (tr, Inl e)"
    using that
    by (auto simp: open_sinks_def Let_def split: if_splits sum.splits
        intro: exI [of _ "[]"] exI [of _ "[Dragonfly]"] exI [of _ "[Postgres]"] exI [of _ "[Dragonfly, Postgres]"])
  show "distinct sinks \<and> tr = map Open_sink sinks" if "open_sinks cfg db = (tr, Inr (sinks, x))"
    using that by (auto simp: open_sinks_def Let_def split: if_splits sum.splits)
qed

lemma run_server_cases:
  assumes "run_server me cfg = Some (tr, r, e)"
  obtains (refused) sinks closing where "distinct sinks" "set closing = set sinks" "distinct closing"
      "tr = map Open_sink sinks @ map Close_sink closing" "r = None" "e \<noteq> None"
  | (served) sinks n p ru where "distinct sinks"
      "tr = map Open_sink sinks @ [Workers_started n, Purge_started p, Cleaner_started, Serving]
         @ stop_effects sinks"
      "r = Some ru" "ru_sinks ru = sinks"
      "e = serve (me_end me) (me_shutdown me) (me_close me) (me_listen me)"
proof (cases "artifact_store_of (me_client me) cfg")
  case (Inl x)
  with assms show ?thesis by (intro refused [of "[]" "[]"]) (auto simp: run_server_def)
next
  case files: (Inr files)
  obtain tr0 y where o: "open_sinks cfg (me_db me) = (tr0, y)" by force
  show ?thesis
  proof (cases y)
    case (Inl x)
    with o obtain sinks where "distinct sinks" "tr0 = map Open_sink sinks @ map Close_sink (rev sinks)"
      using open_sinks_cases(1) by blast
    with assms files o Inl show ?thesis
      by (intro refused [of sinks "rev sinks"]) (auto simp: run_server_def)
  next
    case (Inr x)
    then obtain sinks restored todo where y: "y = Inr (sinks, restored, todo)" by (cases x) auto
    with o have s: "distinct sinks" "tr0 = map Open_sink sinks" using open_sinks_cases(2) by blast+
    show ?thesis
    proof (cases "new_monitor (me_mkdir me) (cf_data_dir cfg) (cf_min_free_bytes cfg) (cf_min_free_percent cfg)")
      case (Inl x)
      with assms files o y s show ?thesis
        by (intro refused [of sinks sinks]) (auto simp: run_server_def Let_def split: prod.splits)
    next
      case (Inr disk)
      with assms files o y s show ?thesis
        by (auto simp: run_server_def Let_def split: prod.splits option.splits intro!: served)
    qed
  qed
qed

text \<open>C23: Nothing is left open. Whatever the run meets, a sink is opened at most once and closed exactly as
  often; sinks are opened before any worker starts; and once workers run, the run ends only after they
  were told to stop and waited for, and closes no sink before that.\<close>

theorem run_closes:
  assumes "run_server me cfg = Some (tr, r, e)"
  shows "count_list tr (Open_sink s) \<le> 1 \<and> count_list tr (Close_sink s) = count_list tr (Open_sink s)
    \<and> (Workers_started n \<in> set tr \<longrightarrow> (\<exists>before_it during after_it.
        tr = before_it @ [Workers_started n] @ during @ [Workers_cancelled, Purge_awaited, Workers_awaited] @ after_it
        \<and> Serving \<in> set during \<and> Open_sink s \<notin> set (during @ after_it) \<and> Close_sink s \<notin> set (before_it @ during)))"
proof -
  have once: "count_list (map f xs) (f x) = (if x \<in> set xs then 1 else 0)" if "inj f" "distinct xs"
    for f :: "sink_kind \<Rightarrow> effect" and xs x
    using that by (induction xs) (auto simp: inj_eq)
  have other: "count_list (map Open_sink xs) (Close_sink x) = 0" "count_list (map Close_sink xs) (Open_sink x) = 0"
    for xs x by (induction xs) auto
  have inj: "inj Open_sink" "inj Close_sink" by (auto intro: injI)
  have "count_list tr (Open_sink s) \<le> 1 \<and> count_list tr (Close_sink s) = count_list tr (Open_sink s)"
    using run_server_cases [OF assms]
    by cases (auto simp: stop_effects_def once other inj)
  moreover have "Workers_started n \<in> set tr \<longrightarrow> (\<exists>before_it during after_it.
        tr = before_it @ [Workers_started n] @ during @ [Workers_cancelled, Purge_awaited, Workers_awaited] @ after_it
        \<and> Serving \<in> set during \<and> Open_sink s \<notin> set (during @ after_it) \<and> Close_sink s \<notin> set (before_it @ during))"
    using assms
  proof (cases rule: run_server_cases)
    case (served sinks n' p ru)
    show ?thesis
    proof
      assume "Workers_started n \<in> set tr"
      with served have "n = n'" by (auto simp: stop_effects_def)
      with served show "\<exists>before_it during after_it.
          tr = before_it @ [Workers_started n] @ during @ [Workers_cancelled, Purge_awaited, Workers_awaited] @ after_it
          \<and> Serving \<in> set during \<and> Open_sink s \<notin> set (during @ after_it) \<and> Close_sink s \<notin> set (before_it @ during)"
        by - (rule exI [of _ "map Open_sink sinks"], rule exI [of _ "[Purge_started p, Cleaner_started, Serving]"],
            rule exI [of _ "map Close_sink sinks"], auto simp: stop_effects_def)
    qed
  qed auto
  ultimately show ?thesis by blast
qed

text \<open>C36: The process reports failure unless everything went well: its exit code is zero exactly when the
  server was reached, the context ended it, every request was answered in time and the listener closed
  the way a shutdown closes it.\<close>

theorem exit_zero:
  assumes "run_server me cfg = Some (tr, r, e)"
  shows "exit_code e = 0 \<longleftrightarrow> r \<noteq> None \<and> me_end me = Context_done \<and> me_shutdown me = None
      \<and> errors_is (me_listen me) server_closed"
  using run_server_cases [OF assms]
  by cases (auto simp: exit_code_def serve_def join_errors_def split: serve_end.split option.split)

section \<open>A restart of the process\<close>

lemma restore_queue_returns:
  assumes "\<And>k q. int (length (room k q)) < cf_max_queue_size cfg \<or> ctx k \<noteq> None"
  shows "\<exists>q'. restore_queue cfg room sends ctx k ids q = Some q'"
proof (induction ids arbitrary: k q)
  case (Cons i ids)
  then show ?case using assms [of k q] by (auto simp: enqueue_blocking_def split: option.split)
qed simp

lemma restore_queue_all:
  assumes "int (length q + length ids) \<le> cf_max_queue_size cfg"
  shows "restore_queue cfg (\<lambda>_ q. q) sends (\<lambda>_. None) k ids q = Some (q @ ids)"
  using assms by (induction ids arbitrary: k q) (simp_all add: enqueue_blocking_def)

definition table_env :: "time \<Rightarrow> row list \<Rightarrow> db_env" where
  "table_env now t = \<lparr>de_connect = None, de_migrate = None, de_done = load_done None None now t,
     de_runnable = load_runnable None None t\<rparr>"


section \<open>A run\<close>

text \<open>A server with a database and a Dragonfly sink, the table holding one finished job, ended by a signal.\<close>

definition main_sample :: main_env where
  "main_sample = \<lparr>me_client = calm_client, me_db = table_env 9 [job_row (\<lambda>x. x) 7 finished_job], me_mkdir = None,
     me_room = (\<lambda>_ _. []), me_sends = (\<lambda>_. True), me_ctx = (\<lambda>_. None), me_end = Context_done,
     me_shutdown = None, me_close = None, me_listen = server_closed\<rparr>"

definition main_config :: config where
  "main_config = sample_config\<lparr>cf_database_url := ''db'', cf_redis_addr := '':2''\<rparr>"


lemma main_sample_runs:
  "\<exists>ru. run_server main_sample main_config = Some (
     [Open_sink Dragonfly, Open_sink Postgres, Workers_started 2, Purge_started False, Cleaner_started, Serving,
      Workers_cancelled, Purge_awaited, Workers_awaited, Close_sink Dragonfly, Close_sink Postgres], Some ru, None)"
proof -
  have "\<And>i r. jobs finished_store i = Some r \<Longrightarrow> clean_record r"
    by (simp add: finished_store_jobs finished_job_clean)
  then obtain s0 where "restored_from [] 0 9 [job_row (\<lambda>x. x) 7 finished_job] = Inr s0"
    using restart_ok [OF finished_table(1) _ finished_table(2), where base = "[]" and sinks = 0 and now = 9] by auto
  then obtain f p where l: "load_done None None 9 [job_row (\<lambda>x. x) 7 finished_job] = Inr f"
      "load_runnable None None [job_row (\<lambda>x. x) 7 finished_job] = Inr p"
    by (auto simp: restored_from_def rbind_def split: sum.splits)
  obtain s1 ids where r: "restore_pending (map Some p) (restore (map Some f) (new_store ''http://h'' (Suc (Suc 0)))) = (s1, ids)"
    by fastforce
  obtain q where "restore_queue main_config (\<lambda>_ _. []) (\<lambda>_. True) (\<lambda>_. None) 0 ids [] = Some q"
    using restore_queue_returns [of "\<lambda>_ _. []" main_config] by (fastforce simp: main_config_def sample_config_def)
  with l r show ?thesis
    by (simp add: run_server_def main_sample_def main_config_def sample_config_def artifact_store_of_def
        open_sinks_def table_env_def open_postgres_def new_monitor_def stop_effects_def purge_enabled_def
        serve_def join_errors_def)
qed

lemma run_closes_witness:
  "\<exists>tr r e. run_server main_sample main_config = Some (tr, r, e) \<and> Workers_started 2 \<in> set tr
    \<and> count_list tr (Close_sink Postgres) = count_list tr (Open_sink Postgres)
    \<and> (\<exists>before_it during after_it.
        tr = before_it @ [Workers_started 2] @ during @ [Workers_cancelled, Purge_awaited, Workers_awaited] @ after_it
        \<and> Serving \<in> set during)"
proof -
  obtain tr r e where t: "run_server main_sample main_config = Some (tr, r, e)" and w: "Workers_started 2 \<in> set tr"
    using main_sample_runs by fastforce
  have "count_list tr (Close_sink Postgres) = count_list tr (Open_sink Postgres)"
    using run_closes [OF t, where s = Postgres] by blast
  moreover have "\<exists>before_it during after_it.
        tr = before_it @ [Workers_started 2] @ during @ [Workers_cancelled, Purge_awaited, Workers_awaited] @ after_it
        \<and> Serving \<in> set during"
    using run_closes [OF t, where s = Postgres and n = 2] w by (elim conjE impE) metis+
  ultimately show ?thesis using t w by metis
qed

lemma exit_zero_witness:
  "\<exists>tr r e. run_server main_sample main_config = Some (tr, r, e) \<and> exit_code e = 0"
proof -
  obtain tr ru where t: "run_server main_sample main_config = Some (tr, Some ru, None)"
    using main_sample_runs by blast
  from exit_zero [OF t] t show ?thesis by (auto simp: exit_code_def)
qed

end
