(* ===== verification/Service_Spec.thy ===== *)
theory Service_Spec
  imports Pipeline_Delivery Api_Spec
begin

text \<open>
  The service from end to end: what a client gets when it asks for the artifact of a job that a worker has
  finished is the mux of the streams chosen for that job, from the data their servers gave.
\<close>

section \<open>What a finished job has delivered\<close>

definition fetched :: "'u runner \<Rightarrow> job_record \<Rightarrow> stream_response \<Rightarrow> bool" where
  "fetched rn r stream \<longleftrightarrow> (\<exists>k. fetch_stream (rn_lib rn) (rn_server rn k) (rn_decode rn) (rn_base rn)
     (job_url r) (authorization r) = Inr stream)"

text \<open>The selection takes the range way, with sizes for which no 64-bit sum wraps around.\<close>

definition takes_ranges :: "'u runner \<Rightarrow> selection \<Rightarrow> bool" where
  "takes_ranges rn sel \<longleftrightarrow> v_delivery_method (sel_video sel) \<noteq> ''sabr'' \<and> \<not> uses_remote_mux (rn_lib rn) sel
     \<and> size_fits rn (v_content_length (sel_video sel)) \<and> size_fits rn (a_content_length (sel_audio sel))"

text \<open>The output is the mux of a selection of a stream fetched for the job.\<close>

definition output_of :: "'u runner \<Rightarrow> string \<Rightarrow> job_record \<Rightarrow> paths \<Rightarrow> byte list \<Rightarrow> bool" where
  "output_of rn i r ps out \<longleftrightarrow> (\<exists>stream sel vb ab. fetched rn r stream
     \<and> select_mp4_with_options stream (selector_options (job_options r)) = Inr sel
     \<and> ps = job_paths rn i (sr_title stream) (sel_container sel)
     \<and> media_served rn sel vb ab \<and> muxed rn ps vb ab out)"

definition has_output :: "'u runner \<Rightarrow> string \<Rightarrow> job_record \<Rightarrow> string set \<Rightarrow> world \<Rightarrow> bool" where
  "has_output rn i r files w \<longleftrightarrow> (\<exists>ps out. ap_output ps \<in> files - {[]} \<and> delivered i (kept_local ps) w
     \<and> w_disk w (ap_output ps) = Some out \<and> output_of rn i r ps out)"

definition in_ranges :: "'u runner \<Rightarrow> job_record \<Rightarrow> bool" where
  "in_ranges rn r \<longleftrightarrow> (\<forall>stream sel. fetched rn r stream
     \<longrightarrow> select_mp4_with_options stream (selector_options (job_options r)) = Inr sel \<longrightarrow> takes_ranges rn sel)"

definition output_paths :: "'u runner \<Rightarrow> string \<Rightarrow> string \<Rightarrow> string set \<Rightarrow> bool" where
  "output_paths rn i container files \<longleftrightarrow> (\<forall>title. targets_of (job_paths rn i title container) \<subseteq> files
     \<and> faithful_av rn (ap_output (job_paths rn i title container)))"

lemma has_output_passes:
  "others_pass rn i files key \<Longrightarrow> has_output rn i r files w \<Longrightarrow> has_output rn i r files (pass_time rn w)"
proof -
  assume o: "others_pass rn i files key" and "has_output rn i r files w"
  then obtain ps out where h: "ap_output ps \<in> files - {[]}" "delivered i (kept_local ps) w"
      "w_disk w (ap_output ps) = Some out" "output_of rn i r ps out"
    unfolding has_output_def by blast
  then have "delivered i (kept_local ps) (pass_time rn w)" "w_disk (pass_time rn w) (ap_output ps) = Some out"
    using delivered_passes [OF o] files_pass [OF o, of "ap_output ps"] by simp_all
  with h show ?thesis unfolding has_output_def by blast
qed

lemma output_named:
  assumes "cf_data_dir (rn_config rn) \<noteq> []" and "plain i" and "CHR ''/'' \<notin> set container"
  shows "ap_output (job_paths rn i title container) \<noteq> []"
proof -
  have "join_slash (es @ [e, e']) \<noteq> []" for es e e' by (induction es rule: join_slash.induct) simp_all
  from this [of "elements (cf_data_dir (rn_config rn)) @ [''artifacts'']"] show ?thesis
    by (simp add: job_paths_def build_paths_below [OF assms] below_def render_path_def)
qed

lemma streams_fetched:
  assumes "others_pass rn i files key"
  shows "triple (working i) (extract_streams rn r)
    (\<lambda>q w. case q of Inl e \<Rightarrow> working i w | Inr stream \<Rightarrow> working i w \<and> fetched rn r stream)"
  unfolding extract_streams_def
  by (rule triple_retry) (auto simp: stable_def working_passes [OF assms] triple_def fetched_def split: sum.split)

lemma run_video_delivers:
  assumes "others_pass rn i files key" and "tidy_runner rn" and "cf_data_dir (rn_config rn) \<noteq> []" and "plain i"
    and "cf_muxer (rn_config rn) = ''avformat''" and "rn_files rn = Local_store"
    and "CHR ''/'' \<notin> set (so_container (selector_options (job_options r)))"
    and "output_paths rn i (so_container (selector_options (job_options r))) files"
    and "fetched rn r stream" and "in_ranges rn r"
  shows "triple (working i) (run_video rn i r stream) (\<lambda>q w. case q of Inl e \<Rightarrow> True | Inr _ \<Rightarrow> has_output rn i r files w)"
proof (cases "select_mp4_with_options stream (selector_options (job_options r))")
  case (Inl e)
  then show ?thesis by (simp add: run_video_def triple_def)
next
  case (Inr sel)
  define ps where "ps = job_paths rn i (sr_title stream) (sel_container sel)"
  have range: "takes_ranges rn sel" using assms(9,10) Inr unfolding in_ranges_def by blast
  have c: "sel_container sel = so_container (selector_options (job_options r))"
    using select_sabr_mp4 [OF Inr] range by (simp add: takes_ranges_def selector_options_def Let_def)
  have "separate ps" unfolding ps_def c by (rule job_paths_separate [OF assms(3,4,7)])
  moreover have "targets_of ps \<subseteq> files" "faithful_av rn (ap_output ps)"
    using assms(8) unfolding ps_def c output_paths_def by blast+
  ultimately have "triple (working i) (artifact_job rn i ps (range_body rn i sel ps))
      (\<lambda>q w. case q of Inl e \<Rightarrow> True
        | Inr _ \<Rightarrow> delivered i (kept_local ps) w
            \<and> (\<exists>vb ab out. media_served rn sel vb ab \<and> muxed rn ps vb ab out \<and> w_disk w (ap_output ps) = Some out))"
    using range assms by (intro range_artifact [OF assms(1)]) (simp_all add: takes_ranges_def)
  then have made: "triple (working i) (artifact_job rn i ps (range_body rn i sel ps))
      (\<lambda>q w. case q of Inl e \<Rightarrow> True | Inr _ \<Rightarrow> has_output rn i r files w)"
  proof (rule triple_weaken)
    have "output_of rn i r ps out" if "media_served rn sel vb ab" "muxed rn ps vb ab out" for vb ab out
      using that assms(9) Inr unfolding output_of_def ps_def by blast
    moreover have "ap_output ps \<in> files - {[]}"
      using \<open>targets_of ps \<subseteq> files\<close> output_named [OF assms(3,4,7)] by (auto simp: targets_of_def ps_def c)
    ultimately show "case q of Inl e \<Rightarrow> True | Inr _ \<Rightarrow> has_output rn i r files w"
      if "case q of Inl e \<Rightarrow> True | Inr _ \<Rightarrow> delivered i (kept_local ps) w
            \<and> (\<exists>vb ab out. media_served rn sel vb ab \<and> muxed rn ps vb ab out \<and> w_disk w (ap_output ps) = Some out)" for q w
      using that unfolding has_output_def by (auto split: sum.splits)
  qed
  have "video_body rn i r sel ps = range_body rn i sel ps"
    using range by (auto simp: video_body_def takes_ranges_def size_fits_def)
  with made have "triple (working i)
      (\<lambda>w. artifact_job rn i ps (video_body rn i r sel ps) (show_resolved rn i title out w))
      (\<lambda>q w. case q of Inl e \<Rightarrow> True | Inr _ \<Rightarrow> has_output rn i r files w)" for title out
    using working_run.show_resolved_keeps [of rn i files key _ title out] assms(1) by (auto simp: triple_def)
  then have "triple (working i) (with_reservation rn i (\<lambda>stat. reserve_video (rn_lib rn) stat i sel (sr_duration stream))
        (\<lambda>w. artifact_job rn i ps (video_body rn i r sel ps)
               (show_resolved rn i (sr_title stream) (resolved_of sel (ap_name ps)) w)))
      (\<lambda>q w. case q of Inl e \<Rightarrow> True | Inr _ \<Rightarrow> has_output rn i r files w)"
    by (rule with_reservation_triple)
      (use working_passes [OF assms(1)] has_output_passes [OF assms(1)] in
        \<open>auto simp: stable_def working_def has_output_def delivered_def split: sum.splits\<close>)
  then show ?thesis using Inr by (simp add: triple_def run_video_def ps_def Let_def)
qed

lemma run_job_delivers:
  assumes "others_pass rn i files key" and "tidy_runner rn" and "cf_data_dir (rn_config rn) \<noteq> []" and "plain i"
    and "cf_muxer (rn_config rn) = ''avformat''" and "rn_files rn = Local_store"
    and "CHR ''/'' \<notin> set (so_container (selector_options (job_options r)))"
    and "output_paths rn i (so_container (selector_options (job_options r))) files"
    and "\<not> is_audio_only (job_options r)"
    and "in_ranges rn r"
  shows "triple (working i) (run_job rn i r) (\<lambda>q w. case q of Inl e \<Rightarrow> True | Inr _ \<Rightarrow> has_output rn i r files w)"
proof (rule tripleI)
  fix w w' q
  assume w: "working i w" and run: "run_job rn i r w = Some (w', q)"
  show "case q of Inl e \<Rightarrow> True | Inr _ \<Rightarrow> has_output rn i r files w'"
  proof (cases q)
    case (Inr x)
    with run assms(9) obtain w1 stream where e: "extract_streams rn r w = Some (w1, Inr stream)"
      and v: "run_video rn i r stream w1 = Some (w', q)"
      by (auto simp: run_job_def bind_act_def split: option.splits sum.splits)
    from tripleD [OF streams_fetched [OF assms(1)] w e] have "working i w1" "fetched rn r stream" by simp_all
    from tripleD [OF run_video_delivers [OF assms(1-8) this(2) assms(10)] this(1) v] show ?thesis .
  qed simp
qed

text \<open>Until its worker starts it, others can cancel a queued job or delete it, and nothing else.\<close>

lemma queued_or_failed:
  assumes "others_pass rn i files key" and "jobs (w_store w) i = Some r0" and "job_status r0 = Queued"
    and "jobs (w_store (pass_time rn w)) i = Some r"
  shows "r = r0 \<or> job_status r = Failed"
proof -
  let ?P = "\<lambda>w. \<forall>r. jobs (w_store w) i = Some r \<longrightarrow> r = r0 \<or> job_status r = Failed"
  have kept: "?P w2" if "other_step (rn_fmt rn) i files key w1 w2" "?P w1" for w1 w2
  proof -
    have "bystander (rn_fmt rn) i (w_store w1) (w_store w2) \<or> w_store w2 = w_store w1"
      using that(1) by cases auto
    then consider "jobs (w_store w2) i = jobs (w_store w1) i" | "jobs (w_store w2) i = None"
      | q now where "jobs (w_store w2) i = Some (cancel_job now q)" "job_status q = Queued"
      using bystander_job [of "rn_fmt rn" i "w_store w1" "w_store w2"] by auto
    then show ?thesis using that(2) by cases (simp_all add: cancel_job_def)
  qed
  have others: "?P w'" if "(other_step (rn_fmt rn) i files key)\<^sup>*\<^sup>* w w'" for w'
    using that
  proof induction
    case base
    show ?case using assms(2) by simp
  next
    case (step w1 w2)
    from kept [OF step(2,3)] show ?case .
  qed
  show ?thesis using others [OF others_passD [OF assms(1), of w "w_tick w"]] assms(4) by (simp add: pass_time_def)
qed

lemma process_job_output:
  assumes "others_pass rn i files key" and "tidy_runner rn" and "cf_data_dir (rn_config rn) \<noteq> []" and "plain i"
    and "cf_muxer (rn_config rn) = ''avformat''" and "rn_files rn = Local_store"
    and "CHR ''/'' \<notin> set (so_container (selector_options (job_options r0)))"
    and "output_paths rn i (so_container (selector_options (job_options r0))) files"
    and "\<not> is_audio_only (job_options r0)"
    and "in_ranges rn r0"
    and job: "jobs (w_store w) i = Some r0" "job_status r0 = Queued" "expires_at r0 = None"
    and run: "process_job rn i w = Some w'" and ended: "jobs (w_store w') i = Some r" "job_status r = Done"
  shows "\<exists>ps out. artifact r = ap_output ps \<and> storage_backend r = ''local'' \<and> expires_at r = None
    \<and> artifact r \<noteq> [] \<and> w_disk w' (ap_output ps) = Some out \<and> output_of rn i r0 ps out"
  using run
proof (cases rule: process_job_cases)
  case 1
  with queued_or_failed [OF assms(1) job(1,2)] ended job(2) show ?thesis by fastforce
next
  case (2 r1 w1 q)
  with queued_or_failed [OF assms(1) job(1,2)] have r1: "r1 = r0" by fastforce
  show ?thesis
  proof (cases q)
    case (Inl e)
    with 2(4) ended have False
      by (auto simp: record_failure_def store_step_def Let_def fail_jobs fail_job_def)
    then show ?thesis ..
  next
    case (Inr x)
    have "waiting i ((pass_time rn w)\<lparr>w_ctx := rn_parent rn\<rparr>)"
      using waiting_passes [OF assms(1), of w] job by (simp add: waiting_def)
    from started_working [OF assms(1) this]
    have "working i (start_running rn i ((pass_time rn w)\<lparr>w_ctx := rn_parent rn\<rparr>))" .
    from tripleD [OF run_job_delivers [OF assms(1-10)] this 2(3) [unfolded r1]] Inr 2(4)
    have "has_output rn i r0 files w'" by simp
    then show ?thesis using ended by (auto simp: has_output_def delivered_def kept_local_def)
  qed
qed


section \<open>An example\<close>

text \<open>The job of the example: its worker finishes it, and a client gets the bytes of both files.\<close>

lemma sample_fetch:
  "fetch_stream sample_lib (rn_server sample_runner k) (rn_decode sample_runner) (rn_base sample_runner) ''http://v'' []
     = Inr sample_response"
  by code_simp

lemma sample_selects:
  "select_mp4_with_options sample_response (selector_options (job_options (sample_job ''a'' Queued))) = Inr small_selection"
  by code_simp

lemma sample_extracts:
  "w_ctx w = None \<Longrightarrow> extract_streams sample_runner (sample_job ''a'' Queued) w
     = Some (pass_time sample_runner w, Inr sample_response)"
  using sample_fetch
  by (simp add: extract_streams_def retry_def upto.simps pass_time_def sample_job_def new_record_def sample_runner_def)

lemma sample_reserves:
  "case reserve_video sample_lib (rn_stat sample_runner 0) ''a'' small_selection 1 (w_monitor sample_world) of
     (m, r) \<Rightarrow> r = Inr True"
  by code_simp

definition sample_begun :: "monitor \<Rightarrow> world" where
  "sample_begun m = (pass_time sample_runner (pass_time sample_runner (start_running sample_runner ''a''
     ((pass_time sample_runner sample_world)\<lparr>w_ctx := None\<rparr>))))\<lparr>w_monitor := m\<rparr>"

lemma sample_makes:
  "case artifact_job sample_runner ''a'' (job_paths sample_runner ''a'' ''t'' ''mp4'')
      (range_body sample_runner ''a'' small_selection (job_paths sample_runner ''a'' ''t'' ''mp4''))
      (show_resolved sample_runner ''a'' ''t''
         (resolved_of small_selection (ap_name (job_paths sample_runner ''a'' ''t'' ''mp4''))) (sample_begun m)) of
     None \<Rightarrow> False
   | Some (w, Inl e) \<Rightarrow> False
   | Some (w, Inr u) \<Rightarrow> map_option job_status (jobs (w_store w) ''a'') = Some Done"
  unfolding artifact_job_def make_output_def bind_act_def range_body_def deliver_def
  by code_simp

lemma sample_way: "video_body sample_runner ''a'' r small_selection ps = range_body sample_runner ''a'' small_selection ps"
proof -
  have "\<not> uses_remote_mux sample_lib small_selection" by code_simp
  then show ?thesis
    by (simp add: video_body_def small_selection_def sample_video_item_def sample_audio_item_def sample_runner_def)
qed

lemma sample_runs:
  "\<exists>w. run_job sample_runner ''a'' (sample_job ''a'' Queued)
      (start_running sample_runner ''a'' ((pass_time sample_runner sample_world)\<lparr>w_ctx := None\<rparr>)) = Some (w, Inr ())
    \<and> map_option job_status (jobs (w_store w) ''a'') = Some Done"
proof -
  let ?w0 = "start_running sample_runner ''a'' ((pass_time sample_runner sample_world)\<lparr>w_ctx := None\<rparr>)"
  let ?w1 = "pass_time sample_runner ?w0"
  have pass: "rn_pass sample_runner n w = w" for n w by (simp add: sample_runner_def)
  have "w_ctx ?w0 = None" by (simp add: start_running_def store_step_def Let_def pass_time_def pass)
  from sample_extracts [OF this]
  have e: "extract_streams sample_runner (sample_job ''a'' Queued) ?w0 = Some (?w1, Inr sample_response)" .
  have mon: "w_monitor (pass_time sample_runner ?w1) = w_monitor sample_world"
    by (simp add: start_running_def store_step_def Let_def pass_time_def pass)
  obtain m where m: "reserve_video sample_lib (rn_stat sample_runner k) ''a'' small_selection 1 (w_monitor sample_world)
      = (m, Inr True)" for k
    using sample_reserves by (auto simp: sample_runner_def split: prod.splits)
  let ?made = "artifact_job sample_runner ''a'' (job_paths sample_runner ''a'' ''t'' ''mp4'')
      (range_body sample_runner ''a'' small_selection (job_paths sample_runner ''a'' ''t'' ''mp4''))
      (show_resolved sample_runner ''a'' ''t''
         (resolved_of small_selection (ap_name (job_paths sample_runner ''a'' ''t'' ''mp4''))) (sample_begun m))"
  obtain w q where wq: "?made = Some (w, q)" using sample_makes [of m] by (cases ?made) auto
  then have w: "?made = Some (w, Inr ())" and d: "map_option job_status (jobs (w_store w) ''a'') = Some Done"
    using sample_makes [of m] by (cases q; simp)+
  have audio: "\<not> is_audio_only (job_options (sample_job ''a'' Queued))" by code_simp
  have parts: "sr_title sample_response = ''t''" "sr_duration sample_response = 1"
    "sel_container small_selection = ''mp4''" "rn_lib sample_runner = sample_lib"
    by (simp_all add: sample_response_def small_selection_def sample_runner_def)
  have "run_video sample_runner ''a'' (sample_job ''a'' Queued) sample_response ?w1
      = Some ((pass_time sample_runner w)\<lparr>w_monitor := release ''a'' (w_monitor (pass_time sample_runner w))\<rparr>, Inr ())"
    using w m mon
    by (simp add: run_video_def sample_selects with_reservation_def Let_def parts sample_way sample_begun_def)
  then show ?thesis using e d audio by (simp add: run_job_def bind_act_def pass_time_def pass)
qed

lemma sample_done:
  obtains w r where "process_job sample_runner ''a'' sample_world = Some w"
    and "jobs (w_store w) ''a'' = Some r" and "job_status r = Done"
proof -
  have "jobs (w_store (pass_time sample_runner sample_world)) ''a'' = Some (sample_job ''a'' Queued)"
    "rn_parent sample_runner = None"
    by (simp_all add: pass_time_def sample_runner_def sample_world_def)
  with sample_runs that show ?thesis by (auto simp: process_job_def Let_def get_job_def)
qed

lemma sample_in_ranges: "in_ranges sample_runner (sample_job ''a'' Queued)"
proof -
  have "stream = sample_response" if "fetched sample_runner (sample_job ''a'' Queued) stream" for stream
    using that sample_fetch by (auto simp: fetched_def sample_job_def new_record_def sample_runner_def)
  moreover have "takes_ranges sample_runner small_selection"
  proof -
    have "\<not> uses_remote_mux sample_lib small_selection" by code_simp
    then show ?thesis
      by (simp add: takes_ranges_def size_fits_def small_selection_def sample_video_item_def sample_audio_item_def
          sample_runner_def sample_config_def normalized_options_def pipeline_dl_options_def Let_def max_i64_def)
  qed
  ultimately show ?thesis using sample_selects unfolding in_ranges_def by (metis sum.inject(2))
qed


end
