(* ===== verification/Event_Stream.thy ===== *)
theory Event_Stream
  imports Api_Spec "HOL-Library.Sublist"
begin

text \<open>
  What a client of the event stream of a job reads (\<open>api/events.go\<close> over \<open>job/store_events.go\<close>), while
  other goroutines update jobs: the state of the job when it subscribed, then states the job went
  through, in their order; all of them, while no more than a buffer of them is unread.
\<close>

section \<open>The history of a job\<close>

text \<open>An update of a job, with the time of its broadcast.\<close>

type_synonym job_update = "string \<times> time \<times> (job_record \<Rightarrow> job_record)"

definition run_update :: "(time \<Rightarrow> string) \<Rightarrow> job_update \<Rightarrow> store \<Rightarrow> store" where
  "run_update fmt u s = fst (update fmt (fst (snd u)) (fst u) (snd (snd u)) s)"

definition run_updates :: "(time \<Rightarrow> string) \<Rightarrow> job_update list \<Rightarrow> store \<Rightarrow> store" where
  "run_updates fmt us s = foldl (\<lambda>s u. run_update fmt u s) s us"

text \<open>What asking for job \<open>i\<close> would have shown after each update of it.\<close>

fun history :: "(time \<Rightarrow> string) \<Rightarrow> string \<Rightarrow> string \<Rightarrow> job_update list \<Rightarrow> job_record option \<Rightarrow> response list" where
  "history fmt base i [] r = []"
| "history fmt base i ((j, t, f) # us) r =
     (if j \<noteq> i then history fmt base i us r
      else case r of
        None \<Rightarrow> history fmt base i us None
      | Some q \<Rightarrow> to_response fmt base t (f q) # history fmt base i us (Some (f q)))"

text \<open>The record after the updates.\<close>

fun updated :: "string \<Rightarrow> job_update list \<Rightarrow> job_record option \<Rightarrow> job_record option" where
  "updated i [] r = r"
| "updated i ((j, t, f) # us) r = updated i us (if j = i then map_option f r else r)"

lemma history_append:
  "history fmt base i (us @ vs) r = history fmt base i us r @ history fmt base i vs (updated i us r)"
  by (induction us arbitrary: r) (auto split: option.split)

lemma updated_append: "updated i (us @ vs) r = updated i vs (updated i us r)"
  by (induction us arbitrary: r) auto

section \<open>What a subscriber finds in its buffer\<close>

text \<open>\<open>c\<close> listens to job \<open>i\<close>.\<close>

definition listening :: "nat \<Rightarrow> string \<Rightarrow> store \<Rightarrow> bool" where
  "listening c i s \<longleftrightarrow> chan_inv s \<and> c \<in> set (listeners_of s i)"

text \<open>What arrives of the responses \<open>h\<close> in a buffer that holds \<open>n\<close>: some of them in order; all, if they fit.\<close>

definition arrives :: "nat \<Rightarrow> response list \<Rightarrow> response list \<Rightarrow> bool" where
  "arrives n h ys \<longleftrightarrow> subseq ys h \<and> (n + length h \<le> chan_capacity \<longrightarrow> ys = h)"

lemma chan_buf_broadcast_other:
  "listening c i s \<Longrightarrow> j \<noteq> i \<Longrightarrow> chan_buf (broadcast fmt t j s) c = chan_buf s c"
  unfolding broadcast_def Let_def
  by (rule chan_buf_send_other) (auto simp: listening_def chan_inv_def)

lemma run_update_keeps:
  "base_url (run_update fmt u s) = base_url s" "next_chan (run_update fmt u s) = next_chan s"
  "chan_inv s \<Longrightarrow> chan_inv (run_update fmt u s)"
proof -
  obtain j t f where u: "u = (j, t, f)" by (cases u) auto
  let ?s1 = "fst (update_locked j f s)"
  have s': "run_update fmt u s = (case jobs s j of None \<Rightarrow> s | Some r \<Rightarrow> notify (f r) (broadcast fmt t j ?s1))"
    by (simp add: run_update_def u update_def update_locked_def split: option.split)
  show "base_url (run_update fmt u s) = base_url s" "next_chan (run_update fmt u s) = next_chan s"
    by (simp_all add: s' update_locked_def split: option.split)
  show "chan_inv (run_update fmt u s)" if "chan_inv s"
    using that chan_inv_broadcast [of ?s1 fmt t j]
    by (simp add: s' chan_inv_cong [OF update_locked_channels]
        chan_inv_cong [of "notify r (broadcast fmt t j ?s1)" "broadcast fmt t j ?s1" for r] split: option.split)
qed

lemma run_updates_keeps:
  "base_url (run_updates fmt us s) = base_url s" "next_chan (run_updates fmt us s) = next_chan s"
  "chan_inv s \<Longrightarrow> chan_inv (run_updates fmt us s)"
  by (induction us arbitrary: s) (simp_all add: run_updates_def run_update_keeps)

lemma run_update_frame:
  assumes "listening c i s"
  shows "listening c i (run_update fmt u s)" "base_url (run_update fmt u s) = base_url s"
    "jobs (run_update fmt u s) i = updated i [u] (jobs s i)"
    "\<exists>ys. chan_buf (run_update fmt u s) c = chan_buf s c @ ys
       \<and> arrives (length (chan_buf s c)) (history fmt (base_url s) i [u] (jobs s i)) ys"
proof -
  obtain j t f where u: "u = (j, t, f)" by (cases u) auto
  let ?s1 = "fst (update_locked j f s)"
  have l1: "listening c i ?s1"
    using assms by (simp add: listening_def chan_inv_cong [OF update_locked_channels] update_locked_channels listeners_of_def)
  have s': "run_update fmt u s = (case jobs s j of None \<Rightarrow> s | Some r \<Rightarrow> notify (f r) (broadcast fmt t j ?s1))"
    by (simp add: run_update_def u update_def update_locked_def split: option.split)
  have b: "base_url ?s1 = base_url s" by (simp add: update_locked_def split: option.split)
  have "listening c i (notify r (broadcast fmt t j ?s1))" for r
    using l1 chan_inv_broadcast [of ?s1 fmt t j]
    by (simp add: listening_def listeners_of_def chan_inv_cong [of "notify r (broadcast fmt t j ?s1)" "broadcast fmt t j ?s1"])
  then show "listening c i (run_update fmt u s)" "base_url (run_update fmt u s) = base_url s"
    using assms b by (simp_all add: s' split: option.split)
  show "jobs (run_update fmt u s) i = updated i [u] (jobs s i)"
    by (auto simp: run_update_def u jobs_update)
  show "\<exists>ys. chan_buf (run_update fmt u s) c = chan_buf s c @ ys
       \<and> arrives (length (chan_buf s c)) (history fmt (base_url s) i [u] (jobs s i)) ys"
  proof (cases "j = i \<and> jobs s i \<noteq> None")
    case True
    then obtain q where q: "jobs s i = Some q" by auto
    have r: "response_locked fmt t i ?s1 = to_response fmt (base_url s) t (f q)"
      using True q b by (simp add: response_locked_def update_locked_def)
    have "chan_buf (run_update fmt u s) c =
        (if length (chan_buf s c) < chan_capacity then chan_buf s c @ [to_response fmt (base_url s) t (f q)] else chan_buf s c)"
      using True q r l1 chan_buf_broadcast [of ?s1 c i fmt t] by (simp add: s' listening_def update_locked_channels)
    then show ?thesis using True q
      by (cases "length (chan_buf s c) < chan_capacity") (auto simp: u arrives_def)
  next
    case False
    have "chan_buf (run_update fmt u s) c = chan_buf s c"
    proof (cases "j = i")
      case True
      with False show ?thesis by (simp add: s')
    next
      case ne: False
      then show ?thesis
        using chan_buf_broadcast_other [OF l1 ne, of fmt t] by (simp add: s' update_locked_channels split: option.split)
    qed
    then show ?thesis using False by (auto simp: u arrives_def split: option.split)
  qed
qed

lemma arrives_append:
  "arrives n h ys \<Longrightarrow> arrives (n + length ys) h' ys' \<Longrightarrow> arrives n (h @ h') (ys @ ys')"
  by (auto simp: arrives_def intro: list_emb_append_mono)

lemma run_updates_frame:
  assumes "listening c i s"
  shows "listening c i (run_updates fmt us s)" "base_url (run_updates fmt us s) = base_url s"
    "jobs (run_updates fmt us s) i = updated i us (jobs s i)"
    "\<exists>ys. chan_buf (run_updates fmt us s) c = chan_buf s c @ ys
       \<and> arrives (length (chan_buf s c)) (history fmt (base_url s) i us (jobs s i)) ys"
proof -
  have "listening c i (run_updates fmt us s) \<and> base_url (run_updates fmt us s) = base_url s
    \<and> jobs (run_updates fmt us s) i = updated i us (jobs s i)
    \<and> (\<exists>ys. chan_buf (run_updates fmt us s) c = chan_buf s c @ ys
       \<and> arrives (length (chan_buf s c)) (history fmt (base_url s) i us (jobs s i)) ys)"
    using assms
  proof (induction us arbitrary: s)
    case Nil
    then show ?case by (simp add: run_updates_def arrives_def)
  next
    case (Cons u us)
    let ?s = "run_update fmt u s"
    note one = run_update_frame [OF Cons.prems, of fmt u]
    from one(4) obtain ys where ys: "chan_buf ?s c = chan_buf s c @ ys"
      "arrives (length (chan_buf s c)) (history fmt (base_url s) i [u] (jobs s i)) ys" by blast
    from Cons.IH [OF one(1)] obtain zs where zs: "chan_buf (run_updates fmt us ?s) c = chan_buf ?s c @ zs"
      "arrives (length (chan_buf ?s c)) (history fmt (base_url s) i us (jobs ?s i)) zs"
      and rest: "listening c i (run_updates fmt us ?s)" "base_url (run_updates fmt us ?s) = base_url s"
        "jobs (run_updates fmt us ?s) i = updated i us (jobs ?s i)"
      using one(2) by auto
    have step: "run_updates fmt (u # us) s = run_updates fmt us ?s" by (simp add: run_updates_def)
    have "arrives (length (chan_buf s c)) (history fmt (base_url s) i ([u] @ us) (jobs s i)) (ys @ zs)"
      unfolding history_append using arrives_append [OF ys(2)] zs(2) ys(1) one(3) by simp
    moreover have "updated i (u # us) (jobs s i) = updated i us (jobs ?s i)"
      using updated_append [of i "[u]" us] one(3) by simp
    ultimately show ?case unfolding step using rest ys(1) zs(1) by auto
  qed
  then show "listening c i (run_updates fmt us s)" "base_url (run_updates fmt us s) = base_url s"
    "jobs (run_updates fmt us s) i = updated i us (jobs s i)"
    "\<exists>ys. chan_buf (run_updates fmt us s) c = chan_buf s c @ ys
       \<and> arrives (length (chan_buf s c)) (history fmt (base_url s) i us (jobs s i)) ys" by blast+
qed

section \<open>The loop of the handler\<close>

text \<open>The other goroutines update jobs: in the \<open>k\<close>-th of their turns, \<open>ups k\<close>.\<close>

definition others_update :: "'u api_env \<Rightarrow> (nat \<Rightarrow> job_update list) \<Rightarrow> bool" where
  "others_update srv ups \<longleftrightarrow>
     (\<forall>k st. web_pass srv k st = st\<lparr>as_store := run_updates (web_fmt srv) (ups k) (as_store st)\<rparr>)"

text \<open>The turns the loop gives them.\<close>

fun turns :: "event_choice list \<Rightarrow> nat" where
  "turns [] = 0"
| "turns (Client_gone # choices) = 1"
| "turns (Heartbeat # choices) = Suc (turns choices)"
| "turns (Take_update # choices) = Suc (turns choices)"

definition during :: "(nat \<Rightarrow> job_update list) \<Rightarrow> nat \<Rightarrow> event_choice list \<Rightarrow> job_update list" where
  "during ups k choices = concat (map ups [k..<k + turns choices])"

fun payloads :: "event_frame list \<Rightarrow> json list" where
  "payloads [] = []"
| "payloads (Keep_alive # frames) = payloads frames"
| "payloads (Progress v # frames) = v # payloads frames"

lemma during_simps [simp]:
  "during ups k [] = []" "during ups k (Client_gone # choices) = ups k"
  "during ups k (Heartbeat # choices) = ups k @ during ups (Suc k) choices"
  "during ups k (Take_update # choices) = ups k @ during ups (Suc k) choices"
proof -
  have "[k..<k + Suc n] = k # [Suc k..<Suc k + n]" for n by (simp add: upt_rec [of k])
  then show "during ups k (Heartbeat # choices) = ups k @ during ups (Suc k) choices"
    "during ups k (Take_update # choices) = ups k @ during ups (Suc k) choices"
    by (simp_all add: during_def del: upt_Suc)
qed (simp_all add: during_def)

lemma arrives_less: "arrives n h ys \<Longrightarrow> n \<le> m \<Longrightarrow> arrives m h ys"
  by (auto simp: arrives_def)

text \<open>What the client was sent and has still to read, against the responses \<open>h\<close>.\<close>

definition delivered :: "nat \<Rightarrow> response list \<Rightarrow> response list \<Rightarrow> json list \<Rightarrow> store \<Rightarrow> bool" where
  "delivered c b h sent s \<longleftrightarrow>
     (\<exists>ys. sent @ map response_json (chan_buf s c) = map response_json (b @ ys) \<and> arrives (length b) h ys)"

lemma delivered_later:
  assumes "chan_buf s1 c = b @ ys" "arrives (length b) h ys"
    "delivered c (chan_buf s1 c) h' sent s"
  shows "delivered c b (h @ h') sent s"
proof -
  from assms(1,3) obtain zs where zs: "sent @ map response_json (chan_buf s c) = map response_json ((b @ ys) @ zs)"
    "arrives (length (b @ ys)) h' zs" by (auto simp: delivered_def)
  have "arrives (length b) (h @ h') (ys @ zs)" using arrives_append [OF assms(2)] zs(2) by simp
  with zs(1) show ?thesis unfolding delivered_def by (intro exI [of _ "ys @ zs"]) simp
qed

lemma delivered_read:
  assumes "delivered c rest h sent s"
  shows "delivered c (x # rest) h (response_json x # sent) s"
  using assms arrives_less [of "length rest" h _ "Suc (length rest)"] by (auto simp: delivered_def)

lemma listening_receive:
  assumes l: "listening c i s" and rc: "receive c s = Some (s', x)"
  shows "listening c i s'" "jobs s' = jobs s" "base_url s' = base_url s" "chan_buf s c = x # chan_buf s' c"
proof -
  from rc obtain rest where b: "chan_buf s c = x # rest" and s': "s' = s\<lparr>chan_buf := (chan_buf s)(c := rest)\<rparr>"
    by (auto simp: receive_def split: list.splits)
  have eqs: "listeners s' = listeners s" "chan_open s' = chan_open s" "next_chan s' = next_chan s"
    "panicked s' = panicked s" by (simp_all add: s')
  have "length (x # rest) \<le> chan_capacity" using l b by (metis listening_def chan_inv_def)
  then have "length (chan_buf s' d) \<le> chan_capacity" for d
    using l by (simp add: s' listening_def chan_inv_def)
  with l show "listening c i s'"
    by (simp add: listening_def chan_inv_def listeners_of_def eqs)
  show "jobs s' = jobs s" "base_url s' = base_url s" "chan_buf s c = x # chan_buf s' c"
    by (simp_all add: s' b)
qed

lemma event_loop_history:
  assumes others: "others_update srv ups"
  shows "listening c i (as_store st) \<Longrightarrow> event_loop srv c k choices st = (st', frames, over) \<Longrightarrow>
    delivered c (chan_buf (as_store st) c)
      (history (web_fmt srv) (base_url (as_store st)) i (during ups k choices) (jobs (as_store st) i))
      (payloads frames) (as_store st')"
proof (induction choices arbitrary: k st frames)
  case Nil
  then show ?case by (auto simp: delivered_def arrives_def)
next
  case (Cons a choices)
  let ?s = "as_store st"
  let ?s1 = "run_updates (web_fmt srv) (ups k) ?s"
  let ?st1 = "web_pass srv k st"
  have st1: "as_store ?st1 = ?s1" using others by (simp add: others_update_def)
  note fr = run_updates_frame [OF Cons.prems(1), of "web_fmt srv" "ups k"]
  let ?h = "\<lambda>us. history (web_fmt srv) (base_url ?s1) i us (jobs ?s1 i)"
  have later: "delivered c (chan_buf ?s c)
      (history (web_fmt srv) (base_url ?s) i (ups k @ us) (jobs ?s i)) sent s'"
    if "delivered c (chan_buf ?s1 c) (?h us) sent s'" for us sent s'
    unfolding history_append using fr(4) delivered_later that fr(2,3) by fastforce
  show ?case
  proof (cases a)
    case Client_gone
    with Cons.prems st1 have "as_store st' = ?s1" "frames = []" by auto
    moreover have "delivered c (chan_buf ?s1 c) (?h []) [] ?s1" by (simp add: delivered_def arrives_def)
    ultimately show ?thesis using later [of "[]" "[]" ?s1] Client_gone by simp
  next
    case Heartbeat
    with Cons.prems obtain fs where e: "event_loop srv c (Suc k) choices ?st1 = (st', fs, over)"
      and fs: "frames = Keep_alive # fs" by (auto split: prod.splits)
    from later [OF Cons.IH [OF _ e, unfolded st1, OF fr(1)]] Heartbeat fs show ?thesis by simp
  next
    case Take_update
    show ?thesis
    proof (cases "receive c ?s1")
      case None
      with Cons.prems Take_update st1 have e: "event_loop srv c (Suc k) choices ?st1 = (st', frames, over)" by simp
      from later [OF Cons.IH [OF _ e, unfolded st1, OF fr(1)]] Take_update show ?thesis by simp
    next
      case (Some p)
      then obtain s2 x where rc: "receive c ?s1 = Some (s2, x)" by (cases p) auto
      with Cons.prems Take_update st1 obtain fs where
        e: "event_loop srv c (Suc k) choices (?st1\<lparr>as_store := s2\<rparr>) = (st', fs, over)"
        and fs: "frames = Progress (response_json x) # fs" by (auto simp: Let_def split: prod.splits)
      note rd = listening_receive [OF fr(1) rc]
      have "delivered c (chan_buf s2 c) (?h (during ups (Suc k) choices)) (payloads fs) (as_store st')"
        using Cons.IH [OF _ e] rd by simp
      from later [OF delivered_read [OF this, of x, folded rd(4)]] Take_update fs show ?thesis by simp
    qed
  qed
qed

section \<open>The stream\<close>

text \<open>A subscription has one buffered response: the state of the job.\<close>

lemma subscribe_listening:
  assumes inv: "chan_inv s" and sub: "subscribe fmt now i s = Some (s', Some c)"
  shows "\<exists>r. jobs s i = Some r \<and> c = next_chan s \<and> listening c i s' \<and> base_url s' = base_url s
    \<and> jobs s' = jobs s \<and> chan_buf s' c = [to_response fmt (base_url s) now r]"
proof -
  obtain r where r: "jobs s i = Some r"
    using sub by (cases "jobs s i") (auto simp: subscribe_def subscribe_locked_def)
  define s1 where "s1 = fst (subscribe_locked fmt now i s)"
  let ?x = "to_response fmt (base_url s) now r"
  have l: "subscribe_locked fmt now i s = (s1, Some (next_chan s, ?x))"
    using r by (simp add: s1_def subscribe_locked_def response_locked_def Let_def)
  have s1: "next_chan s \<in> set (listeners_of s1 i)" "chan_open s1 (next_chan s)" "chan_buf s1 (next_chan s) = []"
    "jobs s1 = jobs s" "base_url s1 = base_url s"
    using r by (simp_all add: s1_def subscribe_locked_def listeners_of_def Let_def)
  have s': "s' = try_send (next_chan s) ?x s1" "c = next_chan s"
    using sub s1 by (auto simp: subscribe_def l subscribe_send_def chan_capacity_def)
  have "chan_inv s'"
    unfolding s'(1) using chan_inv_try_send [OF _ s1(2)] chan_inv_subscribe [OF inv] by (simp add: s1_def)
  moreover have "listeners_of s' i = listeners_of s1 i" by (simp add: s'(1) listeners_of_def)
  moreover have "base_url s' = base_url s" using s1(5) by (simp add: s'(1) try_send_def)
  ultimately show ?thesis
    using r s1 s' by (simp add: listening_def chan_buf_try_send chan_capacity_def)
qed


definition chatty :: "nat \<Rightarrow> job_update list" where
  "chatty k = (if k = 1 then [(''a'', 1, \<lambda>r. r\<lparr>job_title := ''t''\<rparr>), (''b'', 2, id)] else [])"

definition chatty_env :: "string api_env" where
  "chatty_env = web_sample\<lparr>web_pass := \<lambda>k st. st\<lparr>as_store := run_updates (\<lambda>_. []) (chatty k) (as_store st)\<rparr>\<rparr>"

definition chatty_choices :: "event_choice list" where
  "chatty_choices = [Take_update, Heartbeat, Take_update, Client_gone]"

lemma chatty_stream:
  "case events_reply chatty_env True chatty_choices ''a'' finished_state of
      Some (st', Streaming [Progress v, Keep_alive, Progress w] True) \<Rightarrow> chan_buf (as_store st') 0 = []
    | _ \<Rightarrow> False"
  by code_simp


end
