(* ===== verification/Selector_Spec.thy ===== *)
theory Selector_Spec
  imports Selector "HOL-Library.Product_Lexorder"
begin

text \<open>
  The selection of \<open>selector/selector.go\<close> against a reference: filter the acceptable streams, sort them
  (stably), take the first. The loops of the code make one pass and keep the best stream so far.
\<close>

section \<open>One pass or a sort\<close>

definition head :: "'a list \<Rightarrow> 'a option" where
  "head xs = (case xs of [] \<Rightarrow> None | x # _ \<Rightarrow> Some x)"

lemma hd_insort_key:
  "head (insort_key key x xs) = Some (case head xs of None \<Rightarrow> x | Some y \<Rightarrow> if key x \<le> key y then x else y)"
  by (cases xs) (simp_all add: head_def)

lemma pick_loop_sorts:
  fixes key :: "'a \<Rightarrow> 'k :: linorder"
  assumes key: "\<And>x y. better x y \<longleftrightarrow> key x < key y"
  shows "pick_loop ok better best xs =
    head (case best of None \<Rightarrow> sort_key key (filter ok xs) | Some b \<Rightarrow> sort_key key (b # filter ok xs))"
proof -
  have better: "better = (\<lambda>x y. key x < key y)" by (intro ext) (rule key)
  show ?thesis unfolding better
  proof (induction xs arbitrary: best)
    case Nil
    show ?case by (simp add: head_def split: option.split)
  next
    case (Cons x xs)
    show ?case
      by (cases "ok x"; cases best; cases "head (sort_key key (filter ok xs))")
         (auto simp: Cons.IH hd_insort_key)
  qed
qed

section \<open>The reference\<close>

text \<open>Higher first, then of the greater bitrate; the order of the stream service decides between equals.\<close>

definition video_key :: "video_item \<Rightarrow> int \<times> int" where
  "video_key v = (- v_height v, - stream_bitrate (v_bitrate v))"

definition ranked_videos :: "sel_options \<Rightarrow> video_item list \<Rightarrow> video_item list" where
  "ranked_videos opts vs = sort_key video_key (filter (video_ok opts) vs)"

definition ranked_audios :: "sel_options \<Rightarrow> string option \<Rightarrow> audio_item list \<Rightarrow> audio_item list" where
  "ranked_audios opts preferred as = sort_key (\<lambda>a. - audio_rank preferred a) (filter (audio_ok opts) as)"

definition reference_selection :: "stream_response \<Rightarrow> sel_options \<Rightarrow> selection result" where
  "reference_selection stream options =
     (let opts = effective_options options
      in case ranked_videos opts (sr_video_only_streams stream) of
           [] \<Rightarrow> Inl (Err (''no compatible mp4 video-only stream for codec '' @ so_video_codec_prefix opts))
         | video # _ \<Rightarrow>
             (case ranked_audios (audio_options_for video opts) (sr_preferred_default_audio_id stream)
                     (sr_audio_streams stream) of
                [] \<Rightarrow> Inl (Err (''no compatible m4a audio stream for codec ''
                        @ so_audio_codec_prefix (audio_options_for video opts)))
              | audio # _ \<Rightarrow> Inr \<lparr>sel_title = sr_title stream, sel_video = video, sel_audio = audio,
                  sel_container = (if v_delivery_method video = ''sabr'' then ''mp4'' else so_container opts)\<rparr>))"

lemma video_better_key: "video_better x y \<longleftrightarrow> video_key x < video_key y"
  by (auto simp: video_better_def video_key_def)

lemma select_video_ranked: "select_video vs opts = head (ranked_videos opts vs)"
  using pick_loop_sorts [of video_better video_key "video_ok opts" None vs, OF video_better_key]
  by (simp add: select_video_def ranked_videos_def)

lemma select_audio_ranked: "select_audio as preferred opts = head (ranked_audios opts preferred as)"
  using pick_loop_sorts [of "audio_better preferred" "\<lambda>a. - audio_rank preferred a" "audio_ok opts" None as]
  by (simp add: select_audio_def ranked_audios_def audio_better_def)


end
